(* ===== verification/Prelude.thy ===== *)
theory Prelude
  imports Main "HOL-Library.Word"
begin

text \<open>
  What the components share: names for the machine types, the exceptions of the
  C++ standard library the sources throw, the collections of rewrite rules, the
  reachability predicate used by every step relation, and the queue
  interface of the gateway (a bounded first-in first-out buffer that refuses
  when full).
\<close>

section \<open>Machine types\<close>

type_synonym u8 = "8 word"
type_synonym u32 = "32 word"
type_synonym u64 = "64 word"

text \<open>Exceptions the modelled sources throw, with the text of the message.\<close>

datatype cpp_exception =
    Invalid_argument string
  | Runtime_error string

type_synonym 'a outcome = "cpp_exception + 'a"

definition bind_outcome :: "'a outcome \<Rightarrow> ('a \<Rightarrow> 'b outcome) \<Rightarrow> 'b outcome" where
  "bind_outcome m f = (case m of Inl e \<Rightarrow> Inl e | Inr x \<Rightarrow> f x)"

lemma bind_outcome_simps [simp]:
  "bind_outcome (Inl e) f = Inl e"
  "bind_outcome (Inr x) f = f x"
  by (simp_all add: bind_outcome_def)

lemma bind_outcome_Inr_iff:
  "bind_outcome m f = Inr y \<longleftrightarrow> (\<exists>x. m = Inr x \<and> f x = Inr y)"
  by (cases m) simp_all

text \<open>A C string ends at its first zero byte; \<open>std::to_string\<close> of a number.\<close>

definition c_str :: "string \<Rightarrow> string" where
  "c_str s = takeWhile (\<lambda>c. c \<noteq> CHR 0x00) s"

fun string_of_nat :: "nat \<Rightarrow> string" where
  "string_of_nat n = (if n < 10 then [char_of (48 + n)]
     else string_of_nat (n div 10) @ [char_of (48 + n mod 10)])"

declare string_of_nat.simps [simp del]

definition string_of_int :: "int \<Rightarrow> string" where
  "string_of_int i = (if i < 0 then CHR ''-'' # string_of_nat (nat (- i)) else string_of_nat (nat i))"

named_theorems wf_intros \<open>introduction rules for well-formedness invariants\<close>
named_theorems step_preserves \<open>one preservation lemma per atomic step\<close>

section \<open>Lists\<close>

lemma drop_snoc_full:
  "length xs = n \<Longrightarrow> 0 < n \<Longrightarrow> drop (Suc (length xs) - n) (xs @ [x]) = tl xs @ [x]"
  by (cases xs) simp_all

lemma map_upt_snoc:
  "map f [0..<Suc n] = map f [0..<n] @ [f n]"
  by simp

lemma rev_map_upt_drop:
  assumes "k \<le> n"
  shows "rev (map (\<lambda>i. f (n - 1 - i)) [0..<k]) = drop (n - k) (map f [0..<n])"
  by (rule nth_equalityI) (use assms in \<open>auto simp: rev_nth intro!: arg_cong[where f=f]\<close>)

lemma find_append:
  "find P (xs @ ys) = (case find P xs of Some x \<Rightarrow> Some x | None \<Rightarrow> find P ys)"
  by (induction xs) simp_all

lemma find_Some_memD:
  "find P xs = Some x \<Longrightarrow> x \<in> set xs \<and> P x"
  by (induction xs) (auto split: if_splits)

section \<open>Words\<close>

lemma unat_plus_one:
  fixes w :: "'a::len word"
  assumes "w < v"
  shows "unat (w + 1) = Suc (unat w)"
proof -
  from assms have "w \<noteq> - 1"
    by (metis word_order.extremum_strict)
  then show ?thesis
    by (metis add.commute add_eq_0_iff2 unatSuc)
qed

lemma unat_minus_le:
  fixes v w :: "'a::len word"
  shows "w \<le> v \<Longrightarrow> unat (v - w) = unat v - unat w"
  by (metis unat_sub)

lemma unat_lt_2p: "unat (w :: 'a::len word) < 2 ^ LENGTH('a)"
  by (rule unsigned_less)

lemma unat_of_nat_lt:
  "n < 2 ^ LENGTH('a::len) \<Longrightarrow> unat (of_nat n :: 'a word) = n"
  by (simp add: unsigned_of_nat take_bit_nat_eq_self)

lemma word_eq_of_nat: "unat w = n \<Longrightarrow> w = of_nat n"
  by auto

lemma unat_max_word: "unat (- 1 :: 'a::len word) = 2 ^ LENGTH('a) - 1"
  by (simp add: unsigned_minus_1_eq_mask mask_eq_exp_minus_1)

section \<open>Reachability\<close>

text \<open>
  States reachable from an initial state by a step relation.  Every step
  relation of the development is closed by this predicate, so that an invariant
  is proved once per step and lifted here.
\<close>

inductive reachable :: "('s \<Rightarrow> bool) \<Rightarrow> ('s \<Rightarrow> 's \<Rightarrow> bool) \<Rightarrow> 's \<Rightarrow> bool"
  for ini :: "'s \<Rightarrow> bool" and step :: "'s \<Rightarrow> 's \<Rightarrow> bool" where
  reach_init: "ini s \<Longrightarrow> reachable ini step s"
| reach_step: "reachable ini step s \<Longrightarrow> step s t \<Longrightarrow> reachable ini step t"

lemma reachable_invariant:
  assumes "reachable ini step s"
    and "\<And>s. ini s \<Longrightarrow> I s"
    and "\<And>s t. reachable ini step s \<Longrightarrow> I s \<Longrightarrow> step s t \<Longrightarrow> I t"
  shows "I s"
  using assms(1) by induction (use assms(2,3) in blast)+

section \<open>Interface: bounded first-in first-out buffer\<close>

datatype 'a fifo_op = Fifo_push 'a | Fifo_pop

text \<open>
  Running a sequence of buffer operations, in the order the buffer's mutex
  serialises them: the final state, the accepted pushes and the delivered
  elements.
\<close>

fun fifo_run :: "('s \<Rightarrow> 'a \<Rightarrow> 's \<times> bool) \<Rightarrow> ('s \<Rightarrow> 's \<times> 'a option) \<Rightarrow> 's \<Rightarrow>
    'a fifo_op list \<Rightarrow> 's \<times> 'a list \<times> 'a list" where
  "fifo_run push pop s [] = (s, [], [])"
| "fifo_run push pop s (Fifo_push a # ops) =
    (case push s a of (s1, ok) \<Rightarrow>
      case fifo_run push pop s1 ops of (s2, acc, del) \<Rightarrow>
        (s2, (if ok then a # acc else acc), del))"
| "fifo_run push pop s (Fifo_pop # ops) =
    (case pop s of (s1, r) \<Rightarrow>
      case fifo_run push pop s1 ops of (s2, acc, del) \<Rightarrow>
        (s2, acc, (case r of None \<Rightarrow> del | Some a \<Rightarrow> a # del)))"

locale bounded_fifo =
  fixes items :: "'s \<Rightarrow> 'a list"
    and bound :: "'s \<Rightarrow> nat"
    and accepting :: "'s \<Rightarrow> bool"
    and push :: "'s \<Rightarrow> 'a \<Rightarrow> 's \<times> bool"
    and pop :: "'s \<Rightarrow> 's \<times> 'a option"
  assumes push_accept: "accepting s \<Longrightarrow> length (items s) < bound s \<Longrightarrow>
      snd (push s a) \<and> items (fst (push s a)) = items s @ [a]"
    and push_refuse: "\<not> accepting s \<or> bound s \<le> length (items s) \<Longrightarrow>
      \<not> snd (push s a) \<and> items (fst (push s a)) = items s"
    and push_bound: "bound (fst (push s a)) = bound s"
    and pop_front: "snd (pop s) = (case items s of [] \<Rightarrow> None | x # xs \<Rightarrow> Some x)"
    and pop_rest: "items (fst (pop s)) = tl (items s)"
    and pop_bound: "bound (fst (pop s)) = bound s"
begin

lemma push_cases:
  "(snd (push s a) \<and> items (fst (push s a)) = items s @ [a] \<and> length (items s) < bound s) \<or>
   (\<not> snd (push s a) \<and> items (fst (push s a)) = items s)"
  using push_accept[of s a] push_refuse[of s a] by (meson not_le_imp_less)

lemma run_conserves:
  "fifo_run push pop s ops = (t, acc, del) \<Longrightarrow> items s @ acc = del @ items t"
proof (induction ops arbitrary: s t acc del)
  case Nil
  then show ?case by simp
next
  case (Cons op ops)
  show ?case
  proof (cases op)
    case (Fifo_push a)
    then show ?thesis
      using Cons.prems Cons.IH[of "fst (push s a)"] push_cases[of s a]
      by (fastforce split: prod.splits if_splits)
  next
    case Fifo_pop
    then show ?thesis
      using Cons.prems Cons.IH[of "fst (pop s)"] pop_front[of s] pop_rest[of s]
      by (fastforce split: prod.splits option.splits list.splits)
  qed
qed

lemma run_bounded:
  "fifo_run push pop s ops = (t, acc, del) \<Longrightarrow> length (items s) \<le> bound s \<Longrightarrow>
   length (items t) \<le> bound t \<and> bound t = bound s"
proof (induction ops arbitrary: s t acc del)
  case Nil
  then show ?case by simp
next
  case (Cons op ops)
  show ?case
  proof (cases op)
    case (Fifo_push a)
    have "length (items (fst (push s a))) \<le> bound (fst (push s a))"
      using push_cases[of s a] Cons.prems(2) by (auto simp: push_bound)
    then show ?thesis
      using Fifo_push Cons.prems Cons.IH[of "fst (push s a)"] push_bound[of s a]
      by (fastforce split: prod.splits)
  next
    case Fifo_pop
    have "length (items (fst (pop s))) \<le> bound (fst (pop s))"
      using Cons.prems(2) by (auto simp: pop_rest pop_bound)
    then show ?thesis
      using Fifo_pop Cons.prems Cons.IH[of "fst (pop s)"] pop_bound[of s]
      by (fastforce split: prod.splits)
  qed
qed

end

end
