(* ===== verification/Ring_Store.thy ===== *)
theory Ring_Store
  imports Prelude "HOL-Library.Multiset"
begin

text \<open>
  The circular array that both the resume ring (grpc/RingBuffer.cpp) and the
  latency samples (grpc/Counters.cpp) are built on: a fixed array, the next
  write position and a fill count that saturates at the capacity.  The locale
  \<open>ring_store\<close> names what a client's write does to the three; its lemmas show
  that the live cells, oldest first, are the last writes in order.
\<close>

section \<open>Abstraction\<close>

definition keep_last :: "nat \<Rightarrow> 'a list \<Rightarrow> 'a list" where
  "keep_last n xs = drop (length xs - n) xs"

definition ring_slot :: "nat \<Rightarrow> nat \<Rightarrow> nat \<Rightarrow> nat \<Rightarrow> nat" where
  "ring_slot cap head filled i = (head + cap - filled + i) mod cap"

definition ring_contents :: "nat \<Rightarrow> 'a list \<Rightarrow> nat \<Rightarrow> nat \<Rightarrow> 'a list" where
  "ring_contents cap cells head filled = map (\<lambda>i. cells ! ring_slot cap head filled i) [0..<filled]"

definition ring_ok :: "nat \<Rightarrow> 'a list \<Rightarrow> nat \<Rightarrow> nat \<Rightarrow> bool" where
  "ring_ok cap cells head filled \<longleftrightarrow> 0 < cap \<and> length cells = cap \<and> head < cap \<and>
     (filled < cap \<and> head = filled \<or> filled = cap)"

lemma keep_last_snoc:
  "keep_last n (keep_last n xs @ [x]) = keep_last n (xs @ [x])"
  unfolding keep_last_def by (cases "length xs \<le> n") (auto simp: Suc_diff_le)

lemma length_keep_last [simp]: "length (keep_last n xs) = min n (length xs)"
  by (simp add: keep_last_def)

lemma keep_last_Nil [simp]: "keep_last n [] = []"
  by (simp add: keep_last_def)

lemma length_ring_contents [simp]: "length (ring_contents cap cells head filled) = filled"
  by (simp add: ring_contents_def)

lemma mod_shift:
  fixes h c k :: nat
  shows "0 < c \<Longrightarrow> k \<le> c \<Longrightarrow> ((h mod c) + c - k + i) mod c = (h + c - k + i) mod c"
  by (metis Nat.add_diff_assoc add.assoc mod_add_left_eq)

lemma ring_contents_filling:
  assumes "ring_ok cap cells head filled" "filled < cap"
  shows "ring_contents cap cells head filled = take filled cells"
  using assms by (intro nth_equalityI) (auto simp: ring_contents_def ring_slot_def ring_ok_def)

lemma ring_contents_full:
  assumes "ring_ok cap cells head filled" "filled = cap"
  shows "ring_contents cap cells head filled = rotate head cells"
  using assms by (intro nth_equalityI)
    (auto simp: ring_contents_def ring_slot_def ring_ok_def nth_rotate add.commute)

lemma mset_rotate_eq: "mset (rotate n xs) = mset xs"
  unfolding rotate_drop_take by (metis append_take_drop_id mset_append union_commute)

lemma rotate_update:
  assumes "h < length cs"
  shows "rotate (Suc h) (cs[h := x]) = tl (rotate h cs) @ [x]"
proof (cases "Suc h < length cs")
  case True
  then have "drop h cs \<noteq> []" "tl (drop h cs) = drop (Suc h) cs"
    by (simp_all add: drop_Suc tl_drop)
  then show ?thesis
    using True assms
    by (simp add: rotate_drop_take drop_update_swap take_Suc_conv_app_nth del: rotate_Suc)
next
  case False
  then have n: "length cs = Suc h" using assms by simp
  then have "length (drop h cs) = 1" by simp
  then have "tl (drop h cs @ take h cs) = take h cs"
    by (cases "drop h cs") auto
  then show ?thesis
    using n by (simp add: rotate_drop_take upd_conv_take_nth_drop del: rotate_Suc)
qed

text \<open>As multisets, the live prefix of the array and the abstract contents agree.\<close>

lemma mset_ring_contents:
  assumes "ring_ok cap cells head filled"
  shows "mset (take filled cells) = mset (ring_contents cap cells head filled)"
proof (cases "filled < cap")
  case True
  then show ?thesis by (simp add: ring_contents_filling[OF assms])
next
  case False
  then have "filled = cap" "length cells = cap"
    using assms by (auto simp: ring_ok_def)
  then show ?thesis
    using ring_contents_full[OF assms] by (simp add: mset_rotate_eq)
qed

section \<open>Interface: writing to a circular array\<close>

locale ring_store =
  fixes cap :: "'s \<Rightarrow> nat"
    and cells :: "'s \<Rightarrow> 'a list"
    and head :: "'s \<Rightarrow> nat"
    and filled :: "'s \<Rightarrow> nat"
    and store :: "'s \<Rightarrow> 'a \<Rightarrow> 's"
  assumes store_cap: "cap (store s x) = cap s"
    and store_cells: "cells (store s x) = (cells s)[head s := x]"
    and store_head: "head (store s x) = (head s + 1) mod cap s"
    and store_filled: "filled (store s x) = (if filled s < cap s then filled s + 1 else filled s)"
begin

lemma store_ok:
  "ring_ok (cap s) (cells s) (head s) (filled s) \<Longrightarrow>
   ring_ok (cap (store s x)) (cells (store s x)) (head (store s x)) (filled (store s x))"
  by (auto simp: ring_ok_def store_cap store_cells store_head store_filled)

lemma store_filling:
  assumes ok: "ring_ok (cap s) (cells s) (head s) (filled s)" and nf: "filled s < cap s"
  shows "ring_contents (cap s) (cells (store s x)) (head (store s x)) (filled (store s x)) =
    ring_contents (cap s) (cells s) (head s) (filled s) @ [x]"
proof -
  have h: "head s = filled s" "length (cells s) = cap s"
    using ok nf by (auto simp: ring_ok_def)
  show ?thesis
  proof (cases "filled s + 1 < cap s")
    case True
    then show ?thesis
      using ring_contents_filling[OF store_ok[OF ok, of x]] ring_contents_filling[OF ok nf] nf h
      by (simp add: store_cap store_cells store_head store_filled take_Suc_conv_app_nth)
  next
    case False
    then have c: "cap s = Suc (filled s)" using nf by simp
    have "ring_contents (cap s) (cells (store s x)) (head (store s x)) (filled (store s x)) = cells (store s x)"
      using ring_contents_full[OF store_ok[OF ok, of x]] c h
      by (simp add: store_cap store_head store_filled)
    then show ?thesis
      using ring_contents_filling[OF ok nf] c h
      by (simp add: store_cells list_update_append1 take_Suc_conv_app_nth upd_conv_take_nth_drop)
  qed
qed

lemma store_full:
  assumes ok: "ring_ok (cap s) (cells s) (head s) (filled s)" and full: "filled s = cap s"
  shows "ring_contents (cap s) (cells (store s x)) (head (store s x)) (filled (store s x)) =
    tl (ring_contents (cap s) (cells s) (head s) (filled s)) @ [x]"
proof -
  have h: "head s < cap s" "length (cells s) = cap s"
    using ok by (auto simp: ring_ok_def)
  have "rotate (Suc (head s) mod cap s) ((cells s)[head s := x]) = tl (rotate (head s) (cells s)) @ [x]"
    using rotate_update[of "head s" "cells s" x] h
    by (metis length_list_update rotate_conv_mod)
  then show ?thesis
    using ring_contents_full[OF store_ok[OF ok, of x]] ring_contents_full[OF ok full] full
    by (simp add: store_cap store_cells store_head store_filled)
qed

text \<open>A store refines ``append and keep the newest''.\<close>

lemma store_refines:
  assumes ok: "ring_ok (cap s) (cells s) (head s) (filled s)"
  shows "ring_contents (cap (store s x)) (cells (store s x)) (head (store s x)) (filled (store s x)) =
    keep_last (cap s) (ring_contents (cap s) (cells s) (head s) (filled s) @ [x])"
proof (cases "filled s < cap s")
  case True
  then show ?thesis
    by (simp add: store_filling[OF ok True] store_cap keep_last_def)
next
  case False
  then have "filled s = cap s" "0 < cap s"
    using ok by (auto simp: ring_ok_def)
  then show ?thesis
    using drop_snoc_full[of "ring_contents (cap s) (cells s) (head s) (filled s)" "cap s" x]
    by (simp add: store_full[OF ok] store_cap keep_last_def)
qed

end

end
