(* ===== verification/Ring_Buffer.thy ===== *)
theory Ring_Buffer
  imports Ring_Store
begin

text \<open>
  The resume-history ring buffer (grpc/RingBuffer.h, grpc/RingBuffer.cpp).  The
  array, the write position and the fill count are modelled as the class has
  them; \<open>ring_list\<close> abstracts them to the list of live entries, oldest first.
  The lemmas show that a push refines ``append and keep the last N'' and that a
  resume request returns exactly the retained entries above the requested
  sequence number.
\<close>

section \<open>Model\<close>

record RingEntry =
  entry_seq :: u64
  entry_payload :: "string option"

record RingBuffer =
  rb_capacity :: nat
  rb_entries :: "RingEntry list"
  rb_head :: nat
  rb_filled :: nat
  rb_head_seq :: u64

definition RingBuffer_new :: "nat \<Rightarrow> RingBuffer outcome" where
  "RingBuffer_new capacity =
    (if capacity = 0 then Inl (Invalid_argument ''RingBuffer capacity must be > 0'')
     else Inr \<lparr> rb_capacity = capacity,
                rb_entries = replicate capacity \<lparr> entry_seq = 0, entry_payload = None \<rparr>,
                rb_head = 0, rb_filled = 0, rb_head_seq = 0 \<rparr>)"

text \<open>The unconditional part of \<open>Push\<close>: write, advance, saturate, record the head.\<close>

definition RingBuffer_store :: "RingBuffer \<Rightarrow> RingEntry \<Rightarrow> RingBuffer" where
  "RingBuffer_store rb e =
    rb \<lparr> rb_entries := (rb_entries rb)[rb_head rb := e],
         rb_head := (rb_head rb + 1) mod rb_capacity rb,
         rb_filled := (if rb_filled rb < rb_capacity rb then rb_filled rb + 1 else rb_filled rb),
         rb_head_seq := entry_seq e \<rparr>"

definition RingBuffer_Push :: "u64 \<Rightarrow> string \<Rightarrow> RingBuffer \<Rightarrow> RingBuffer outcome" where
  "RingBuffer_Push seq payload rb =
    (if rb_head_seq rb \<noteq> 0 \<and> seq \<le> rb_head_seq rb
     then Inl (Invalid_argument ''RingBuffer::Push: seq must be strictly increasing'')
     else Inr (RingBuffer_store rb \<lparr> entry_seq = seq, entry_payload = Some payload \<rparr>))"

text \<open>The copy loop of \<open>GetFromSeq\<close>: \<open>count\<close> entries backwards from \<open>idx\<close>.\<close>

primrec copy_back :: "RingBuffer \<Rightarrow> nat \<Rightarrow> nat \<Rightarrow> RingEntry list" where
  "copy_back rb 0 idx = []"
| "copy_back rb (Suc n) idx =
    rb_entries rb ! idx # copy_back rb n ((idx + rb_capacity rb - 1) mod rb_capacity rb)"

definition RingBuffer_GetFromSeq :: "u64 \<Rightarrow> RingBuffer \<Rightarrow> RingEntry list option" where
  "RingBuffer_GetFromSeq from_seq rb =
    (if rb_filled rb = 0 then None
     else let tail_seq = rb_head_seq rb - of_nat (rb_filled rb - 1) in
       if from_seq + 1 < tail_seq then None
       else if rb_head_seq rb < from_seq then None
       else if from_seq = rb_head_seq rb then Some []
       else let count = unat (rb_head_seq rb - from_seq);
                idx = (rb_head rb + rb_capacity rb - 1) mod rb_capacity rb
            in Some (rev (copy_back rb count idx)))"

definition RingBuffer_HeadSeq :: "RingBuffer \<Rightarrow> u64" where
  "RingBuffer_HeadSeq rb = rb_head_seq rb"

definition RingBuffer_Size :: "RingBuffer \<Rightarrow> nat" where
  "RingBuffer_Size rb = rb_filled rb"

text \<open>
  Pushing a list of payloads with consecutive sequence numbers, the way the
  engine thread does (\<open>FlushDelta\<close> increments its counter before each push).
\<close>

fun RingBuffer_PushAll :: "u64 \<Rightarrow> string list \<Rightarrow> RingBuffer \<Rightarrow> RingBuffer outcome" where
  "RingBuffer_PushAll seq [] rb = Inr rb"
| "RingBuffer_PushAll seq (p # ps) rb =
    (case RingBuffer_Push (seq + 1) p rb of
       Inl e \<Rightarrow> Inl e
     | Inr rb1 \<Rightarrow> RingBuffer_PushAll (seq + 1) ps rb1)"

section \<open>Invariant and abstraction\<close>

definition ring_wf :: "RingBuffer \<Rightarrow> bool" where
  "ring_wf rb \<longleftrightarrow> ring_ok (rb_capacity rb) (rb_entries rb) (rb_head rb) (rb_filled rb)"

definition ring_list :: "RingBuffer \<Rightarrow> RingEntry list" where
  "ring_list rb = ring_contents (rb_capacity rb) (rb_entries rb) (rb_head rb) (rb_filled rb)"

text \<open>Consecutive sequence numbers ending at the head.\<close>

definition ring_contig :: "RingBuffer \<Rightarrow> bool" where
  "ring_contig rb \<longleftrightarrow> rb_filled rb \<le> unat (rb_head_seq rb) \<and>
     map (unat \<circ> entry_seq) (ring_list rb) =
       [unat (rb_head_seq rb) + 1 - rb_filled rb ..< unat (rb_head_seq rb) + 1]"

interpretation ring: ring_store rb_capacity rb_entries rb_head rb_filled RingBuffer_store
  by unfold_locales (simp_all add: RingBuffer_store_def)

lemma length_ring_list [simp]: "length (ring_list rb) = rb_filled rb"
  by (simp add: ring_list_def)

lemma ring_wf_bounds:
  "ring_wf rb \<Longrightarrow> 0 < rb_capacity rb \<and> length (rb_entries rb) = rb_capacity rb \<and>
     rb_head rb < rb_capacity rb \<and> rb_filled rb \<le> rb_capacity rb"
  by (auto simp: ring_wf_def ring_ok_def)

lemma RingBuffer_new_wf [wf_intros]:
  "RingBuffer_new n = Inr rb \<Longrightarrow> ring_wf rb \<and> ring_contig rb \<and> ring_list rb = [] \<and>
     rb_capacity rb = n \<and> rb_head_seq rb = 0"
  by (auto simp: RingBuffer_new_def ring_wf_def ring_ok_def ring_contig_def ring_list_def
      ring_contents_def split: if_splits)

lemma RingBuffer_Push_wf [wf_intros]:
  "ring_wf rb \<Longrightarrow> RingBuffer_Push seq p rb = Inr rb' \<Longrightarrow>
     ring_wf rb' \<and> rb_capacity rb' = rb_capacity rb \<and> rb_head_seq rb' = seq"
  using ring.store_ok[of rb]
  by (auto simp: RingBuffer_Push_def ring_wf_def RingBuffer_store_def split: if_splits)

text \<open>Refinement: the array implementation computes the abstract log.\<close>

lemma RingBuffer_Push_refines:
  assumes "ring_wf rb" "RingBuffer_Push seq p rb = Inr rb'"
  shows "ring_list rb' =
    keep_last (rb_capacity rb) (ring_list rb @ [\<lparr> entry_seq = seq, entry_payload = Some p \<rparr>])"
  using assms ring.store_refines[of rb]
  by (auto simp: RingBuffer_Push_def ring_wf_def ring_list_def split: if_splits)

section \<open>Resume requests\<close>

lemma copy_back_eq:
  assumes "0 < rb_capacity rb"
  shows "k \<le> Suc m \<Longrightarrow>
    copy_back rb k (m mod rb_capacity rb) = map (\<lambda>i. rb_entries rb ! ((m - i) mod rb_capacity rb)) [0..<k]"
proof (induction k arbitrary: m)
  case 0
  then show ?case by simp
next
  case (Suc k)
  show ?case
  proof (cases m)
    case 0
    then show ?thesis using Suc.prems by simp
  next
    case (Suc m')
    have "(m mod rb_capacity rb + rb_capacity rb - 1) mod rb_capacity rb = m' mod rb_capacity rb"
      using mod_shift[OF assms, of 1 m 0] assms Suc by simp
    then show ?thesis
      using Suc.IH[of m'] Suc.prems Suc
      by (simp add: upt_conv_Cons map_Suc_upt[symmetric] comp_def del: upt_Suc)
  qed
qed

lemma copy_back_drop:
  assumes "ring_wf rb" "k \<le> rb_filled rb"
  shows "rev (copy_back rb k ((rb_head rb + rb_capacity rb - 1) mod rb_capacity rb)) =
    drop (rb_filled rb - k) (ring_list rb)"
proof -
  let ?slot = "ring_slot (rb_capacity rb) (rb_head rb) (rb_filled rb)"
  have "copy_back rb k ((rb_head rb + rb_capacity rb - 1) mod rb_capacity rb) =
      map (\<lambda>i. rb_entries rb ! ?slot (rb_filled rb - 1 - i)) [0..<k]"
    using ring_wf_bounds[OF assms(1)] assms(2) by (subst copy_back_eq)
      (auto simp: ring_slot_def intro!: arg_cong[where f="\<lambda>i. rb_entries rb ! (i mod _)"])
  then show ?thesis
    using rev_map_upt_drop[OF assms(2), of "\<lambda>i. rb_entries rb ! ?slot i"]
    by (simp add: ring_list_def ring_contents_def)
qed

lemma contig_nth:
  assumes "ring_contig rb" "i < rb_filled rb"
  shows "unat (entry_seq (ring_list rb ! i)) = unat (rb_head_seq rb) + 1 - rb_filled rb + i"
proof -
  have "map (unat \<circ> entry_seq) (ring_list rb) ! i =
      [unat (rb_head_seq rb) + 1 - rb_filled rb ..< unat (rb_head_seq rb) + 1] ! i"
    using assms(1) by (simp add: ring_contig_def)
  then show ?thesis
    using assms by (simp add: ring_contig_def del: upt_Suc)
qed

lemma contig_filter:
  assumes c: "ring_contig rb" and lo: "unat (rb_head_seq rb) \<le> unat from + rb_filled rb"
    and hi: "from \<le> rb_head_seq rb"
  shows "drop (rb_filled rb - unat (rb_head_seq rb - from)) (ring_list rb) =
    filter (\<lambda>e. from < entry_seq e) (ring_list rb)" (is "drop ?k ?l = filter ?P ?l")
proof -
  have le: "unat from \<le> unat (rb_head_seq rb)"
    using hi by (simp add: word_le_nat_alt)
  have k: "?k = unat from + rb_filled rb - unat (rb_head_seq rb)"
    using lo le by (simp add: unat_minus_le[OF hi])
  have "\<not> ?P (?l ! i)" if "i < ?k" for i
    using that c le lo contig_nth[OF c, of i] k by (simp add: word_less_nat_alt ring_contig_def)
  then have "filter ?P (take ?k ?l) = []"
    by (auto simp: filter_empty_conv in_set_conv_nth)
  moreover have "?P (?l ! (?k + i))" if "?k + i < rb_filled rb" for i
    using that c le lo contig_nth[OF c that] k by (simp add: word_less_nat_alt ring_contig_def)
  then have "filter ?P (drop ?k ?l) = drop ?k ?l"
    by (auto simp: filter_id_conv in_set_conv_nth)
  ultimately show ?thesis
    by (metis append_Nil append_take_drop_id filter_append)
qed

text \<open>
  With the head below the largest 64-bit value and no wrap in the tail
  computation, \<open>GetFromSeq\<close> is a suffix of the live entries exactly when the
  request is inside the retained window.
\<close>

lemma GetFromSeq_drop:
  assumes wf: "ring_wf rb" and h: "rb_filled rb \<le> unat (rb_head_seq rb)" and m: "rb_head_seq rb < - 1"
  shows "RingBuffer_GetFromSeq from rb =
    (if rb_filled rb = 0 \<or> rb_head_seq rb < from \<or> unat from + rb_filled rb < unat (rb_head_seq rb)
     then None
     else Some (drop (rb_filled rb - unat (rb_head_seq rb - from)) (ring_list rb)))"
proof (cases "rb_filled rb = 0 \<or> rb_head_seq rb < from")
  case True
  then show ?thesis by (auto simp: RingBuffer_GetFromSeq_def Let_def)
next
  case False
  then have le: "from \<le> rb_head_seq rb" and pos: "0 < rb_filled rb"
    by auto
  have small: "rb_filled rb < 2 ^ 64"
    using h unat_lt_2p[of "rb_head_seq rb"] by simp
  have "unat (of_nat (rb_filled rb - 1) :: u64) = rb_filled rb - 1"
    using small by (intro unat_of_nat_lt) simp
  moreover from this have "(of_nat (rb_filled rb - 1) :: u64) \<le> rb_head_seq rb"
    using h by (simp add: word_le_nat_alt)
  ultimately have tail: "unat (rb_head_seq rb - of_nat (rb_filled rb - 1)) = unat (rb_head_seq rb) - (rb_filled rb - 1)"
    by (simp add: unat_minus_le)
  have from1: "unat (from + 1) = Suc (unat from)"
    using le m by (intro unat_plus_one[of "from" "- 1"]) simp
  have old: "from + 1 < rb_head_seq rb - of_nat (rb_filled rb - 1) \<longleftrightarrow>
      unat from + rb_filled rb < unat (rb_head_seq rb)"
    unfolding word_less_nat_alt tail from1 using h pos by linarith
  have count: "unat (rb_head_seq rb - from) \<le> rb_filled rb"
    if "\<not> unat from + rb_filled rb < unat (rb_head_seq rb)"
    using that by (simp add: unat_minus_le[OF le])
  show ?thesis
    using False le pos copy_back_drop[OF wf count] old
    by (auto simp: RingBuffer_GetFromSeq_def Let_def)
qed

lemma GetFromSeq_contig:
  assumes "ring_wf rb" "ring_contig rb" "rb_head_seq rb < - 1"
  shows "RingBuffer_GetFromSeq from rb =
    (if rb_filled rb = 0 \<or> rb_head_seq rb < from \<or> unat from + rb_filled rb < unat (rb_head_seq rb)
     then None else Some (filter (\<lambda>e. from < entry_seq e) (ring_list rb)))"
  using GetFromSeq_drop[OF assms(1) _ assms(3), of "from"] contig_filter[OF assms(2), of "from"] assms(2)
  by (auto simp: ring_contig_def not_less)

lemma Push_contig:
  assumes wf: "ring_wf rb" and c: "ring_contig rb" and m: "rb_head_seq rb < - 1"
    and push: "RingBuffer_Push (rb_head_seq rb + 1) p rb = Inr rb'"
  shows "ring_contig rb'"
proof -
  let ?h = "unat (rb_head_seq rb)" and ?f = "rb_filled rb" and ?c = "rb_capacity rb"
  let ?e = "\<lparr> entry_seq = rb_head_seq rb + 1, entry_payload = Some p \<rparr>"
  have h1: "unat (rb_head_seq rb + 1) = Suc ?h"
    using m by (rule unat_plus_one)
  have h': "rb_head_seq rb' = rb_head_seq rb + 1"
    using RingBuffer_Push_wf[OF wf push] by simp
  have l: "ring_list rb' = keep_last ?c (ring_list rb @ [?e])"
    by (rule RingBuffer_Push_refines[OF wf push])
  then have f': "rb_filled rb' = min ?c (Suc ?f)"
    using length_ring_list[of rb'] by simp
  have fc: "?f \<le> ?c" "?f \<le> ?h" "0 < ?c"
    using ring_wf_bounds[OF wf] c by (auto simp: ring_contig_def)
  have "map (unat \<circ> entry_seq) (ring_list rb') =
      drop (Suc ?f - ?c) (map (unat \<circ> entry_seq) (ring_list rb @ [?e]))"
    by (simp add: l keep_last_def drop_map del: drop_append map_append)
  also have "map (unat \<circ> entry_seq) (ring_list rb @ [?e]) = [?h + 1 - ?f ..< ?h + 2]"
    using c fc by (simp add: ring_contig_def h1)
  also have "drop (Suc ?f - ?c) [?h + 1 - ?f ..< ?h + 2] = [Suc ?h + 1 - min ?c (Suc ?f) ..< Suc ?h + 1]"
    using fc by (auto simp: drop_upt min_def intro!: arg_cong[where f="\<lambda>i. [i..<_]"] simp del: upt_Suc)
  finally show ?thesis
    using fc by (auto simp: ring_contig_def h' h1 f' comp_def simp del: upt_Suc)
qed

lemma Push_next_ok:
  "rb_head_seq rb < - 1 \<Longrightarrow> \<exists>rb'. RingBuffer_Push (rb_head_seq rb + 1) p rb = Inr rb'"
  using unat_plus_one[of "rb_head_seq rb" "- 1"]
  by (simp add: RingBuffer_Push_def word_le_nat_alt)

section \<open>The ring as the engine thread fills it\<close>

definition numbered :: "string list \<Rightarrow> RingEntry list" where
  "numbered ps = map (\<lambda>i. \<lparr> entry_seq = of_nat (Suc i), entry_payload = Some (ps ! i) \<rparr>) [0..<length ps]"

lemma numbered_Nil [simp]: "numbered [] = []"
  by (simp add: numbered_def)

lemma numbered_snoc:
  "numbered (ps @ [p]) =
    numbered ps @ [\<lparr> entry_seq = of_nat (Suc (length ps)), entry_payload = Some p \<rparr>]"
  by (auto simp: numbered_def nth_append)

lemma length_numbered [simp]: "length (numbered ps) = length ps"
  by (simp add: numbered_def)

lemma PushAll_snoc:
  "RingBuffer_PushAll s (ps @ [p]) rb =
    (case RingBuffer_PushAll s ps rb of Inl e \<Rightarrow> Inl e
     | Inr rb1 \<Rightarrow> RingBuffer_Push (s + of_nat (length ps) + 1) p rb1)"
  by (induction ps arbitrary: s rb) (auto split: sum.splits simp: add_ac)

lemma PushAll_state:
  assumes "0 < N" "RingBuffer_new N = Inr rb0" "length ps < 2 ^ 64 - 1"
  shows "\<exists>rb. RingBuffer_PushAll 0 ps rb0 = Inr rb \<and> ring_wf rb \<and> ring_contig rb \<and>
    rb_capacity rb = N \<and> ring_list rb = keep_last N (numbered ps) \<and> unat (rb_head_seq rb) = length ps"
  using assms(3)
proof (induction ps rule: rev_induct)
  case Nil
  then show ?case
    using RingBuffer_new_wf[OF assms(2)] by (simp add: keep_last_def)
next
  case (snoc p ps)
  then obtain rb where rb: "RingBuffer_PushAll 0 ps rb0 = Inr rb" "ring_wf rb" "ring_contig rb"
    "rb_capacity rb = N" "ring_list rb = keep_last N (numbered ps)" "unat (rb_head_seq rb) = length ps"
    by auto
  have h: "rb_head_seq rb = of_nat (length ps)"
    using rb(6) by (rule word_eq_of_nat)
  have m: "rb_head_seq rb < - 1"
    using rb(6) snoc.prems by (simp add: word_less_nat_alt unat_max_word)
  obtain rb' where push: "RingBuffer_Push (rb_head_seq rb + 1) p rb = Inr rb'"
    using Push_next_ok[OF m] by blast
  have "ring_list rb' = keep_last N (numbered (ps @ [p]))"
    using RingBuffer_Push_refines[OF rb(2) push] rb(4,5) h
    by (simp add: numbered_snoc keep_last_snoc add.commute)
  moreover have "RingBuffer_PushAll 0 (ps @ [p]) rb0 = Inr rb'"
    using rb(1) push h by (simp add: PushAll_snoc)
  moreover have "unat (rb_head_seq rb') = length (ps @ [p])"
    using RingBuffer_Push_wf[OF rb(2) push] unat_plus_one[OF m] rb(6) by simp
  ultimately show ?case
    using RingBuffer_Push_wf[OF rb(2) push] Push_contig[OF rb(2,3) m push] rb(4) by auto
qed

text \<open>
  C12: Replay is exact.  Fill a fresh ring of capacity \<open>N > 0\<close> with payloads numbered
  1, 2, ... as the engine thread does.  No push fails, and a resume request for
  sequence number \<open>f\<close> is answered precisely when at most \<open>N\<close> newer entries exist and
  \<open>f\<close> is not ahead of the head; the answer is then every payload numbered above \<open>f\<close>,
  oldest first, without gap or repetition.  Every other request is refused, so
  that the client falls back to a fresh snapshot.
\<close>

theorem RingBuffer_replay_exact:
  assumes "0 < N" "RingBuffer_new N = Inr rb0" "ps \<noteq> []" "length ps < 2 ^ 64 - 1"
  shows "\<exists>rb. RingBuffer_PushAll 0 ps rb0 = Inr rb \<and> RingBuffer_HeadSeq rb = of_nat (length ps) \<and>
    RingBuffer_Size rb = min N (length ps) \<and>
    (\<forall>f. RingBuffer_GetFromSeq f rb =
      (if unat f \<le> length ps \<and> length ps \<le> unat f + N then Some (drop (unat f) (numbered ps)) else None))"
proof -
  obtain rb where rb: "RingBuffer_PushAll 0 ps rb0 = Inr rb" "ring_wf rb" "ring_contig rb"
    "rb_capacity rb = N" "ring_list rb = keep_last N (numbered ps)" "unat (rb_head_seq rb) = length ps"
    using PushAll_state[OF assms(1,2,4)] by blast
  have filled: "rb_filled rb = min N (length ps)"
    using rb(5) length_ring_list[of rb] by (simp add: keep_last_def)
  have m: "rb_head_seq rb < - 1"
    using rb(6) assms(4) by (simp add: word_less_nat_alt unat_max_word)
  have "RingBuffer_GetFromSeq f rb =
      (if unat f \<le> length ps \<and> length ps \<le> unat f + N then Some (drop (unat f) (numbered ps)) else None)" for f
  proof (cases "rb_head_seq rb < f")
    case True
    then show ?thesis
      using GetFromSeq_drop[OF rb(2) _ m, of f] filled rb(6) by (simp add: word_less_nat_alt)
  next
    case False
    then have le: "f \<le> rb_head_seq rb"
      by simp
    then have "unat (rb_head_seq rb - f) = length ps - unat f" "unat f \<le> length ps"
      using unat_minus_le[OF le] rb(6) by (simp_all add: word_le_nat_alt)
    then show ?thesis
      using GetFromSeq_drop[OF rb(2) _ m, of f] False filled rb(5,6) assms(1,3)
      by (auto simp: keep_last_def min_def)
  qed
  then show ?thesis
    using rb(1) filled word_eq_of_nat[OF rb(6)] by (auto simp: RingBuffer_HeadSeq_def RingBuffer_Size_def)
qed

theorem RingBuffer_replay_exact_witness:
  "\<exists>rb0 rb. RingBuffer_new 2 = Inr rb0 \<and>
    RingBuffer_PushAll 0 [''a'', ''b'', ''c''] rb0 = Inr rb \<and>
    RingBuffer_GetFromSeq 0 rb = None \<and>
    RingBuffer_GetFromSeq 1 rb = Some (drop 1 (numbered [''a'', ''b'', ''c'']))"
proof -
  obtain rb0 where new: "RingBuffer_new 2 = Inr rb0"
    by (simp add: RingBuffer_new_def)
  from RingBuffer_replay_exact[OF _ new, of "[''a'', ''b'', ''c'']"] new show ?thesis
    by auto
qed

text \<open>
  The sequence numbers must be consecutive, not merely increasing as the class
  comment asks: the tail is computed from the fill count.  A ring that received
  1, 2 and 5 answers a request for everything newer than 3 with the older entry
  2 as well, and refuses a request for everything newer than 1 although both
  newer entries are held.
\<close>

fun push_seqs :: "(u64 \<times> string) list \<Rightarrow> RingBuffer outcome \<Rightarrow> RingBuffer outcome" where
  "push_seqs [] r = r"
| "push_seqs ((n, p) # xs) (Inl e) = Inl e"
| "push_seqs ((n, p) # xs) (Inr rb) = push_seqs xs (RingBuffer_Push n p rb)"

lemma RingBuffer_gap_misreplay:
  "case push_seqs [(1, ''a''), (2, ''b''), (5, ''c'')] (RingBuffer_new 4) of
     Inl e \<Rightarrow> False
   | Inr rb \<Rightarrow> map_option (map entry_seq) (RingBuffer_GetFromSeq 3 rb) = Some [2, 5] \<and>
             RingBuffer_GetFromSeq 1 rb = None"
  by code_simp

end
