(* ===== verification/Counters.thy ===== *)
theory Counters
  imports Ring_Store
begin

text \<open>
  The runtime counters (grpc/Counters.h, grpc/Counters.cpp): the atomic gauges at
  their widths and the circular array of flush latencies.  The lemmas show that
  the reported percentile is an order statistic of the last 1024 samples.
\<close>

section \<open>Model\<close>

record Counters =
  subscriber_count :: u32
  cumulative_dropped_subscribers :: u64
  command_queue_depth :: u32
  submissions_rejected_resource_exhausted :: u64
  submissions_rejected_invalid_argument :: u64
  submissions_warning_only_would_reject :: u64
  command_dispatch_failures :: u64
  admin_actions_accepted :: u64
  admin_actions_rejected :: u64
  admin_audit_events :: u64
  frames_since_bind :: u32
  flush_samples :: "u64 list"
  flush_head :: nat
  flush_filled :: nat

definition kFlushBucketSize :: nat where
  "kFlushBucketSize = 1024"

definition Counters_new :: Counters where
  "Counters_new = \<lparr> subscriber_count = 0, cumulative_dropped_subscribers = 0, command_queue_depth = 0,
     submissions_rejected_resource_exhausted = 0, submissions_rejected_invalid_argument = 0,
     submissions_warning_only_would_reject = 0, command_dispatch_failures = 0,
     admin_actions_accepted = 0, admin_actions_rejected = 0, admin_audit_events = 0,
     frames_since_bind = 0, flush_samples = replicate kFlushBucketSize 0,
     flush_head = 0, flush_filled = 0 \<rparr>"

definition RecordFrameFlushUs :: "Counters \<Rightarrow> u64 \<Rightarrow> Counters" where
  "RecordFrameFlushUs c us =
    c \<lparr> flush_samples := (flush_samples c)[flush_head c := us],
        flush_head := (flush_head c + 1) mod kFlushBucketSize,
        flush_filled := (if flush_filled c < kFlushBucketSize then flush_filled c + 1 else flush_filled c) \<rparr>"

text \<open>
  The index \<open>size_t(0.99 * double(n - 1) + 0.5)\<close>.  The double computation and the
  rational one agree for every sample count the array can hold (1 to 1024).
\<close>

definition p99_index :: "nat \<Rightarrow> nat" where
  "p99_index n = (99 * (n - 1) + 50) div 100"

text \<open>\<open>std::nth_element\<close> leaves the k-th smallest element at position k.\<close>

definition FrameFlushP99Us :: "Counters \<Rightarrow> u64" where
  "FrameFlushP99Us c =
    (if flush_filled c = 0 then 0
     else let snap = take (flush_filled c) (flush_samples c) in
       sort snap ! p99_index (length snap))"

section \<open>The percentile\<close>

definition flush_wf :: "Counters \<Rightarrow> bool" where
  "flush_wf c \<longleftrightarrow> ring_ok kFlushBucketSize (flush_samples c) (flush_head c) (flush_filled c)"

definition flush_list :: "Counters \<Rightarrow> u64 list" where
  "flush_list c = ring_contents kFlushBucketSize (flush_samples c) (flush_head c) (flush_filled c)"

interpretation flush: ring_store "\<lambda>_. kFlushBucketSize" flush_samples flush_head flush_filled RecordFrameFlushUs
  by unfold_locales (simp_all add: RecordFrameFlushUs_def)

lemma Counters_new_wf [wf_intros]: "flush_wf Counters_new \<and> flush_list Counters_new = []"
  by (simp add: flush_wf_def flush_list_def ring_ok_def ring_contents_def Counters_new_def kFlushBucketSize_def)

lemma Record_wf [wf_intros]: "flush_wf c \<Longrightarrow> flush_wf (RecordFrameFlushUs c us)"
  using flush.store_ok[of c us] by (simp add: flush_wf_def)

lemma Record_refines:
  "flush_wf c \<Longrightarrow> flush_list (RecordFrameFlushUs c us) = keep_last kFlushBucketSize (flush_list c @ [us])"
  using flush.store_refines[of c us] by (simp add: flush_wf_def flush_list_def)

lemma fold_Record:
  "flush_wf (foldl RecordFrameFlushUs Counters_new us) \<and>
   flush_list (foldl RecordFrameFlushUs Counters_new us) = keep_last kFlushBucketSize us"
  by (induction us rule: rev_induct)
    (auto simp: Counters_new_wf Record_wf Record_refines keep_last_snoc)

lemma p99_index_less: "0 < n \<Longrightarrow> p99_index n < n"
  by (simp add: p99_index_def)

lemma P99_sort:
  "flush_wf c \<Longrightarrow> flush_list c \<noteq> [] \<Longrightarrow>
   FrameFlushP99Us c = sort (flush_list c) ! p99_index (length (flush_list c))"
proof -
  assume wf: "flush_wf c" and ne: "flush_list c \<noteq> []"
  have filled: "flush_filled c = length (flush_list c)"
    by (simp add: flush_list_def)
  have m: "mset (take (flush_filled c) (flush_samples c)) = mset (flush_list c)"
    using mset_ring_contents wf by (simp add: flush_list_def flush_wf_def)
  then have "sort (take (flush_filled c) (flush_samples c)) = sort (flush_list c)"
    by (metis properties_for_sort mset_sort sorted_sort)
  moreover have "length (take (flush_filled c) (flush_samples c)) = length (flush_list c)"
    using m mset_eq_length by blast
  ultimately show ?thesis
    using ne filled by (simp add: FrameFlushP99Us_def Let_def)
qed

lemma sort_nth_rank:
  fixes xs :: "'a::linorder list"
  assumes "k < length xs"
  shows "k < length (filter (\<lambda>x. x \<le> sort xs ! k) xs) \<and>
    length xs - k \<le> length (filter (\<lambda>x. sort xs ! k \<le> x) xs)"
proof -
  let ?s = "sort xs"
  have len: "length (filter P xs) = length (filter P ?s)" for P
    by (metis length_sort filter_sort)
  have "{0..k} \<subseteq> {i. i < length ?s \<and> ?s ! i \<le> ?s ! k}"
    using assms by (auto intro: sorted_nth_mono)
  then have "card {0..k} \<le> card {i. i < length ?s \<and> ?s ! i \<le> ?s ! k}"
    by (intro card_mono) auto
  moreover have "{k..<length xs} \<subseteq> {i. i < length ?s \<and> ?s ! k \<le> ?s ! i}"
    by (auto intro: sorted_nth_mono)
  then have "card {k..<length xs} \<le> card {i. i < length ?s \<and> ?s ! k \<le> ?s ! i}"
    by (intro card_mono) auto
  ultimately show ?thesis
    unfolding len by (simp add: length_filter_conv_card Suc_le_eq)
qed

text \<open>
  The reported 99th percentile is an order statistic of the retained window.
  After any non-empty sequence of recorded latencies, \<open>FrameFlushP99Us\<close> returns one
  of the last (at most) 1024 of them, at least \<open>k + 1\<close> of the window are no larger and
  at least \<open>n - k\<close> no smaller, where \<open>k\<close> is the rank the code computes; that rank
  leaves at least 99 percent of the window, less half a sample, at or below the result.
\<close>

theorem FrameFlushP99Us_rank:
  assumes "us \<noteq> []"
  defines "w \<equiv> keep_last kFlushBucketSize us"
    and "p \<equiv> FrameFlushP99Us (foldl RecordFrameFlushUs Counters_new us)"
  shows "p \<in> set w \<and>
    p99_index (length w) < length (filter (\<lambda>x. x \<le> p) w) \<and>
    length w - p99_index (length w) \<le> length (filter (\<lambda>x. p \<le> x) w) \<and>
    99 * length w \<le> 100 * length (filter (\<lambda>x. x \<le> p) w) + 49"
proof -
  have "0 < length w"
    using assms(1) by (simp add: w_def kFlushBucketSize_def)
  then have ne: "w \<noteq> []"
    by simp
  then have k: "p99_index (length w) < length w"
    by (simp add: p99_index_less)
  have p: "p = sort w ! p99_index (length w)"
    using P99_sort[of "foldl RecordFrameFlushUs Counters_new us"] fold_Record[of us] ne
    by (simp add: p_def w_def)
  have "p \<in> set w"
    using k p by (metis length_sort nth_mem set_sort)
  moreover have rank: "p99_index (length w) < length (filter (\<lambda>x. x \<le> p) w)"
    "length w - p99_index (length w) \<le> length (filter (\<lambda>x. p \<le> x) w)"
    using sort_nth_rank[OF k] p by auto
  moreover have "99 * length w \<le> 100 * Suc (p99_index (length w)) + 49"
    by (simp add: p99_index_def)
  ultimately show ?thesis
    by (meson Suc_leI add_le_mono1 le_trans mult_le_mono2)
qed

theorem FrameFlushP99Us_rank_witness:
  "FrameFlushP99Us (foldl RecordFrameFlushUs Counters_new [5, 7, 6]) \<in>
     set (keep_last kFlushBucketSize [5, 7, 6 :: u64])"
  using FrameFlushP99Us_rank[of "[5, 7, 6]"] by simp

end
