(* ===== verification/Subscriber_Slot.thy ===== *)
theory Subscriber_Slot
  imports Prelude
begin

text \<open>
  The per-subscriber queue (grpc/SubscriberSlot.h, grpc/SubscriberSlot.cpp).  First
  its operations as the mutex serialises them, then the same operations split at
  the points where another thread may run: the consumer between evaluating the
  wait predicate and blocking, the producer and the evictor between their update
  and their notification.  The lemmas show first-in first-out delivery within
  the capacity, that a backlog survives eviction, that a push never loses its
  wake-up, and that an eviction can.
\<close>

section \<open>Operations\<close>

datatype EvictionReason = kNone | kSlowConsumer | kCanceled | kFault

record SubscriberSlot =
  slot_capacity :: nat
  slot_queue :: "string list"
  slot_eviction :: EvictionReason
  slot_dropped :: u64
  slot_session_id :: string

definition kDefaultCapacity :: nat where
  "kDefaultCapacity = 8192"

definition SubscriberSlot_new :: "nat \<Rightarrow> SubscriberSlot" where
  "SubscriberSlot_new capacity = \<lparr> slot_capacity = capacity, slot_queue = [], slot_eviction = kNone,
     slot_dropped = 0, slot_session_id = [] \<rparr>"

definition SubscriberSlot_TryPush :: "SubscriberSlot \<Rightarrow> string \<Rightarrow> SubscriberSlot \<times> bool" where
  "SubscriberSlot_TryPush slot payload =
    (if slot_eviction slot \<noteq> kNone then (slot, False)
     else if slot_capacity slot \<le> length (slot_queue slot)
       then (slot \<lparr> slot_dropped := slot_dropped slot + 1 \<rparr>, False)
     else (slot \<lparr> slot_queue := slot_queue slot @ [payload] \<rparr>, True))"

text \<open>The predicate the consumer waits for.\<close>

definition pop_ready :: "SubscriberSlot \<Rightarrow> bool" where
  "pop_ready slot \<longleftrightarrow> slot_queue slot \<noteq> [] \<or> slot_eviction slot \<noteq> kNone"

text \<open>
  \<open>BlockingPop\<close> once the predicate holds: the payload, or none when the slot is
  evicted and drained.  While the predicate is false the call does not return.
\<close>

definition pop_ready_slot :: "SubscriberSlot \<Rightarrow> SubscriberSlot \<times> string option" where
  "pop_ready_slot slot =
    (case slot_queue slot of
       p # ps \<Rightarrow> (slot \<lparr> slot_queue := ps \<rparr>, Some p)
     | [] \<Rightarrow> (slot, None))"

definition SubscriberSlot_BlockingPop :: "SubscriberSlot \<Rightarrow> (SubscriberSlot \<times> string option) option" where
  "SubscriberSlot_BlockingPop slot = (if pop_ready slot then Some (pop_ready_slot slot) else None)"

definition SubscriberSlot_Evict :: "EvictionReason \<Rightarrow> SubscriberSlot \<Rightarrow> SubscriberSlot" where
  "SubscriberSlot_Evict reason slot =
    (if slot_eviction slot = kNone then slot \<lparr> slot_eviction := reason \<rparr> else slot)"

definition SubscriberSlot_QueueDepth :: "SubscriberSlot \<Rightarrow> nat" where
  "SubscriberSlot_QueueDepth slot = length (slot_queue slot)"

section \<open>Interleaved threads\<close>

text \<open>
  \<open>C_checking\<close> and \<open>C_about_to_block\<close> hold the mutex; entering \<open>C_blocked\<close> releases it.
  The producer's critical section is one step because the mutex is held
  throughout; its \<open>notify_one\<close>, and the evictor's \<open>notify_all\<close>, are separate steps.
\<close>

datatype consumer_pc = C_idle | C_want_lock | C_checking | C_about_to_block | C_blocked
  | C_returned "string option"

datatype notifier_pc = N_idle | N_notify

record slot_system =
  sys_slot :: SubscriberSlot
  sys_consumer :: consumer_pc
  sys_producer :: notifier_pc
  sys_evictor :: notifier_pc

definition mutex_free :: "slot_system \<Rightarrow> bool" where
  "mutex_free s \<longleftrightarrow> sys_consumer s \<noteq> C_checking \<and> sys_consumer s \<noteq> C_about_to_block"

definition wake :: "consumer_pc \<Rightarrow> consumer_pc" where
  "wake pc = (if pc = C_blocked then C_want_lock else pc)"

inductive slot_step :: "slot_system \<Rightarrow> slot_system \<Rightarrow> bool" where
  call_pop: "sys_consumer s = C_idle \<Longrightarrow> slot_step s (s \<lparr> sys_consumer := C_want_lock \<rparr>)"
| lock_pop: "sys_consumer s = C_want_lock \<Longrightarrow> slot_step s (s \<lparr> sys_consumer := C_checking \<rparr>)"
| check_true: "sys_consumer s = C_checking \<Longrightarrow> pop_ready (sys_slot s) \<Longrightarrow>
    pop_ready_slot (sys_slot s) = (slot', r) \<Longrightarrow>
    slot_step s (s \<lparr> sys_slot := slot', sys_consumer := C_returned r \<rparr>)"
| check_false: "sys_consumer s = C_checking \<Longrightarrow> \<not> pop_ready (sys_slot s) \<Longrightarrow>
    slot_step s (s \<lparr> sys_consumer := C_about_to_block \<rparr>)"
| block: "sys_consumer s = C_about_to_block \<Longrightarrow> slot_step s (s \<lparr> sys_consumer := C_blocked \<rparr>)"
| leave: "sys_consumer s = C_returned r \<Longrightarrow> slot_step s (s \<lparr> sys_consumer := C_idle \<rparr>)"
| push: "sys_producer s = N_idle \<Longrightarrow> mutex_free s \<Longrightarrow>
    SubscriberSlot_TryPush (sys_slot s) p = (slot', ok) \<Longrightarrow>
    slot_step s (s \<lparr> sys_slot := slot', sys_producer := (if ok then N_notify else N_idle) \<rparr>)"
| push_notify: "sys_producer s = N_notify \<Longrightarrow>
    slot_step s (s \<lparr> sys_producer := N_idle, sys_consumer := wake (sys_consumer s) \<rparr>)"
| evict: "sys_evictor s = N_idle \<Longrightarrow>
    slot_step s (s \<lparr> sys_slot := SubscriberSlot_Evict reason (sys_slot s),
      sys_evictor := (if slot_eviction (sys_slot s) = kNone then N_notify else N_idle) \<rparr>)"
| evict_notify: "sys_evictor s = N_notify \<Longrightarrow>
    slot_step s (s \<lparr> sys_evictor := N_idle, sys_consumer := wake (sys_consumer s) \<rparr>)"

inductive_cases slot_stepE: "slot_step s t"

definition slot_system_init :: "nat \<Rightarrow> slot_system \<Rightarrow> bool" where
  "slot_system_init cap s \<longleftrightarrow> s = \<lparr> sys_slot = SubscriberSlot_new cap, sys_consumer = C_idle,
     sys_producer = N_idle, sys_evictor = N_idle \<rparr>"

section \<open>First in, first out\<close>

definition slot_try_pop :: "SubscriberSlot \<Rightarrow> SubscriberSlot \<times> string option" where
  "slot_try_pop slot = (case SubscriberSlot_BlockingPop slot of None \<Rightarrow> (slot, None) | Some r \<Rightarrow> r)"

lemmas slot_op_defs = SubscriberSlot_TryPush_def SubscriberSlot_BlockingPop_def pop_ready_slot_def
  pop_ready_def SubscriberSlot_Evict_def slot_try_pop_def

interpretation slot_fifo: bounded_fifo slot_queue slot_capacity "\<lambda>s. slot_eviction s = kNone"
  SubscriberSlot_TryPush slot_try_pop
  by unfold_locales (auto simp: slot_op_defs split: list.splits)

text \<open>
  A subscriber slot delivers in order, without loss or duplication, and never
  holds more than its capacity.  For every sequence of pushes and pops on a fresh
  slot, the accepted payloads are the delivered ones followed by those still queued.
\<close>

theorem SubscriberSlot_fifo:
  "fifo_run SubscriberSlot_TryPush slot_try_pop (SubscriberSlot_new cap) ops = (t, accepted, delivered) \<Longrightarrow>
   accepted = delivered @ slot_queue t \<and> SubscriberSlot_QueueDepth t \<le> cap"
  using slot_fifo.run_conserves[of "SubscriberSlot_new cap" ops t accepted delivered]
    slot_fifo.run_bounded[of "SubscriberSlot_new cap" ops t accepted delivered]
  by (simp add: SubscriberSlot_new_def SubscriberSlot_QueueDepth_def)

theorem SubscriberSlot_fifo_witness:
  "\<exists>t. fifo_run SubscriberSlot_TryPush slot_try_pop (SubscriberSlot_new 1)
     [Fifo_push ''a'', Fifo_push ''b'', Fifo_pop, Fifo_push ''c''] = (t, [''a'', ''c''], [''a'']) \<and>
     [''a'', ''c''] = [''a''] @ slot_queue t"
proof -
  obtain t where t: "fifo_run SubscriberSlot_TryPush slot_try_pop (SubscriberSlot_new 1)
     [Fifo_push ''a'', Fifo_push ''b'', Fifo_pop, Fifo_push ''c''] = (t, [''a'', ''c''], [''a''])"
    by (simp add: slot_op_defs SubscriberSlot_new_def)
  from SubscriberSlot_fifo[OF t] t show ?thesis by simp
qed

section \<open>Eviction\<close>

text \<open>The results of \<open>n\<close> calls of \<open>BlockingPop\<close>; none if one of them does not return.\<close>

primrec pop_times :: "nat \<Rightarrow> SubscriberSlot \<Rightarrow> string option list option" where
  "pop_times 0 slot = Some []"
| "pop_times (Suc n) slot =
    (case SubscriberSlot_BlockingPop slot of
       None \<Rightarrow> None
     | Some (slot', r) \<Rightarrow> map_option ((#) r) (pop_times n slot'))"

lemma pop_times_evicted:
  "slot_eviction slot \<noteq> kNone \<Longrightarrow> pop_times (length (slot_queue slot) + n) slot =
     Some (map Some (slot_queue slot) @ replicate n None)"
proof (induction "slot_queue slot" arbitrary: slot)
  case Nil
  then show ?case
    by (induction n) (simp_all add: slot_op_defs)
next
  case (Cons p ps)
  then show ?case
    using Cons.hyps(1)[of "slot \<lparr> slot_queue := ps \<rparr>"]
    by (simp add: slot_op_defs flip: Cons.hyps(2))
qed

text \<open>
  Eviction closes the slot without discarding its backlog.  After \<open>Evict\<close> with a
  real reason no push is accepted any more, a second eviction changes nothing, and
  the consumer's calls all return: first the whole backlog in order, then the end of
  the stream every time.
\<close>

theorem SubscriberSlot_evict_drains:
  fixes slot :: SubscriberSlot
  assumes "reason \<noteq> kNone"
  defines "s \<equiv> SubscriberSlot_Evict reason slot"
  shows "SubscriberSlot_TryPush s p = (s, False) \<and> SubscriberSlot_Evict r s = s \<and>
    pop_times (length (slot_queue slot) + n) s = Some (map Some (slot_queue slot) @ replicate n None)"
proof -
  have e: "slot_eviction s \<noteq> kNone" and q: "slot_queue s = slot_queue slot"
    using assms(1) by (auto simp: s_def SubscriberSlot_Evict_def)
  show ?thesis
    using pop_times_evicted[OF e] e q by (simp add: SubscriberSlot_TryPush_def SubscriberSlot_Evict_def)
qed

theorem SubscriberSlot_evict_drains_witness:
  "pop_times 2 (SubscriberSlot_Evict kFault (SubscriberSlot_new 4 \<lparr> slot_queue := [''a''] \<rparr>)) =
     Some [Some ''a'', None]"
  using SubscriberSlot_evict_drains[of kFault "SubscriberSlot_new 4 \<lparr> slot_queue := [''a''] \<rparr>" "''b''" kFault 1]
  by (simp add: numeral_2_eq_2)

section \<open>Wake-ups\<close>

definition push_wakeup_inv :: "slot_system \<Rightarrow> bool" where
  "push_wakeup_inv s \<longleftrightarrow>
    (sys_consumer s \<in> {C_about_to_block, C_blocked} \<and> slot_queue (sys_slot s) \<noteq> [] \<longrightarrow>
       sys_consumer s = C_blocked \<and> sys_producer s = N_notify)"

lemma push_wakeup_init: "slot_system_init cap s \<Longrightarrow> push_wakeup_inv s"
  by (simp add: slot_system_init_def push_wakeup_inv_def)

lemma slot_step_push_wakeup [step_preserves]:
  assumes "slot_step s t" "push_wakeup_inv s"
  shows "push_wakeup_inv t"
  using assms
proof cases
  case (push p slot' ok)
  then show ?thesis
    using assms(2) by (auto simp: push_wakeup_inv_def SubscriberSlot_TryPush_def mutex_free_def split: if_splits)
qed (use assms(2) in \<open>auto simp: push_wakeup_inv_def wake_def pop_ready_def SubscriberSlot_Evict_def\<close>)

text \<open>
  C15: A push never loses its wake-up.  In every reachable interleaving of the
  consumer, the producer and the evictors, a consumer blocked while the queue holds
  a payload has a notification still to come from the producer; once the producer is
  idle again, the consumer is not blocked with a non-empty queue.
\<close>

theorem push_wakeup_not_lost:
  "reachable (slot_system_init cap) slot_step s \<Longrightarrow>
   sys_consumer s = C_blocked \<Longrightarrow> slot_queue (sys_slot s) \<noteq> [] \<Longrightarrow> sys_producer s = N_notify"
proof -
  assume r: "reachable (slot_system_init cap) slot_step s"
    and b: "sys_consumer s = C_blocked" "slot_queue (sys_slot s) \<noteq> []"
  have "push_wakeup_inv s"
    using r by (rule reachable_invariant) (blast intro: push_wakeup_init slot_step_push_wakeup)+
  with b show ?thesis by (simp add: push_wakeup_inv_def)
qed

definition evict_lost :: "slot_system \<Rightarrow> bool" where
  "evict_lost s \<longleftrightarrow> sys_consumer s = C_blocked \<and> slot_eviction (sys_slot s) \<noteq> kNone \<and>
     slot_queue (sys_slot s) = [] \<and> sys_producer s = N_idle \<and> sys_evictor s = N_idle"

lemma evict_lost_stuck [step_preserves]:
  assumes "slot_step s t" "evict_lost s"
  shows "t = s"
  using assms
proof cases
  case (push p slot' ok)
  then show ?thesis
    using assms(2) by (auto simp: evict_lost_def SubscriberSlot_TryPush_def)
qed (use assms(2) in \<open>auto simp: evict_lost_def SubscriberSlot_Evict_def\<close>)

text \<open>The run up to the consumer's false check, shared by the two concrete schedules.\<close>

abbreviation slot_config :: "SubscriberSlot \<Rightarrow> consumer_pc \<Rightarrow> notifier_pc \<Rightarrow> notifier_pc \<Rightarrow> slot_system" where
  "slot_config sl c p e \<equiv> \<lparr> sys_slot = sl, sys_consumer = c, sys_producer = p, sys_evictor = e \<rparr>"

lemma reachable_about_to_block:
  "reachable (slot_system_init cap) slot_step
     (slot_config (SubscriberSlot_new cap) C_about_to_block N_idle N_idle)"
proof -
  let ?c = "\<lambda>c. slot_config (SubscriberSlot_new cap) c N_idle N_idle"
  have "reachable (slot_system_init cap) slot_step (?c C_idle)"
    by (rule reach_init) (simp add: slot_system_init_def)
  then have "reachable (slot_system_init cap) slot_step (?c C_want_lock)"
    by (rule reach_step) (use call_pop[of "?c C_idle"] in simp)
  then have "reachable (slot_system_init cap) slot_step (?c C_checking)"
    by (rule reach_step) (use lock_pop[of "?c C_want_lock"] in simp)
  then show ?thesis
    by (rule reach_step)
      (use check_false[of "?c C_checking"] in \<open>simp add: pop_ready_def SubscriberSlot_new_def\<close>)
qed

theorem push_wakeup_not_lost_witness:
  "\<exists>s. reachable (slot_system_init 8) slot_step s \<and> sys_consumer s = C_blocked \<and>
     slot_queue (sys_slot s) = [''a''] \<and> sys_producer s = N_notify"
proof -
  let ?new = "SubscriberSlot_new 8"
  let ?s = "slot_config (?new \<lparr> slot_queue := [''a''] \<rparr>) C_blocked N_notify N_idle"
  have "reachable (slot_system_init 8) slot_step (slot_config ?new C_blocked N_idle N_idle)"
    using reachable_about_to_block[of 8]
    by (rule reach_step) (use block[of "slot_config ?new C_about_to_block N_idle N_idle"] in simp)
  then have "reachable (slot_system_init 8) slot_step ?s"
    by (rule reach_step) (use slot_step.push[of "slot_config ?new C_blocked N_idle N_idle" "''a''"] in
        \<open>simp add: mutex_free_def SubscriberSlot_TryPush_def SubscriberSlot_new_def\<close>)
  from push_wakeup_not_lost[OF this] this show ?thesis by force
qed

text \<open>
  C16: An eviction can lose its wake-up.  \<open>Evict\<close> updates the reason and notifies without
  taking the mutex, so it can run entirely between the consumer's false check and its
  blocking.  In a reachable state the slot is evicted, the evictor has finished, and
  the consumer stays blocked in every continuation: no step of any thread changes the
  state (a spurious wake-up apart, which the standard permits but does not promise).
\<close>

theorem evict_wakeup_lost:
  "\<exists>s. reachable (slot_system_init cap) slot_step s \<and> slot_eviction (sys_slot s) = kCanceled \<and>
     sys_consumer s = C_blocked \<and> (\<forall>t. reachable ((=) s) slot_step t \<longleftrightarrow> t = s)"
proof -
  let ?new = "SubscriberSlot_new cap" and ?R = "reachable (slot_system_init cap) slot_step"
  let ?ev = "SubscriberSlot_Evict kCanceled ?new"
  let ?s = "slot_config ?ev C_blocked N_idle N_idle"
  have "?R (slot_config ?ev C_about_to_block N_idle N_notify)"
    using reachable_about_to_block[of cap]
    by (rule reach_step) (use evict[of "slot_config ?new C_about_to_block N_idle N_idle" kCanceled] in
        \<open>simp add: SubscriberSlot_new_def\<close>)
  then have "?R (slot_config ?ev C_about_to_block N_idle N_idle)"
    by (rule reach_step) (use evict_notify[of "slot_config ?ev C_about_to_block N_idle N_notify"] in
        \<open>simp add: wake_def\<close>)
  then have "?R ?s"
    by (rule reach_step) (use block[of "slot_config ?ev C_about_to_block N_idle N_idle"] in simp)
  moreover have lost: "evict_lost ?s"
    by (simp add: evict_lost_def SubscriberSlot_Evict_def SubscriberSlot_new_def)
  have "t = ?s" if "reachable ((=) ?s) slot_step t" for t
    using that by (rule reachable_invariant) (use lost evict_lost_stuck in blast)+
  ultimately show ?thesis
    by (intro exI[of _ ?s]) (auto simp: SubscriberSlot_Evict_def SubscriberSlot_new_def intro: reach_init)
qed

end
