(* ===== verification/Delta_Bus.thy ===== *)
theory Delta_Bus
  imports Subscriber_Slot Counters
begin

text \<open>
  The single-producer fan-out (grpc/DeltaBus.h, grpc/DeltaBus.cpp).  Slots live in a
  heap indexed by address; the registry holds addresses, and locking a weak pointer is
  a heap lookup that fails once the last owner has dropped the slot.  The lemmas
  give the effect of a publication on every slot and show that the subscriber
  gauge counts the registered slots under every sequence of bus operations.
\<close>

section \<open>Model\<close>

record DeltaBus =
  bus_slots :: "nat list"
  bus_heap :: "nat \<Rightarrow> SubscriberSlot option"
  bus_next :: nat
  bus_counters :: "Counters option"

definition DeltaBus_new :: "Counters option \<Rightarrow> DeltaBus" where
  "DeltaBus_new counters = \<lparr> bus_slots = [], bus_heap = (\<lambda>_. None), bus_next = 0, bus_counters = counters \<rparr>"

definition count_dropped :: "Counters option \<Rightarrow> Counters option" where
  "count_dropped c = map_option (\<lambda>c. c \<lparr> cumulative_dropped_subscribers := cumulative_dropped_subscribers c + 1 \<rparr>) c"

definition add_subscribers :: "u32 \<Rightarrow> Counters option \<Rightarrow> Counters option" where
  "add_subscribers n c = map_option (\<lambda>c. c \<lparr> subscriber_count := subscriber_count c + n \<rparr>) c"

text \<open>The registry scan of \<open>Publish\<close>: the live slots, and the registry without expired entries.\<close>

fun collect_live :: "(nat \<Rightarrow> SubscriberSlot option) \<Rightarrow> nat list \<Rightarrow> nat list \<times> nat list" where
  "collect_live h [] = ([], [])"
| "collect_live h (a # as) =
    (case collect_live h as of (live, kept) \<Rightarrow>
      (case h a of
         Some sl \<Rightarrow> ((if slot_eviction sl = kNone then a # live else live), a # kept)
       | None \<Rightarrow> (live, kept)))"

text \<open>One iteration of the publishing loop, outside the registry mutex.\<close>

definition publish_to :: "string \<Rightarrow> DeltaBus \<Rightarrow> nat \<Rightarrow> DeltaBus" where
  "publish_to payload bus a =
    (case bus_heap bus a of
       None \<Rightarrow> bus
     | Some sl \<Rightarrow>
        (case SubscriberSlot_TryPush sl payload of (sl', ok) \<Rightarrow>
           if ok then bus \<lparr> bus_heap := (bus_heap bus)(a := Some sl') \<rparr>
           else bus \<lparr> bus_heap := (bus_heap bus)(a := Some (SubscriberSlot_Evict kSlowConsumer sl')),
                      bus_counters := count_dropped (bus_counters bus) \<rparr>))"

definition DeltaBus_Publish :: "string \<Rightarrow> DeltaBus \<Rightarrow> DeltaBus" where
  "DeltaBus_Publish payload bus =
    (case collect_live (bus_heap bus) (bus_slots bus) of (live, kept) \<Rightarrow>
       foldl (publish_to payload) (bus \<lparr> bus_slots := kept \<rparr>) live)"

definition DeltaBus_Subscribe :: "DeltaBus \<Rightarrow> DeltaBus \<times> nat" where
  "DeltaBus_Subscribe bus =
    (bus \<lparr> bus_slots := bus_slots bus @ [bus_next bus],
           bus_heap := (bus_heap bus)(bus_next bus := Some (SubscriberSlot_new kDefaultCapacity)),
           bus_next := bus_next bus + 1,
           bus_counters := add_subscribers 1 (bus_counters bus) \<rparr>, bus_next bus)"

definition evict_at :: "EvictionReason \<Rightarrow> DeltaBus \<Rightarrow> nat \<Rightarrow> DeltaBus" where
  "evict_at reason bus a =
    bus \<lparr> bus_heap := (bus_heap bus)(a := map_option (SubscriberSlot_Evict reason) (bus_heap bus a)) \<rparr>"

fun erase_slot :: "(nat \<Rightarrow> SubscriberSlot option) \<Rightarrow> nat \<Rightarrow> nat list \<Rightarrow> nat list \<times> bool" where
  "erase_slot h slot [] = ([], False)"
| "erase_slot h slot (a # as) =
    (case erase_slot h slot as of (kept, was_live) \<Rightarrow>
      (case h a of
         None \<Rightarrow> (kept, was_live)
       | Some sl \<Rightarrow> if a = slot then (kept, True) else (a # kept, was_live)))"

definition DeltaBus_Unsubscribe :: "nat option \<Rightarrow> DeltaBus \<Rightarrow> DeltaBus" where
  "DeltaBus_Unsubscribe slot bus =
    (case slot of
       None \<Rightarrow> bus
     | Some a \<Rightarrow>
        let bus1 = evict_at kCanceled bus a in
        (case erase_slot (bus_heap bus1) a (bus_slots bus1) of (kept, was_live) \<Rightarrow>
           bus1 \<lparr> bus_slots := kept,
                  bus_counters := (if was_live then add_subscribers (- 1) (bus_counters bus1)
                                   else bus_counters bus1) \<rparr>))"

definition DeltaBus_EvictAll :: "EvictionReason \<Rightarrow> DeltaBus \<Rightarrow> DeltaBus" where
  "DeltaBus_EvictAll reason bus =
    (let live = filter (\<lambda>a. bus_heap bus a \<noteq> None) (bus_slots bus);
         bus1 = foldl (evict_at reason) (bus \<lparr> bus_slots := [] \<rparr>) live
     in bus1 \<lparr> bus_counters := (if live = [] then bus_counters bus1
                                else add_subscribers (- of_nat (length live)) (bus_counters bus1)) \<rparr>)"

definition DeltaBus_SubscriberCount :: "DeltaBus \<Rightarrow> nat" where
  "DeltaBus_SubscriberCount bus =
    length (filter (\<lambda>a. case bus_heap bus a of Some sl \<Rightarrow> slot_eviction sl = kNone | None \<Rightarrow> False) (bus_slots bus))"

text \<open>The last owner drops its reference: weak pointers to the slot expire.\<close>

definition release_slot :: "nat \<Rightarrow> DeltaBus \<Rightarrow> DeltaBus" where
  "release_slot a bus = bus \<lparr> bus_heap := (bus_heap bus)(a := None) \<rparr>"

section \<open>Publication\<close>

definition bus_wf :: "DeltaBus \<Rightarrow> bool" where
  "bus_wf bus \<longleftrightarrow> distinct (bus_slots bus) \<and> (\<forall>a \<in> set (bus_slots bus). a < bus_next bus) \<and>
     (\<forall>a. bus_next bus \<le> a \<longrightarrow> bus_heap bus a = None)"

text \<open>What one publication does to one slot.\<close>

definition deliver :: "string \<Rightarrow> SubscriberSlot \<Rightarrow> SubscriberSlot" where
  "deliver payload sl =
    (if slot_eviction sl \<noteq> kNone then sl
     else if slot_capacity sl \<le> length (slot_queue sl)
       then sl \<lparr> slot_dropped := slot_dropped sl + 1, slot_eviction := kSlowConsumer \<rparr>
     else sl \<lparr> slot_queue := slot_queue sl @ [payload] \<rparr>)"

definition slot_live :: "SubscriberSlot option \<Rightarrow> bool" where
  "slot_live o1 \<longleftrightarrow> (case o1 of Some sl \<Rightarrow> slot_eviction sl = kNone | None \<Rightarrow> False)"

definition slot_overflows :: "SubscriberSlot option \<Rightarrow> bool" where
  "slot_overflows o1 \<longleftrightarrow> (case o1 of
     Some sl \<Rightarrow> slot_eviction sl = kNone \<and> slot_capacity sl \<le> length (slot_queue sl) | None \<Rightarrow> False)"

lemma collect_live_eq:
  "collect_live h as = (filter (\<lambda>a. slot_live (h a)) as, filter (\<lambda>a. h a \<noteq> None) as)"
  by (induction as) (auto simp: slot_live_def split: option.splits)

lemma erase_slot_eq:
  "erase_slot h slot as = (filter (\<lambda>a. h a \<noteq> None \<and> a \<noteq> slot) as, slot \<in> set as \<and> h slot \<noteq> None)"
  by (induction as) (auto split: option.splits)

lemma publish_to_eq:
  "bus_heap bus a = Some sl \<Longrightarrow> slot_eviction sl = kNone \<Longrightarrow>
   publish_to payload bus a = bus \<lparr> bus_heap := (bus_heap bus)(a := Some (deliver payload sl)),
     bus_counters := (if slot_overflows (Some sl) then count_dropped (bus_counters bus) else bus_counters bus) \<rparr>"
  by (auto simp: publish_to_def deliver_def SubscriberSlot_TryPush_def SubscriberSlot_Evict_def slot_overflows_def)

lemma foldl_publish_to:
  assumes "distinct live" "\<And>a. a \<in> set live \<Longrightarrow> slot_live (bus_heap bus a)"
  shows "foldl (publish_to payload) bus live =
    bus \<lparr> bus_heap := (\<lambda>a. if a \<in> set live then map_option (deliver payload) (bus_heap bus a) else bus_heap bus a),
          bus_counters := (count_dropped ^^ length (filter (\<lambda>a. slot_overflows (bus_heap bus a)) live)) (bus_counters bus) \<rparr>"
  using assms
proof (induction live arbitrary: bus)
  case Nil
  then show ?case by simp
next
  case (Cons a live)
  obtain sl where sl: "bus_heap bus a = Some sl" "slot_eviction sl = kNone"
    using Cons.prems(2)[of a] by (auto simp: slot_live_def split: option.splits)
  let ?bus = "publish_to payload bus a"
  have h: "bus_heap ?bus b = bus_heap bus b" if "b \<in> set live" for b
    using that Cons.prems(1) sl by (auto simp: publish_to_eq)
  then have f: "filter (\<lambda>b. slot_overflows (bus_heap ?bus b)) live = filter (\<lambda>b. slot_overflows (bus_heap bus b)) live"
    by (auto intro: filter_cong)
  have "\<And>b. b \<in> set live \<Longrightarrow> slot_live (bus_heap ?bus b)"
    using h Cons.prems(2) by simp
  with Cons.prems(1) have "foldl (publish_to payload) ?bus live = ?bus \<lparr> bus_heap := (\<lambda>b. if b \<in> set live
        then map_option (deliver payload) (bus_heap ?bus b) else bus_heap ?bus b),
      bus_counters := (count_dropped ^^ length (filter (\<lambda>b. slot_overflows (bus_heap ?bus b)) live)) (bus_counters ?bus) \<rparr>"
    by (intro Cons.IH) auto
  then show ?case
    using sl Cons.prems(1) unfolding foldl_Cons f
    by (auto simp: publish_to_eq fun_eq_iff funpow_swap1 slot_overflows_def)
qed

lemma Publish_eq:
  assumes "distinct (bus_slots bus)"
  shows "DeltaBus_Publish payload bus =
    bus \<lparr> bus_slots := filter (\<lambda>a. bus_heap bus a \<noteq> None) (bus_slots bus),
          bus_heap := (\<lambda>a. if a \<in> set (bus_slots bus) then map_option (deliver payload) (bus_heap bus a)
                           else bus_heap bus a),
          bus_counters := (count_dropped ^^ length (filter (\<lambda>a. slot_overflows (bus_heap bus a)) (bus_slots bus)))
                            (bus_counters bus) \<rparr>"
proof -
  have ov: "slot_live (bus_heap bus a) \<and> slot_overflows (bus_heap bus a) \<longleftrightarrow> slot_overflows (bus_heap bus a)" for a
    by (auto simp: slot_overflows_def slot_live_def split: option.splits)
  have h: "map_option (deliver payload) (bus_heap bus a) = bus_heap bus a" if "\<not> slot_live (bus_heap bus a)" for a
    using that by (auto simp: slot_live_def deliver_def split: option.splits)
  show ?thesis
    unfolding DeltaBus_Publish_def collect_live_eq prod.case
    using assms by (subst foldl_publish_to) (auto simp: ov h intro!: DeltaBus.equality)
qed

lemma count_dropped_pow:
  "(count_dropped ^^ n) (Some c) =
     Some (c \<lparr> cumulative_dropped_subscribers := cumulative_dropped_subscribers c + of_nat n \<rparr>)"
  by (induction n) (simp_all add: count_dropped_def add_ac)

text \<open>
  C17: A publication reaches every live subscriber exactly once and harms no other.
  For each registered slot that is not evicted, the payload is appended if there is
  room; if the slot is full, its queue is kept, the drop is counted in the slot and
  in the gateway's counters, and the slot is evicted as a slow consumer.  Evicted
  slots and slots outside the registry are unchanged, and the registry only loses
  expired entries.
\<close>

theorem DeltaBus_Publish_spec:
  assumes "bus_wf bus" "bus_counters bus = Some c"
  shows "bus_heap (DeltaBus_Publish payload bus) a =
      (if a \<in> set (bus_slots bus) then map_option (deliver payload) (bus_heap bus a) else bus_heap bus a) \<and>
    bus_slots (DeltaBus_Publish payload bus) = filter (\<lambda>a. bus_heap bus a \<noteq> None) (bus_slots bus) \<and>
    bus_counters (DeltaBus_Publish payload bus) = Some (c \<lparr> cumulative_dropped_subscribers :=
      cumulative_dropped_subscribers c +
        of_nat (length (filter (\<lambda>a. slot_overflows (bus_heap bus a)) (bus_slots bus))) \<rparr>)"
  using assms by (auto simp: bus_wf_def Publish_eq count_dropped_pow)

theorem DeltaBus_Publish_spec_witness:
  "slot_queue (the (bus_heap (DeltaBus_Publish ''a'' (fst (DeltaBus_Subscribe (DeltaBus_new (Some Counters_new))))) 0)) = [''a'']"
  using DeltaBus_Publish_spec[of "fst (DeltaBus_Subscribe (DeltaBus_new (Some Counters_new)))"
      "Counters_new \<lparr> subscriber_count := 1 \<rparr>" "''a''" 0]
  by (simp add: bus_wf_def DeltaBus_Subscribe_def DeltaBus_new_def add_subscribers_def deliver_def
      SubscriberSlot_new_def kDefaultCapacity_def Counters_new_def)

section \<open>The subscriber gauge\<close>

text \<open>
  The operations the service performs on the bus, in the order the registry mutex
  serialises them.  Closing a stream unsubscribes its slot and then drops it.
\<close>

datatype bus_op = Op_subscribe | Op_publish string | Op_close nat | Op_evict_all EvictionReason

fun bus_apply :: "DeltaBus \<Rightarrow> bus_op \<Rightarrow> DeltaBus" where
  "bus_apply bus Op_subscribe = fst (DeltaBus_Subscribe bus)"
| "bus_apply bus (Op_publish p) = DeltaBus_Publish p bus"
| "bus_apply bus (Op_close a) = release_slot a (DeltaBus_Unsubscribe (Some a) bus)"
| "bus_apply bus (Op_evict_all r) = DeltaBus_EvictAll r bus"

definition gauge_inv :: "DeltaBus \<Rightarrow> bool" where
  "gauge_inv bus \<longleftrightarrow> bus_wf bus \<and> (\<forall>a \<in> set (bus_slots bus). bus_heap bus a \<noteq> None) \<and>
     (case bus_counters bus of None \<Rightarrow> False | Some c \<Rightarrow> subscriber_count c = of_nat (length (bus_slots bus)))"

lemma foldl_evict_at:
  "foldl (evict_at r) bus as = bus \<lparr> bus_heap := (\<lambda>a. if a \<in> set as
      then map_option (SubscriberSlot_Evict r) (bus_heap bus a) else bus_heap bus a) \<rparr>"
proof (induction as arbitrary: bus)
  case Nil
  then show ?case by simp
next
  case (Cons a as)
  have "SubscriberSlot_Evict r (SubscriberSlot_Evict r sl) = SubscriberSlot_Evict r sl" for sl
    by (simp add: SubscriberSlot_Evict_def)
  then show ?case
    unfolding foldl_Cons Cons.IH by (auto simp: evict_at_def fun_eq_iff option.map_comp comp_def)
qed

lemma gauge_subscribe [step_preserves]:
  "gauge_inv bus \<Longrightarrow> gauge_inv (fst (DeltaBus_Subscribe bus))"
  by (auto simp: gauge_inv_def bus_wf_def DeltaBus_Subscribe_def add_subscribers_def add.commute
      split: option.splits)

lemma gauge_publish [step_preserves]:
  assumes "gauge_inv bus"
  shows "gauge_inv (DeltaBus_Publish p bus)"
proof -
  have "filter (\<lambda>a. bus_heap bus a \<noteq> None) (bus_slots bus) = bus_slots bus"
    using assms by (auto simp: gauge_inv_def filter_id_conv)
  moreover obtain c where "bus_counters bus = Some c"
    using assms by (auto simp: gauge_inv_def split: option.splits)
  ultimately show ?thesis
    using assms by (auto simp: gauge_inv_def bus_wf_def Publish_eq count_dropped_pow)
qed

lemma filter_neq_length:
  "distinct xs \<Longrightarrow> a \<in> set xs \<Longrightarrow> length xs = Suc (length (filter (\<lambda>x. x \<noteq> a) xs))"
  by (induction xs) (auto intro!: arg_cong[where f=length] sym[OF filter_True])

lemma Unsubscribe_eq:
  assumes "\<forall>b \<in> set (bus_slots bus). bus_heap bus b \<noteq> None"
  shows "DeltaBus_Unsubscribe (Some a) bus = (evict_at kCanceled bus a)
    \<lparr> bus_slots := filter (\<lambda>x. x \<noteq> a) (bus_slots bus),
      bus_counters := (if a \<in> set (bus_slots bus) then add_subscribers (- 1) (bus_counters bus)
                       else bus_counters bus) \<rparr>"
proof -
  have "filter (\<lambda>x. bus_heap (evict_at kCanceled bus a) x \<noteq> None \<and> x \<noteq> a) (bus_slots bus) =
      filter (\<lambda>x. x \<noteq> a) (bus_slots bus)"
    using assms by (intro filter_cong) (auto simp: evict_at_def)
  moreover have "a \<in> set (bus_slots bus) \<and> bus_heap (evict_at kCanceled bus a) a \<noteq> None \<longleftrightarrow>
      a \<in> set (bus_slots bus)"
    using assms by (auto simp: evict_at_def)
  moreover have "bus_slots (evict_at kCanceled bus a) = bus_slots bus"
    "bus_counters (evict_at kCanceled bus a) = bus_counters bus"
    by (simp_all add: evict_at_def)
  ultimately show ?thesis
    by (simp add: DeltaBus_Unsubscribe_def Let_def erase_slot_eq del: not_None_eq)
qed

lemma gauge_close [step_preserves]:
  assumes "gauge_inv bus"
  shows "gauge_inv (release_slot a (DeltaBus_Unsubscribe (Some a) bus))"
proof -
  obtain c where c: "bus_counters bus = Some c" "subscriber_count c = of_nat (length (bus_slots bus))"
    and wf: "bus_wf bus" and alive: "\<forall>a \<in> set (bus_slots bus). bus_heap bus a \<noteq> None"
    using assms by (auto simp: gauge_inv_def split: option.splits)
  let ?kept = "filter (\<lambda>x. x \<noteq> a) (bus_slots bus)"
  have "a \<notin> set (bus_slots bus) \<Longrightarrow> ?kept = bus_slots bus"
    by (auto simp: filter_id_conv)
  moreover have "a \<in> set (bus_slots bus) \<Longrightarrow> length (bus_slots bus) = Suc (length ?kept)"
    using wf by (intro filter_neq_length) (auto simp: bus_wf_def)
  ultimately show ?thesis
    using c wf alive
    by (cases "a \<in> set (bus_slots bus)")
      (auto simp: gauge_inv_def bus_wf_def release_slot_def Unsubscribe_eq evict_at_def
        add_subscribers_def)
qed

lemma gauge_evict_all [step_preserves]:
  assumes "gauge_inv bus"
  shows "gauge_inv (DeltaBus_EvictAll r bus)"
proof -
  have "filter (\<lambda>a. bus_heap bus a \<noteq> None) (bus_slots bus) = bus_slots bus"
    using assms by (auto simp: gauge_inv_def filter_id_conv)
  then show ?thesis
    using assms by (auto simp: gauge_inv_def bus_wf_def DeltaBus_EvictAll_def Let_def foldl_evict_at
        add_subscribers_def split: option.splits)
qed

text \<open>
  On its own, the bus keeps its gauge exact: after any sequence of subscriptions,
  publications, stream closings (including repeated ones) and mass evictions, the
  \<open>subscriber_count\<close> counter equals the number of registered slots, and every
  registered slot is still owned.
\<close>

theorem DeltaBus_gauge_exact:
  "gauge_inv (foldl bus_apply (DeltaBus_new (Some Counters_new)) ops)"
proof (induction ops rule: rev_induct)
  case Nil
  then show ?case
    by (simp add: gauge_inv_def bus_wf_def DeltaBus_new_def Counters_new_def)
next
  case (snoc op ops)
  then show ?case
    by (cases op) (auto intro: step_preserves)
qed

end
