(* ===== verification/Commands.thy ===== *)
theory Commands
  imports Prelude
begin

text \<open>
  The command messages (proto/highbar/commands.proto, common.proto) as the C++
  code sees them: one constructor per arm of the \<open>AICommand\<close> oneof, in the order of
  the field numbers of each group.  Signed 32-bit fields are integers, unsigned ones
  are words, and a missing sub-message reads as its default, as the generated
  accessors do.  Floats are dyadic numbers with infinities and not-a-number.
\<close>

section \<open>Floats\<close>

text \<open>\<open>Fin m e\<close> is \<open>m * 2 ^ e\<close>.\<close>

datatype proto_float = Fin int int | PosInf | NegInf | NaN

definition f_zero :: proto_float where
  "f_zero = Fin 0 0"

definition f_one :: proto_float where
  "f_one = Fin 1 0"

fun isfinite :: "proto_float \<Rightarrow> bool" where
  "isfinite (Fin m e) = True"
| "isfinite _ = False"

text \<open>Comparison of finite values after scaling to the smaller exponent; every comparison with NaN is false.\<close>

definition scaled :: "int \<Rightarrow> int \<Rightarrow> int \<Rightarrow> int" where
  "scaled m e k = m * 2 ^ nat (e - k)"

fun f_less :: "proto_float \<Rightarrow> proto_float \<Rightarrow> bool" where
  "f_less (Fin m1 e1) (Fin m2 e2) = (scaled m1 e1 (min e1 e2) < scaled m2 e2 (min e1 e2))"
| "f_less NegInf (Fin m e) = True"
| "f_less NegInf PosInf = True"
| "f_less (Fin m e) PosInf = True"
| "f_less _ _ = False"

fun f_le :: "proto_float \<Rightarrow> proto_float \<Rightarrow> bool" where
  "f_le (Fin m1 e1) (Fin m2 e2) = (scaled m1 e1 (min e1 e2) \<le> scaled m2 e2 (min e1 e2))"
| "f_le NegInf (Fin m e) = True"
| "f_le NegInf NegInf = True"
| "f_le NegInf PosInf = True"
| "f_le (Fin m e) PosInf = True"
| "f_le PosInf PosInf = True"
| "f_le _ _ = False"

text \<open>
  Rounding to the 24-bit significand, ties to even: the bits below position \<open>k\<close> of
  a non-negative integer are rounded away.
\<close>

definition round_bits :: "nat \<Rightarrow> nat \<Rightarrow> nat" where
  "round_bits k n =
    (let q = n div 2 ^ k; r = n mod 2 ^ k in
     if k = 0 then n
     else if r < 2 ^ (k - 1) then q
     else if r > 2 ^ (k - 1) then q + 1
     else if even q then q else q + 1)"

fun excess_bits :: "nat \<Rightarrow> nat" where
  "excess_bits n = (if n < 2 ^ 24 then 0 else Suc (excess_bits (n div 2)))"

declare excess_bits.simps [simp del]

definition round_float :: "int \<Rightarrow> int \<Rightarrow> proto_float" where
  "round_float m e =
    (let n = nat \<bar>m\<bar>; k = excess_bits n in Fin (sgn m * int (round_bits k n)) (e + int k))"

text \<open>\<open>static_cast<float>\<close> of a 32-bit integer.\<close>

definition float_of_int :: "int \<Rightarrow> proto_float" where
  "float_of_int n = round_float n 0"

lemma float_of_int_exact: "\<bar>n\<bar> < 2 ^ 24 \<Longrightarrow> float_of_int n = Fin n 0"
  by (auto simp: float_of_int_def round_float_def Let_def excess_bits.simps round_bits_def
      nat_less_iff sgn_mult_abs)

section \<open>Messages\<close>

record Vector3 =
  vx :: proto_float
  vy :: proto_float
  vz :: proto_float

text \<open>The four fields every unit command starts with.\<close>

record UnitHeader =
  uh_unit_id :: int
  uh_group_id :: int
  uh_options :: u32
  uh_timeout :: int

datatype (plugins only: code) AICommand =
    COMMAND_NOT_SET
  | Draw_add_point Vector3 string
  | Draw_add_line Vector3 Vector3
  | Draw_remove_point Vector3
  | Send_text_message string int
  | Set_last_pos_message Vector3
  | Send_resources int proto_float int
  | Set_my_income_share_direct int proto_float
  | Set_share_level int proto_float
  | Pause_team bool
  | Group_add_unit int int
  | Group_remove_unit int int
  | Init_path Vector3 Vector3 int proto_float
  | Get_approx_length Vector3 Vector3 int proto_float
  | Get_next_waypoint int
  | Free_path int
  | Give_me int proto_float
  | Give_me_new_unit int Vector3
  | Call_lua_rules string
  | Call_lua_ui string
  | Create_spline_figure Vector3 Vector3 Vector3 Vector3 proto_float bool int int
  | Create_line_figure Vector3 Vector3 proto_float bool int int
  | Set_figure_position int Vector3
  | Set_figure_color int proto_float proto_float proto_float proto_float
  | Remove_figure int
  | Draw_unit int Vector3 proto_float int int bool bool int
  | Build_unit UnitHeader int Vector3 int
  | Stop UnitHeader
  | Wait UnitHeader
  | Timed_wait UnitHeader int
  | Squad_wait UnitHeader int
  | Death_wait UnitHeader int
  | Gather_wait UnitHeader
  | Move_unit UnitHeader Vector3
  | Patrol UnitHeader Vector3
  | Fight UnitHeader Vector3
  | Attack UnitHeader int
  | Attack_area UnitHeader Vector3 proto_float
  | Guard UnitHeader int
  | Repair UnitHeader int
  | Reclaim_unit UnitHeader int
  | Reclaim_area UnitHeader Vector3 proto_float
  | Reclaim_in_area UnitHeader Vector3 proto_float
  | Reclaim_feature UnitHeader int
  | Restore_area UnitHeader Vector3 proto_float
  | Resurrect UnitHeader int
  | Resurrect_in_area UnitHeader Vector3 proto_float
  | Capture UnitHeader int
  | Capture_area UnitHeader Vector3 proto_float
  | Set_base UnitHeader Vector3
  | Self_destruct UnitHeader
  | Load_units UnitHeader "int list"
  | Load_units_area UnitHeader Vector3 proto_float
  | Load_onto UnitHeader int
  | Unload_unit UnitHeader Vector3 int
  | Unload_units_area UnitHeader Vector3 proto_float
  | Set_wanted_max_speed UnitHeader proto_float
  | Stockpile UnitHeader
  | Dgun UnitHeader int
  | Custom UnitHeader int "proto_float list"
  | Set_on_off UnitHeader bool
  | Set_repeat UnitHeader bool
  | Set_move_state UnitHeader int
  | Set_fire_state UnitHeader int
  | Set_trajectory UnitHeader int
  | Set_auto_repair_level UnitHeader int
  | Set_idle_mode UnitHeader int

end
