(* ===== verification/Capability_Provider.thy ===== *)
theory Capability_Provider
  imports Commands
begin

text \<open>
  The advertised command capabilities (grpc/CapabilityProvider.h,
  grpc/CapabilityProvider.cpp): the supported arms, their option mask and the two
  capability responses.
\<close>

section \<open>Model\<close>

datatype ValidationMode = VALIDATION_MODE_UNSPECIFIED | VALIDATION_MODE_COMPATIBILITY
  | VALIDATION_MODE_WARNING_ONLY | VALIDATION_MODE_STRICT

definition kQueuedCommandOptionMask :: u32 where
  "kQueuedCommandOptionMask = 7"

definition kSupportedUnitArms :: "string list" where
  "kSupportedUnitArms = [''move_unit'', ''patrol'', ''fight'', ''attack_area'', ''stop'', ''wait'',
     ''build_unit'', ''repair'', ''reclaim_unit'', ''reclaim_area'', ''resurrect_in_area'',
     ''self_destruct'', ''set_wanted_max_speed'', ''set_fire_state'', ''set_move_state'']"

definition AddFeatureFlags :: "string list \<Rightarrow> string list" where
  "AddFeatureFlags flags = flags @ [''protobuf_proxy_safety'', ''structured_command_diagnostics'',
     ''dry_run_validation'', ''command_capabilities'']"

definition IsSupportedCommandArm :: "string \<Rightarrow> bool" where
  "IsSupportedCommandArm arm \<longleftrightarrow> List.member kSupportedUnitArms arm"

definition ValidOptionMaskFor :: "string \<Rightarrow> u32" where
  "ValidOptionMaskFor arm = (if IsSupportedCommandArm arm then kQueuedCommandOptionMask else 0)"

record CapabilitySettings =
  cs_validation_mode :: ValidationMode
  cs_max_batch_commands :: u32

record CommandSchemaResponse =
  csr_schema_version :: string
  csr_feature_flags :: "string list"
  csr_supported_command_arms :: "string list"
  csr_option_masks :: "(string \<times> u32) list"
  csr_validation_mode :: ValidationMode
  csr_max_batch_commands :: u32
  csr_queue_depth :: u32
  csr_queue_capacity :: u32
  csr_min_x :: proto_float
  csr_min_z :: proto_float
  csr_max_x :: proto_float
  csr_max_z :: proto_float
  csr_resource_ids :: "string list"

definition kSchemaVersion :: string where
  "kSchemaVersion = ''1.0.0''"

text \<open>
  The queue is the pair of its depth and capacity when the provider has one; the map
  extents are the engine's global \<open>AIFloat3::maxxpos\<close> and \<open>maxzpos\<close>.
\<close>

definition CommandSchema ::
    "CapabilitySettings \<Rightarrow> (nat \<times> nat) option \<Rightarrow> proto_float \<Rightarrow> proto_float \<Rightarrow> CommandSchemaResponse" where
  "CommandSchema settings queue maxxpos maxzpos =
    \<lparr> csr_schema_version = kSchemaVersion,
      csr_feature_flags = AddFeatureFlags [],
      csr_supported_command_arms = kSupportedUnitArms,
      csr_option_masks = map (\<lambda>arm. (arm, kQueuedCommandOptionMask)) kSupportedUnitArms,
      csr_validation_mode = cs_validation_mode settings,
      csr_max_batch_commands = cs_max_batch_commands settings,
      csr_queue_depth = (case queue of None \<Rightarrow> 0 | Some (d, c) \<Rightarrow> of_nat d),
      csr_queue_capacity = (case queue of None \<Rightarrow> 0 | Some (d, c) \<Rightarrow> of_nat c),
      csr_min_x = f_zero, csr_min_z = f_zero,
      csr_max_x = (if f_less f_zero maxxpos then maxxpos else f_one),
      csr_max_z = (if f_less f_zero maxzpos then maxzpos else f_one),
      csr_resource_ids = [''metal'', ''energy''] \<rparr>"

record UnitGeneration =
  ug_unit_id :: u32
  ug_generation :: u64

record UnitCapabilitiesResponse =
  ucr_unit_id :: u32
  ucr_generation :: UnitGeneration
  ucr_feature_flags :: "string list"
  ucr_legal_command_arms :: "string list"
  ucr_queue_depth :: u32

definition UnitCapabilities ::
    "(nat \<times> nat) option \<Rightarrow> u32 \<Rightarrow> UnitGeneration \<Rightarrow> UnitCapabilitiesResponse" where
  "UnitCapabilities queue unit_id generation =
    \<lparr> ucr_unit_id = unit_id, ucr_generation = generation, ucr_feature_flags = AddFeatureFlags [],
      ucr_legal_command_arms = kSupportedUnitArms,
      ucr_queue_depth = (case queue of None \<Rightarrow> 0 | Some (d, c) \<Rightarrow> of_nat d) \<rparr>"

end
