(* ===== verification/Command_Batch.thy ===== *)
theory Command_Batch
  imports Capability_Provider
begin

text \<open>
  The batch message and the diagnostic messages of the command path
  (proto/highbar/commands.proto: CommandBatch, CommandIssue, CommandBatchResult).
\<close>

datatype CommandConflictPolicy = COMMAND_CONFLICT_POLICY_UNSPECIFIED | COMMAND_CONFLICT_REJECT_IF_BUSY
  | COMMAND_CONFLICT_QUEUE_AFTER_CURRENT | COMMAND_CONFLICT_REPLACE_CURRENT

datatype CommandBatchStatus = COMMAND_BATCH_STATUS_UNSPECIFIED | COMMAND_BATCH_ACCEPTED
  | COMMAND_BATCH_REJECTED_INVALID | COMMAND_BATCH_REJECTED_QUEUE_FULL | COMMAND_BATCH_REJECTED_STALE
  | COMMAND_BATCH_REJECTED_CONFLICT | COMMAND_BATCH_ACCEPTED_WITH_WARNINGS

datatype RetryHint = RETRY_HINT_UNSPECIFIED | RETRY_NEVER | RETRY_AFTER_NEXT_SNAPSHOT
  | RETRY_AFTER_UNIT_IDLE | RETRY_AFTER_QUEUE_DRAINS | RETRY_WITH_FRESH_CAPABILITIES

text \<open>The issue codes the gateway produces.\<close>

datatype CommandIssueCode = COMMAND_ISSUE_CODE_UNSPECIFIED | EMPTY_COMMAND | TOO_MANY_COMMANDS
  | MISSING_COMMAND_INTENT | MULTIPLE_COMMAND_INTENTS | MISSING_TARGET_UNIT | TARGET_DRIFT
  | TARGET_UNIT_NOT_OWNED | TARGET_UNIT_DEAD | UNKNOWN_UNIT_DEF | BUILDER_CANNOT_BUILD_DEF
  | POSITION_NON_FINITE | POSITION_OUT_OF_MAP | INVALID_OPTION_BITS | INVALID_ENUM_VALUE
  | INVALID_TARGET_UNIT | INVALID_TARGET_FEATURE | QUEUE_FULL | STALE_OR_DUPLICATE_BATCH_SEQ
  | STALE_SNAPSHOT_EPOCH | STALE_UNIT_GENERATION | ORDER_CONFLICT | NON_QUEUE_REPLACES_ACTIVE_ORDER
  | COMMAND_ARM_NOT_DISPATCHED | COMMAND_REQUIRES_ADMIN_CHANNEL | LEGACY_AI_ADMIN_COMMAND_DISABLED
  | MISSING_CLIENT_COMMAND_ID | MISSING_STATE_BASIS

record CommandBatch =
  cb_batch_seq :: u64
  cb_target_unit_id :: u32
  cb_commands :: "AICommand list"
  cb_batch_options :: "u32 option"
  cb_client_command_id :: "u64 option"
  cb_based_on_frame :: "u32 option"
  cb_based_on_state_seq :: "u64 option"
  cb_target_generation :: "UnitGeneration option"
  cb_conflict_policy :: CommandConflictPolicy

record CommandIssue =
  ci_code :: CommandIssueCode
  ci_command_index :: u32
  ci_field_path :: string
  ci_retry_hint :: RetryHint
  ci_batch_seq :: u64
  ci_client_command_id :: u64

text \<open>
  The structured result of one batch.  The free-text \<open>detail\<close> of an issue is not
  represented: it is derived from the other fields and read by no code.
\<close>

record BatchResult =
  br_batch_seq :: u64
  br_client_command_id :: u64
  br_status :: CommandBatchStatus
  br_issues :: "CommandIssue list"
  br_accepted_command_count :: u32
  br_queued_frame :: u32
  br_mode :: ValidationMode
  br_would_reject :: bool

text \<open>The default-initialised result message, and the conversion of a 32-bit field to its signed reading.\<close>

definition BatchResult_default :: BatchResult where
  "BatchResult_default = \<lparr> br_batch_seq = 0, br_client_command_id = 0,
     br_status = COMMAND_BATCH_STATUS_UNSPECIFIED, br_issues = [], br_accepted_command_count = 0,
     br_queued_frame = 0, br_mode = VALIDATION_MODE_UNSPECIFIED, br_would_reject = False \<rparr>"

definition to_int32 :: "u32 \<Rightarrow> int" where
  "to_int32 w = sint w"

definition client_id_or_zero :: "CommandBatch \<Rightarrow> u64" where
  "client_id_or_zero batch = (case cb_client_command_id batch of None \<Rightarrow> 0 | Some c \<Rightarrow> c)"

lemma to_int32_nonneg:
  assumes "w \<le> 0x7FFFFFFF"
  shows "to_int32 w = uint w"
proof -
  have "uint w < 2 ^ 31"
    using assms by (simp add: word_le_def)
  then show ?thesis
    using signed_take_bit_int_eq_self[of 31 "uint w"] order_trans[OF _ uint_ge_0[of w], of "- (2 ^ 31)"]
    by (simp add: to_int32_def sint_uint)
qed

end
