(* ===== verification/Command_Queue.thy ===== *)
theory Command_Queue
  imports Command_Batch Counters
begin

text \<open>
  The bounded multi-producer queue between the RPC workers and the engine thread
  (grpc/CommandQueue.h, grpc/CommandQueue.cpp), with the coordinator's batch
  admission.  The lemmas show first-in first-out transfer within the capacity,
  all-or-nothing batches, and that every queued child carries its batch's identity.
\<close>

section \<open>Model\<close>

record QueuedCommand =
  qc_session_id :: string
  qc_batch_seq :: u64
  qc_client_command_id :: u64
  qc_command_index :: u32
  qc_target_unit_id :: int
  qc_command :: AICommand

datatype AdmissionStatus = kAccepted | kInvalidEmpty | kInvalidOversized | kInvalidTarget
  | kInvalidBatchSequence | kInvalidCorrelation | kQueueFull

record CommandQueue =
  cq_counters :: "Counters option"
  cq_capacity :: nat
  cq_queue :: "QueuedCommand list"

definition CommandQueue_new :: "Counters option \<Rightarrow> nat \<Rightarrow> CommandQueue" where
  "CommandQueue_new counters capacity = \<lparr> cq_counters = counters, cq_capacity = capacity, cq_queue = [] \<rparr>"

text \<open>Storing the depth gauge, as every mutation of the queue does.\<close>

definition store_depth :: "CommandQueue \<Rightarrow> CommandQueue" where
  "store_depth q = q \<lparr> cq_counters :=
     map_option (\<lambda>c. c \<lparr> command_queue_depth := of_nat (length (cq_queue q)) \<rparr>) (cq_counters q) \<rparr>"

definition CommandQueue_TryPush :: "CommandQueue \<Rightarrow> QueuedCommand \<Rightarrow> CommandQueue \<times> bool" where
  "CommandQueue_TryPush q cmd =
    (if cq_capacity q \<le> length (cq_queue q) then (q, False)
     else (store_depth (q \<lparr> cq_queue := cq_queue q @ [cmd] \<rparr>), True))"

text \<open>The difference of the two sizes cannot wrap: \<open>cq_bounded\<close> below is invariant.\<close>

definition CommandQueue_TryPushBatch :: "QueuedCommand list \<Rightarrow> CommandQueue \<Rightarrow> CommandQueue \<times> bool" where
  "CommandQueue_TryPushBatch cmds q =
    (if length cmds > cq_capacity q - length (cq_queue q) then (q, False)
     else (store_depth (q \<lparr> cq_queue := cq_queue q @ cmds \<rparr>), True))"

definition CommandQueue_Drain ::
    "QueuedCommand list option \<Rightarrow> nat \<Rightarrow> CommandQueue \<Rightarrow> CommandQueue \<times> QueuedCommand list option \<times> nat" where
  "CommandQueue_Drain out max_count q =
    (case out of
       None \<Rightarrow> (q, None, 0)
     | Some acc \<Rightarrow>
        let budget = (if max_count = 0 then length (cq_queue q) else min max_count (length (cq_queue q)))
        in (store_depth (q \<lparr> cq_queue := drop budget (cq_queue q) \<rparr>),
            Some (acc @ take budget (cq_queue q)), budget))"

definition CommandQueue_Depth :: "CommandQueue \<Rightarrow> nat" where
  "CommandQueue_Depth q = length (cq_queue q)"

definition CommandQueue_AvailableCapacity :: "CommandQueue \<Rightarrow> nat" where
  "CommandQueue_AvailableCapacity q = cq_capacity q - length (cq_queue q)"

definition kMaxCoordinatorBatchCommands :: nat where
  "kMaxCoordinatorBatchCommands = 64"

definition batch_child :: "CommandBatch \<Rightarrow> string \<Rightarrow> nat \<Rightarrow> QueuedCommand" where
  "batch_child batch session_id i =
    \<lparr> qc_session_id = session_id, qc_batch_seq = cb_batch_seq batch,
      qc_client_command_id = client_id_or_zero batch, qc_command_index = of_nat i,
      qc_target_unit_id = to_int32 (cb_target_unit_id batch), qc_command = cb_commands batch ! i \<rparr>"

definition batch_children :: "CommandBatch \<Rightarrow> string \<Rightarrow> QueuedCommand list" where
  "batch_children batch session_id = map (batch_child batch session_id) [0..<length (cb_commands batch)]"

definition AdmitCommandBatch ::
    "CommandBatch \<Rightarrow> string \<Rightarrow> CommandQueue \<Rightarrow> CommandQueue \<times> AdmissionStatus \<times> nat" where
  "AdmitCommandBatch batch session_id q =
    (let n = length (cb_commands batch) in
     if n = 0 then (q, kInvalidEmpty, 0)
     else if n > kMaxCoordinatorBatchCommands then (q, kInvalidOversized, 0)
     else if cb_target_unit_id batch > 0x7FFFFFFF then (q, kInvalidTarget, 0)
     else if cb_batch_seq batch = 0 then (q, kInvalidBatchSequence, 0)
     else if cb_client_command_id batch = None \<or> client_id_or_zero batch = 0 then (q, kInvalidCorrelation, 0)
     else case CommandQueue_TryPushBatch (batch_children batch session_id) q of
       (q', ok) \<Rightarrow> if ok then (q', kAccepted, n) else (q', kQueueFull, 0))"

section \<open>Conservation\<close>

definition cq_bounded :: "CommandQueue \<Rightarrow> bool" where
  "cq_bounded q \<longleftrightarrow> length (cq_queue q) \<le> cq_capacity q \<and>
     (\<forall>c. cq_counters q = Some c \<longrightarrow> command_queue_depth c = of_nat (length (cq_queue q)))"

text \<open>The operations of the RPC workers, the coordinator reader and the engine thread.\<close>

datatype queue_op = Q_push QueuedCommand | Q_push_batch "QueuedCommand list"
  | Q_admit CommandBatch string | Q_drain nat

fun queue_apply :: "CommandQueue \<Rightarrow> queue_op \<Rightarrow> CommandQueue \<times> QueuedCommand list \<times> QueuedCommand list" where
  "queue_apply q (Q_push cmd) =
    (case CommandQueue_TryPush q cmd of (q', ok) \<Rightarrow> (q', (if ok then [cmd] else []), []))"
| "queue_apply q (Q_push_batch cmds) =
    (case CommandQueue_TryPushBatch cmds q of (q', ok) \<Rightarrow> (q', (if ok then cmds else []), []))"
| "queue_apply q (Q_admit batch sid) =
    (case AdmitCommandBatch batch sid q of (q', st, n) \<Rightarrow>
       (q', (if st = kAccepted then batch_children batch sid else []), []))"
| "queue_apply q (Q_drain m) =
    (case CommandQueue_Drain (Some []) m q of (q', out, n) \<Rightarrow> (q', [], the out))"

fun queue_run :: "CommandQueue \<Rightarrow> queue_op list \<Rightarrow> CommandQueue \<times> QueuedCommand list \<times> QueuedCommand list" where
  "queue_run q [] = (q, [], [])"
| "queue_run q (op # ops) =
    (case queue_apply q op of (q1, a1, d1) \<Rightarrow>
      case queue_run q1 ops of (q2, a2, d2) \<Rightarrow> (q2, a1 @ a2, d1 @ d2))"

lemmas queue_op_defs = CommandQueue_TryPush_def CommandQueue_TryPushBatch_def CommandQueue_Drain_def
  store_depth_def

lemma drop_min_one: "drop (min (Suc 0) (length xs)) xs = tl xs"
  by (cases xs) simp_all

interpretation cmd_fifo: bounded_fifo cq_queue cq_capacity "\<lambda>_. True" CommandQueue_TryPush
  "\<lambda>q. case CommandQueue_Drain (Some []) 1 q of (q', out, n) \<Rightarrow>
     (q', case the out of [] \<Rightarrow> None | x # xs \<Rightarrow> Some x)"
  by unfold_locales (auto simp: queue_op_defs Let_def drop_min_one split: list.splits)

lemma AdmitCommandBatch_cases:
  "AdmitCommandBatch batch sid q = (q', st, n) \<Longrightarrow>
   (st = kAccepted \<and> CommandQueue_TryPushBatch (batch_children batch sid) q = (q', True) \<and>
      n = length (cb_commands batch)) \<or> (st \<noteq> kAccepted \<and> q' = q \<and> n = 0)"
  by (auto simp: AdmitCommandBatch_def CommandQueue_TryPushBatch_def Let_def split: if_splits prod.splits)

lemma queue_apply_conserves:
  assumes "queue_apply q op = (q', acc, del)" "cq_bounded q"
  shows "cq_queue q @ acc = del @ cq_queue q' \<and> cq_bounded q' \<and> cq_capacity q' = cq_capacity q \<and>
     (cq_counters q' = None \<longleftrightarrow> cq_counters q = None)"
proof (cases op)
  case (Q_admit batch sid)
  then show ?thesis
    using assms AdmitCommandBatch_cases[of batch sid q]
    by (auto simp: queue_op_defs cq_bounded_def split: prod.splits if_splits)
qed (use assms in \<open>auto simp: queue_op_defs cq_bounded_def Let_def split: if_splits prod.splits\<close>)

lemma queue_run_conserves:
  "queue_run q ops = (q', acc, del) \<Longrightarrow> cq_bounded q \<Longrightarrow>
   cq_queue q @ acc = del @ cq_queue q' \<and> cq_bounded q' \<and> cq_capacity q' = cq_capacity q \<and>
     (cq_counters q' = None \<longleftrightarrow> cq_counters q = None)"
proof (induction ops arbitrary: q q' acc del)
  case Nil
  then show ?case by simp
next
  case (Cons op ops)
  obtain q1 a1 d1 where one: "queue_apply q op = (q1, a1, d1)" by (cases "queue_apply q op")
  obtain q2 a2 d2 where rest: "queue_run q1 ops = (q2, a2, d2)" by (cases "queue_run q1 ops")
  have h: "cq_queue q @ a1 = d1 @ cq_queue q1" "cq_bounded q1" "cq_capacity q1 = cq_capacity q"
    "cq_counters q1 = None \<longleftrightarrow> cq_counters q = None"
    using queue_apply_conserves[OF one Cons.prems(2)] by auto
  have "cq_queue q @ a1 @ a2 = d1 @ d2 @ cq_queue q2"
    using Cons.IH[OF rest h(2)] h(1) by (metis append_assoc)
  then show ?case
    using Cons.IH[OF rest h(2)] h Cons.prems(1) one rest by auto
qed

text \<open>
  C14: No command is lost, duplicated or reordered between the RPC workers and the
  engine thread.  For every interleaving of single pushes, batch pushes, coordinator
  admissions and drains on a fresh queue, the accepted commands are exactly the
  drained ones followed by those still queued; the queue never exceeds its capacity
  and the depth gauge always shows its length.
\<close>

theorem CommandQueue_conserves:
  assumes "queue_run (CommandQueue_new (Some Counters_new) cap) ops = (q, accepted, drained)"
  shows "accepted = drained @ cq_queue q \<and> CommandQueue_Depth q \<le> cap \<and>
    CommandQueue_AvailableCapacity q = cap - CommandQueue_Depth q \<and>
    (\<exists>c. cq_counters q = Some c \<and> command_queue_depth c = of_nat (CommandQueue_Depth q))"
  using queue_run_conserves[OF assms]
  by (auto simp: CommandQueue_new_def cq_bounded_def CommandQueue_Depth_def
      CommandQueue_AvailableCapacity_def Counters_new_def)

definition sample_batch :: CommandBatch where
  "sample_batch = \<lparr> cb_batch_seq = 1, cb_target_unit_id = 7,
     cb_commands = [Stop \<lparr> uh_unit_id = 7, uh_group_id = 0, uh_options = 0, uh_timeout = 0 \<rparr>],
     cb_batch_options = None, cb_client_command_id = Some 5, cb_based_on_frame = None,
     cb_based_on_state_seq = None, cb_target_generation = None,
     cb_conflict_policy = COMMAND_CONFLICT_POLICY_UNSPECIFIED \<rparr>"

theorem CommandQueue_conserves_witness:
  "\<exists>q. queue_run (CommandQueue_new (Some Counters_new) 1)
     [Q_admit sample_batch ''s'', Q_admit sample_batch ''t'', Q_drain 0] =
       (q, batch_children sample_batch ''s'', batch_children sample_batch ''s'') \<and>
     CommandQueue_Depth q \<le> 1"
proof -
  obtain q where q: "queue_run (CommandQueue_new (Some Counters_new) 1)
     [Q_admit sample_batch ''s'', Q_admit sample_batch ''t'', Q_drain 0] =
       (q, batch_children sample_batch ''s'', batch_children sample_batch ''s'')"
    by (simp add: CommandQueue_new_def AdmitCommandBatch_def sample_batch_def queue_op_defs
        batch_children_def kMaxCoordinatorBatchCommands_def client_id_or_zero_def Let_def)
  from CommandQueue_conserves[OF q] q show ?thesis by simp
qed

text \<open>
  Coordinator admission is all or nothing and keeps provenance.  A batch is
  accepted exactly when it has 1 to 64 commands, a target that fits a signed 32-bit
  unit id, a non-zero sequence number, a non-zero client id and room for all its
  commands.  Then its children are appended in order, child \<open>i\<close> carrying the session,
  sequence number, client id and target of the batch, its index \<open>i\<close> and the \<open>i\<close>-th command.
  In every other case the queue is unchanged and the count is zero.
\<close>

theorem AdmitCommandBatch_spec:
  assumes "AdmitCommandBatch batch sid q = (q', st, n)" "cq_bounded q"
  shows "(st = kAccepted \<longleftrightarrow> 1 \<le> length (cb_commands batch) \<and> length (cb_commands batch) \<le> 64 \<and>
      cb_target_unit_id batch \<le> 0x7FFFFFFF \<and> cb_batch_seq batch \<noteq> 0 \<and>
      (\<exists>c. cb_client_command_id batch = Some c \<and> c \<noteq> 0) \<and>
      length (cq_queue q) + length (cb_commands batch) \<le> cq_capacity q) \<and>
    (if st = kAccepted
     then n = length (cb_commands batch) \<and>
       cq_queue q' = cq_queue q @ map (\<lambda>i. \<lparr> qc_session_id = sid, qc_batch_seq = cb_batch_seq batch,
         qc_client_command_id = the (cb_client_command_id batch), qc_command_index = of_nat i,
         qc_target_unit_id = uint (cb_target_unit_id batch), qc_command = cb_commands batch ! i \<rparr>) [0..<n]
     else q' = q \<and> n = 0)"
proof -
  have fit: "length (batch_children batch sid) \<le> cq_capacity q - length (cq_queue q) \<longleftrightarrow>
      length (cq_queue q) + length (cb_commands batch) \<le> cq_capacity q"
    using assms(2) by (auto simp: batch_children_def cq_bounded_def)
  show ?thesis
    using assms(1) fit
    by (auto simp: AdmitCommandBatch_def CommandQueue_TryPushBatch_def store_depth_def Let_def
        kMaxCoordinatorBatchCommands_def client_id_or_zero_def batch_children_def batch_child_def
        to_int32_nonneg Suc_le_eq split: if_splits option.splits)
qed

theorem AdmitCommandBatch_spec_witness:
  "\<exists>q'. AdmitCommandBatch sample_batch ''s'' (CommandQueue_new None 4) = (q', kAccepted, 1) \<and>
     map qc_target_unit_id (cq_queue q') = [7]"
proof -
  obtain q' where q': "AdmitCommandBatch sample_batch ''s'' (CommandQueue_new None 4) = (q', kAccepted, 1)"
    by (simp add: CommandQueue_new_def AdmitCommandBatch_def sample_batch_def queue_op_defs
        batch_children_def kMaxCoordinatorBatchCommands_def client_id_or_zero_def Let_def)
  from AdmitCommandBatch_spec[OF q'] q' show ?thesis
    by (simp add: cq_bounded_def CommandQueue_new_def sample_batch_def)
qed

end
