(* ===== verification/Command_Validator.thy ===== *)
theory Command_Validator
  imports Command_Batch
begin

unbundle bit_operations_syntax

text \<open>
  Batch validation on the RPC workers (grpc/CommandValidator.h,
  grpc/CommandValidator.cpp).  Each check is in the order of the source and yields the
  issue the client receives.  The lemmas characterise acceptance completely and show
  that a rejection carries exactly one issue, located at the first offending command.
\<close>

section \<open>What validation reads of the AI\<close>

text \<open>
  The team's units by id (\<open>teamUnits\<close>), the number of unit definitions (\<open>defsById\<close>) and the
  engine's map extents.
\<close>

record CircuitUnit =
  cu_id :: int
  cu_is_dead :: bool

record CircuitAI =
  ai_team_units :: "int \<Rightarrow> CircuitUnit option"
  ai_def_count :: nat

definition GetTeamUnit :: "CircuitAI \<Rightarrow> int \<Rightarrow> CircuitUnit option" where
  "GetTeamUnit ai unit_id = ai_team_units ai unit_id"

definition IsValidUnitDefId :: "CircuitAI \<Rightarrow> int \<Rightarrow> bool" where
  "IsValidUnitDefId ai def_id \<longleftrightarrow> 0 < def_id \<and> nat def_id \<le> ai_def_count ai"

section \<open>Model\<close>

definition PositionOf :: "AICommand \<Rightarrow> Vector3 option" where
  "PositionOf cmd = (case cmd of
     Draw_add_point p l \<Rightarrow> Some p
   | Draw_remove_point p \<Rightarrow> Some p
   | Set_last_pos_message p \<Rightarrow> Some p
   | Give_me_new_unit d p \<Rightarrow> Some p
   | Set_figure_position f p \<Rightarrow> Some p
   | Draw_unit d p r l t tr b f \<Rightarrow> Some p
   | Build_unit h d p f \<Rightarrow> Some p
   | Move_unit h p \<Rightarrow> Some p
   | Patrol h p \<Rightarrow> Some p
   | Fight h p \<Rightarrow> Some p
   | Attack_area h p r \<Rightarrow> Some p
   | Reclaim_area h p r \<Rightarrow> Some p
   | Reclaim_in_area h p r \<Rightarrow> Some p
   | Restore_area h p r \<Rightarrow> Some p
   | Resurrect_in_area h p r \<Rightarrow> Some p
   | Capture_area h p r \<Rightarrow> Some p
   | Set_base h p \<Rightarrow> Some p
   | Load_units_area h p r \<Rightarrow> Some p
   | Unload_unit h p u \<Rightarrow> Some p
   | Unload_units_area h p r \<Rightarrow> Some p
   | _ \<Rightarrow> None)"

definition CommandArmName :: "AICommand \<Rightarrow> string" where
  "CommandArmName cmd = (case cmd of
     Move_unit h p \<Rightarrow> ''move_unit''
   | Patrol h p \<Rightarrow> ''patrol''
   | Fight h p \<Rightarrow> ''fight''
   | Attack_area h p r \<Rightarrow> ''attack_area''
   | Stop h \<Rightarrow> ''stop''
   | Wait h \<Rightarrow> ''wait''
   | Build_unit h d p f \<Rightarrow> ''build_unit''
   | Repair h u \<Rightarrow> ''repair''
   | Reclaim_unit h u \<Rightarrow> ''reclaim_unit''
   | Reclaim_area h p r \<Rightarrow> ''reclaim_area''
   | Resurrect_in_area h p r \<Rightarrow> ''resurrect_in_area''
   | Self_destruct h \<Rightarrow> ''self_destruct''
   | Set_wanted_max_speed h v \<Rightarrow> ''set_wanted_max_speed''
   | Set_fire_state h v \<Rightarrow> ''set_fire_state''
   | Set_move_state h v \<Rightarrow> ''set_move_state''
   | Pause_team e \<Rightarrow> ''pause_team''
   | Give_me r a \<Rightarrow> ''give_me''
   | Give_me_new_unit d p \<Rightarrow> ''give_me_new_unit''
   | _ \<Rightarrow> ''unsupported'')"

definition CommandOptionsOf :: "AICommand \<Rightarrow> u32" where
  "CommandOptionsOf cmd = (case cmd of
     Build_unit h d p f \<Rightarrow> uh_options h
   | Stop h \<Rightarrow> uh_options h
   | Wait h \<Rightarrow> uh_options h
   | Timed_wait h n \<Rightarrow> uh_options h
   | Squad_wait h n \<Rightarrow> uh_options h
   | Death_wait h n \<Rightarrow> uh_options h
   | Gather_wait h \<Rightarrow> uh_options h
   | Move_unit h p \<Rightarrow> uh_options h
   | Patrol h p \<Rightarrow> uh_options h
   | Fight h p \<Rightarrow> uh_options h
   | Attack h u \<Rightarrow> uh_options h
   | Attack_area h p r \<Rightarrow> uh_options h
   | Guard h u \<Rightarrow> uh_options h
   | Repair h u \<Rightarrow> uh_options h
   | Reclaim_unit h u \<Rightarrow> uh_options h
   | Reclaim_area h p r \<Rightarrow> uh_options h
   | Reclaim_in_area h p r \<Rightarrow> uh_options h
   | Reclaim_feature h f \<Rightarrow> uh_options h
   | Restore_area h p r \<Rightarrow> uh_options h
   | Resurrect h f \<Rightarrow> uh_options h
   | Resurrect_in_area h p r \<Rightarrow> uh_options h
   | Capture h u \<Rightarrow> uh_options h
   | Capture_area h p r \<Rightarrow> uh_options h
   | Set_base h p \<Rightarrow> uh_options h
   | Self_destruct h \<Rightarrow> uh_options h
   | Load_units h us \<Rightarrow> uh_options h
   | Load_units_area h p r \<Rightarrow> uh_options h
   | Load_onto h u \<Rightarrow> uh_options h
   | Unload_unit h p u \<Rightarrow> uh_options h
   | Unload_units_area h p r \<Rightarrow> uh_options h
   | Set_wanted_max_speed h v \<Rightarrow> uh_options h
   | Stockpile h \<Rightarrow> uh_options h
   | Dgun h u \<Rightarrow> uh_options h
   | Custom h c ps \<Rightarrow> uh_options h
   | Set_on_off h b \<Rightarrow> uh_options h
   | Set_repeat h b \<Rightarrow> uh_options h
   | Set_move_state h v \<Rightarrow> uh_options h
   | Set_fire_state h v \<Rightarrow> uh_options h
   | Set_trajectory h v \<Rightarrow> uh_options h
   | Set_auto_repair_level h v \<Rightarrow> uh_options h
   | Set_idle_mode h v \<Rightarrow> uh_options h
   | _ \<Rightarrow> 0)"

definition TryCommandUnitId :: "AICommand \<Rightarrow> int option" where
  "TryCommandUnitId cmd = (case cmd of
     Build_unit h d p f \<Rightarrow> Some (uh_unit_id h)
   | Stop h \<Rightarrow> Some (uh_unit_id h)
   | Wait h \<Rightarrow> Some (uh_unit_id h)
   | Timed_wait h n \<Rightarrow> Some (uh_unit_id h)
   | Squad_wait h n \<Rightarrow> Some (uh_unit_id h)
   | Death_wait h n \<Rightarrow> Some (uh_unit_id h)
   | Gather_wait h \<Rightarrow> Some (uh_unit_id h)
   | Move_unit h p \<Rightarrow> Some (uh_unit_id h)
   | Patrol h p \<Rightarrow> Some (uh_unit_id h)
   | Fight h p \<Rightarrow> Some (uh_unit_id h)
   | Attack h u \<Rightarrow> Some (uh_unit_id h)
   | Attack_area h p r \<Rightarrow> Some (uh_unit_id h)
   | Guard h u \<Rightarrow> Some (uh_unit_id h)
   | Repair h u \<Rightarrow> Some (uh_unit_id h)
   | Reclaim_unit h u \<Rightarrow> Some (uh_unit_id h)
   | Reclaim_area h p r \<Rightarrow> Some (uh_unit_id h)
   | Reclaim_in_area h p r \<Rightarrow> Some (uh_unit_id h)
   | Reclaim_feature h f \<Rightarrow> Some (uh_unit_id h)
   | Restore_area h p r \<Rightarrow> Some (uh_unit_id h)
   | Resurrect h f \<Rightarrow> Some (uh_unit_id h)
   | Resurrect_in_area h p r \<Rightarrow> Some (uh_unit_id h)
   | Capture h u \<Rightarrow> Some (uh_unit_id h)
   | Capture_area h p r \<Rightarrow> Some (uh_unit_id h)
   | Set_base h p \<Rightarrow> Some (uh_unit_id h)
   | Self_destruct h \<Rightarrow> Some (uh_unit_id h)
   | Load_units h us \<Rightarrow> Some (uh_unit_id h)
   | Load_units_area h p r \<Rightarrow> Some (uh_unit_id h)
   | Load_onto h u \<Rightarrow> Some (uh_unit_id h)
   | Unload_unit h p u \<Rightarrow> Some (uh_unit_id h)
   | Unload_units_area h p r \<Rightarrow> Some (uh_unit_id h)
   | Set_wanted_max_speed h v \<Rightarrow> Some (uh_unit_id h)
   | Stockpile h \<Rightarrow> Some (uh_unit_id h)
   | Dgun h u \<Rightarrow> Some (uh_unit_id h)
   | Custom h c ps \<Rightarrow> Some (uh_unit_id h)
   | Set_on_off h b \<Rightarrow> Some (uh_unit_id h)
   | Set_repeat h b \<Rightarrow> Some (uh_unit_id h)
   | Set_move_state h v \<Rightarrow> Some (uh_unit_id h)
   | Set_fire_state h v \<Rightarrow> Some (uh_unit_id h)
   | Set_trajectory h v \<Rightarrow> Some (uh_unit_id h)
   | Set_auto_repair_level h v \<Rightarrow> Some (uh_unit_id h)
   | Set_idle_mode h v \<Rightarrow> Some (uh_unit_id h)
   | Group_add_unit u g \<Rightarrow> Some u
   | Group_remove_unit u g \<Rightarrow> Some u
   | _ \<Rightarrow> None)"

record CommandValidationSettings =
  vs_mode :: ValidationMode
  vs_max_batch_commands :: u32
  vs_require_correlation :: bool
  vs_require_state_basis :: bool
  vs_allow_legacy_ai_admin :: bool
  vs_reject_unsupported_arms :: bool

definition default_settings :: CommandValidationSettings where
  "default_settings = \<lparr> vs_mode = VALIDATION_MODE_COMPATIBILITY, vs_max_batch_commands = 64,
     vs_require_correlation = False, vs_require_state_basis = False,
     vs_allow_legacy_ai_admin = True, vs_reject_unsupported_arms = False \<rparr>"

text \<open>The two \<open>FillIssue\<close> overloads: without and with the identity of the batch.\<close>

definition FillIssue :: "CommandIssueCode \<Rightarrow> nat \<Rightarrow> string \<Rightarrow> RetryHint \<Rightarrow> CommandIssue" where
  "FillIssue code i field_path hint = \<lparr> ci_code = code, ci_command_index = of_nat i,
     ci_field_path = field_path, ci_retry_hint = hint, ci_batch_seq = 0, ci_client_command_id = 0 \<rparr>"

definition FillBatchIssue ::
    "CommandBatch \<Rightarrow> CommandIssueCode \<Rightarrow> nat \<Rightarrow> string \<Rightarrow> RetryHint \<Rightarrow> CommandIssue" where
  "FillBatchIssue batch code i field_path hint = \<lparr> ci_code = code, ci_command_index = of_nat i,
     ci_field_path = field_path, ci_retry_hint = hint, ci_batch_seq = cb_batch_seq batch,
     ci_client_command_id = client_id_or_zero batch \<rparr>"

definition at_command :: "nat \<Rightarrow> string \<Rightarrow> string" where
  "at_command i suffix = ''commands['' @ string_of_nat i @ '']'' @ suffix"

definition ValidateCommandTarget :: "AICommand \<Rightarrow> int \<Rightarrow> nat \<Rightarrow> CommandIssue option" where
  "ValidateCommandTarget cmd batch_target i =
    (case TryCommandUnitId cmd of
       None \<Rightarrow> None
     | Some unit_id \<Rightarrow>
        if unit_id \<le> 0 then Some (FillIssue MISSING_TARGET_UNIT i (at_command i ''.unit_id'') RETRY_NEVER)
        else if unit_id \<noteq> batch_target
          then Some (FillIssue TARGET_DRIFT i (at_command i ''.unit_id'') RETRY_NEVER)
        else None)"

definition OwnsLiveUnit :: "CircuitAI option \<Rightarrow> int \<Rightarrow> bool" where
  "OwnsLiveUnit ai unit_id =
    (case ai of
       None \<Rightarrow> False
     | Some a \<Rightarrow>
        if unit_id \<le> 0 then False
        else case GetTeamUnit a unit_id of None \<Rightarrow> False | Some u \<Rightarrow> \<not> cu_is_dead u)"

definition InMapExtents :: "proto_float \<Rightarrow> proto_float \<Rightarrow> proto_float \<Rightarrow> proto_float \<Rightarrow> bool" where
  "InMapExtents maxx maxz x z \<longleftrightarrow> f_le f_zero x \<and> f_le f_zero z \<and> f_le x maxx \<and> f_le z maxz"

definition KnownBuildDef :: "CircuitAI option \<Rightarrow> int \<Rightarrow> bool" where
  "KnownBuildDef ai def_id =
    (case ai of None \<Rightarrow> False | Some a \<Rightarrow> if def_id \<le> 0 then False else IsValidUnitDefId a def_id)"

definition legacy_admin_arm :: "AICommand \<Rightarrow> bool" where
  "legacy_admin_arm cmd =
    (case cmd of Pause_team e \<Rightarrow> True | Give_me r a \<Rightarrow> True | Give_me_new_unit d p \<Rightarrow> True | _ \<Rightarrow> False)"

text \<open>The enumeration checks of the two state commands.\<close>

definition enum_issue :: "AICommand \<Rightarrow> nat \<Rightarrow> CommandIssue option" where
  "enum_issue cmd i =
    (case cmd of
       Set_move_state h v \<Rightarrow>
         if v < 0 \<or> v > 2 then Some (FillIssue INVALID_ENUM_VALUE i
           (at_command i ''.set_move_state.move_state'') RETRY_NEVER) else None
     | Set_fire_state h v \<Rightarrow>
         if v < 0 \<or> v > 2 then Some (FillIssue INVALID_ENUM_VALUE i
           (at_command i ''.set_fire_state.fire_state'') RETRY_NEVER) else None
     | _ \<Rightarrow> None)"

definition position_issue :: "proto_float \<Rightarrow> proto_float \<Rightarrow> AICommand \<Rightarrow> nat \<Rightarrow> CommandIssue option" where
  "position_issue maxx maxz cmd i =
    (case PositionOf cmd of
       None \<Rightarrow> None
     | Some pos \<Rightarrow>
        if \<not> isfinite (vx pos) \<or> \<not> isfinite (vy pos) \<or> \<not> isfinite (vz pos)
          then Some (FillIssue POSITION_NON_FINITE i (at_command i ''.position'') RETRY_NEVER)
        else if \<not> InMapExtents maxx maxz (vx pos) (vz pos)
          then Some (FillIssue POSITION_OUT_OF_MAP i (at_command i ''.position'') RETRY_NEVER)
        else None)"

definition build_issue :: "CircuitAI option \<Rightarrow> AICommand \<Rightarrow> nat \<Rightarrow> CommandIssue option" where
  "build_issue ai cmd i =
    (case cmd of
       Build_unit h def_id p f \<Rightarrow>
         if \<not> KnownBuildDef ai def_id
           then Some (FillIssue UNKNOWN_UNIT_DEF i
             (at_command i ''.build_unit.to_build_unit_def_id'') RETRY_WITH_FRESH_CAPABILITIES)
         else None
     | _ \<Rightarrow> None)"

text \<open>
  \<open>ValidateCommand\<close> in the order of the source.  The extents are process-wide statics of the
  engine: they are passed separately from the AI pointer.
\<close>

definition ValidateCommand ::
    "CommandValidationSettings \<Rightarrow> CircuitAI option \<Rightarrow> proto_float \<Rightarrow> proto_float \<Rightarrow> AICommand \<Rightarrow> nat \<Rightarrow>
     CommandIssue option" where
  "ValidateCommand settings ai maxx maxz cmd i =
    (if cmd = COMMAND_NOT_SET
       then Some (FillIssue MISSING_COMMAND_INTENT i (at_command i []) RETRY_NEVER)
     else if \<not> vs_allow_legacy_ai_admin settings \<and> legacy_admin_arm cmd
       then Some (FillIssue COMMAND_REQUIRES_ADMIN_CHANNEL i (at_command i []) RETRY_NEVER)
     else if (vs_reject_unsupported_arms settings \<or> vs_mode settings = VALIDATION_MODE_STRICT) \<and>
         \<not> IsSupportedCommandArm (CommandArmName cmd)
       then Some (FillIssue COMMAND_ARM_NOT_DISPATCHED i (at_command i []) RETRY_WITH_FRESH_CAPABILITIES)
     else let valid_mask = ValidOptionMaskFor (CommandArmName cmd) in
       if valid_mask \<noteq> 0 \<and> CommandOptionsOf cmd AND NOT valid_mask \<noteq> 0
         then Some (FillIssue INVALID_OPTION_BITS i (at_command i ''.options'') RETRY_NEVER)
       else case enum_issue cmd i of
           Some issue \<Rightarrow> Some issue
         | None \<Rightarrow>
            (case position_issue maxx maxz cmd i of
               Some issue \<Rightarrow> Some issue
             | None \<Rightarrow> build_issue ai cmd i))"

text \<open>The loop of \<open>ValidateBatch\<close>: the first issue, or whether a unit-bound command was seen.\<close>

fun validate_loop ::
    "CommandValidationSettings \<Rightarrow> CircuitAI option \<Rightarrow> proto_float \<Rightarrow> proto_float \<Rightarrow> int \<Rightarrow> nat \<Rightarrow> bool \<Rightarrow>
     AICommand list \<Rightarrow> CommandIssue + bool" where
  "validate_loop settings ai maxx maxz target i has_unit_bound [] = Inr has_unit_bound"
| "validate_loop settings ai maxx maxz target i has_unit_bound (cmd # cmds) =
    (case ValidateCommandTarget cmd target i of
       Some issue \<Rightarrow> Inl issue
     | None \<Rightarrow>
        (case ValidateCommand settings ai maxx maxz cmd i of
           Some issue \<Rightarrow> Inl issue
         | None \<Rightarrow> validate_loop settings ai maxx maxz target (Suc i)
             (has_unit_bound \<or> TryCommandUnitId cmd \<noteq> None) cmds))"

record ValidationResult =
  vr_ok :: bool
  vr_batch_result :: BatchResult

definition validation_base :: "CommandValidationSettings \<Rightarrow> CommandBatch \<Rightarrow> BatchResult" where
  "validation_base settings batch = BatchResult_default
     \<lparr> br_batch_seq := cb_batch_seq batch, br_client_command_id := client_id_or_zero batch,
       br_mode := vs_mode settings \<rparr>"

definition reject_batch ::
    "CommandValidationSettings \<Rightarrow> CommandBatch \<Rightarrow> CommandBatchStatus \<Rightarrow> CommandIssue \<Rightarrow> ValidationResult" where
  "reject_batch settings batch status issue = \<lparr> vr_ok = False,
     vr_batch_result = (validation_base settings batch)
       \<lparr> br_status := status, br_accepted_command_count := 0, br_issues := [issue] \<rparr> \<rparr>"

definition stamp_issue :: "CommandBatch \<Rightarrow> CommandIssue \<Rightarrow> CommandIssue" where
  "stamp_issue batch issue = issue \<lparr> ci_batch_seq := cb_batch_seq batch,
     ci_client_command_id := client_id_or_zero batch \<rparr>"

definition ValidateBatch ::
    "CommandValidationSettings \<Rightarrow> CircuitAI option \<Rightarrow> proto_float \<Rightarrow> proto_float \<Rightarrow> CommandBatch \<Rightarrow>
     ValidationResult" where
  "ValidateBatch settings ai maxx maxz batch =
    (let n = length (cb_commands batch); target = to_int32 (cb_target_unit_id batch) in
     if n = 0 then reject_batch settings batch COMMAND_BATCH_REJECTED_INVALID
       (FillBatchIssue batch EMPTY_COMMAND 0 ''commands'' RETRY_NEVER)
     else if vs_max_batch_commands settings > 0 \<and> of_nat n > vs_max_batch_commands settings
       then reject_batch settings batch COMMAND_BATCH_REJECTED_INVALID
         (FillBatchIssue batch TOO_MANY_COMMANDS 0 ''commands'' RETRY_NEVER)
     else if vs_require_correlation settings \<and> cb_client_command_id batch = None
       then reject_batch settings batch COMMAND_BATCH_REJECTED_INVALID
         (FillBatchIssue batch MISSING_CLIENT_COMMAND_ID 0 ''client_command_id'' RETRY_NEVER)
     else if vs_require_state_basis settings \<and>
         (cb_based_on_frame batch = None \<or> cb_based_on_state_seq batch = None)
       then reject_batch settings batch COMMAND_BATCH_REJECTED_STALE
         (FillBatchIssue batch MISSING_STATE_BASIS 0
           (if cb_based_on_frame batch = None then ''based_on_frame'' else ''based_on_state_seq'')
           RETRY_AFTER_NEXT_SNAPSHOT)
     else case validate_loop settings ai maxx maxz target 0 False (cb_commands batch) of
       Inl issue \<Rightarrow> reject_batch settings batch COMMAND_BATCH_REJECTED_INVALID (stamp_issue batch issue)
     | Inr has_unit_bound \<Rightarrow>
        if has_unit_bound \<and> \<not> OwnsLiveUnit ai target
          then reject_batch settings batch COMMAND_BATCH_REJECTED_INVALID
            (FillBatchIssue batch TARGET_UNIT_NOT_OWNED 0 ''target_unit_id'' RETRY_AFTER_NEXT_SNAPSHOT)
        else \<lparr> vr_ok = True, vr_batch_result = (validation_base settings batch)
          \<lparr> br_status := COMMAND_BATCH_ACCEPTED, br_accepted_command_count := of_nat n \<rparr> \<rparr>)"

section \<open>Acceptance\<close>

text \<open>What an accepted command satisfies, independent of the order of the checks.\<close>

definition command_ok ::
    "CommandValidationSettings \<Rightarrow> CircuitAI option \<Rightarrow> proto_float \<Rightarrow> proto_float \<Rightarrow> int \<Rightarrow> AICommand \<Rightarrow> bool" where
  "command_ok settings ai maxx maxz target cmd \<longleftrightarrow>
    cmd \<noteq> COMMAND_NOT_SET \<and>
    (\<forall>u. TryCommandUnitId cmd = Some u \<longrightarrow> 0 < u \<and> u = target) \<and>
    (vs_allow_legacy_ai_admin settings \<or> \<not> legacy_admin_arm cmd) \<and>
    (vs_reject_unsupported_arms settings \<or> vs_mode settings = VALIDATION_MODE_STRICT \<longrightarrow>
       IsSupportedCommandArm (CommandArmName cmd)) \<and>
    (IsSupportedCommandArm (CommandArmName cmd) \<longrightarrow> CommandOptionsOf cmd < 8) \<and>
    (\<forall>p. PositionOf cmd = Some p \<longrightarrow> isfinite (vx p) \<and> isfinite (vy p) \<and> isfinite (vz p) \<and>
       InMapExtents maxx maxz (vx p) (vz p)) \<and>
    (\<forall>h v. cmd = Set_move_state h v \<or> cmd = Set_fire_state h v \<longrightarrow> 0 \<le> v \<and> v \<le> 2) \<and>
    (\<forall>h d p f. cmd = Build_unit h d p f \<longrightarrow> KnownBuildDef ai d)"

lemma word_and_not_mask3: "(w :: u32) AND NOT 7 = 0 \<longleftrightarrow> w < 8"
proof -
  have seven: "(7 :: u32) = mask 3"
    by (simp add: mask_eq_exp_minus_1)
  have split: "w = (w AND mask 3) OR (w AND NOT (mask 3))"
    by (simp flip: bit.conj_disj_distrib)
  show ?thesis
  proof
    assume "w AND NOT 7 = 0"
    then have "w = w AND mask 3"
      using split by (simp add: seven)
    then show "w < 8"
      using and_mask_less'[of 3 w] by simp
  next
    assume "w < 8"
    then have "w AND mask 3 = w"
      by (intro less_mask_eq) simp
    then have "w AND NOT (mask 3) = (w AND mask 3) AND NOT (mask 3)"
      by (simp only:)
    also have "\<dots> = 0"
      by (simp add: and.assoc)
    finally show "w AND NOT 7 = 0"
      by (simp add: seven)
  qed
qed

lemma target_None_iff:
  "ValidateCommandTarget cmd target i = None \<longleftrightarrow>
   (\<forall>u. TryCommandUnitId cmd = Some u \<longrightarrow> 0 < u \<and> u = target)"
  by (auto simp: ValidateCommandTarget_def split: option.splits)

lemma enum_None_iff:
  "enum_issue cmd i = None \<longleftrightarrow>
   (\<forall>h v. cmd = Set_move_state h v \<or> cmd = Set_fire_state h v \<longrightarrow> 0 \<le> v \<and> v \<le> 2)"
  by (cases cmd) (auto simp: enum_issue_def)

lemma position_None_iff:
  "position_issue maxx maxz cmd i = None \<longleftrightarrow>
   (\<forall>p. PositionOf cmd = Some p \<longrightarrow> isfinite (vx p) \<and> isfinite (vy p) \<and> isfinite (vz p) \<and>
      InMapExtents maxx maxz (vx p) (vz p))"
  by (auto simp: position_issue_def split: option.splits)

lemma build_None_iff:
  "build_issue ai cmd i = None \<longleftrightarrow> (\<forall>h d p f. cmd = Build_unit h d p f \<longrightarrow> KnownBuildDef ai d)"
  by (cases cmd) (auto simp: build_issue_def)

lemma mask_check_iff:
  "ValidOptionMaskFor arm \<noteq> 0 \<and> w AND NOT (ValidOptionMaskFor arm) \<noteq> 0 \<longleftrightarrow>
   \<not> (IsSupportedCommandArm arm \<longrightarrow> w < 8)"
  using word_and_not_mask3[of w] by (auto simp: ValidOptionMaskFor_def kQueuedCommandOptionMask_def)

lemma command_ok_iff:
  "command_ok settings ai maxx maxz target cmd \<longleftrightarrow>
   ValidateCommandTarget cmd target i = None \<and> ValidateCommand settings ai maxx maxz cmd i = None"
  unfolding command_ok_def ValidateCommand_def Let_def mask_check_iff
    target_None_iff[of cmd target i, symmetric] enum_None_iff[of cmd i, symmetric]
    position_None_iff[of maxx maxz cmd i, symmetric] build_None_iff[of ai cmd i, symmetric]
  by (auto split: option.splits)

lemma loop_Inr_iff:
  "validate_loop settings ai maxx maxz target i b cmds = Inr b' \<longleftrightarrow>
   (\<forall>c \<in> set cmds. command_ok settings ai maxx maxz target c) \<and>
   b' = (b \<or> (\<exists>c \<in> set cmds. TryCommandUnitId c \<noteq> None))"
proof (induction cmds arbitrary: i b)
  case Nil
  then show ?case by auto
next
  case (Cons cmd cmds)
  then show ?case
    using command_ok_iff[of settings ai maxx maxz target cmd i] by (auto split: option.splits)
qed

lemma issue_index:
  "ValidateCommandTarget cmd target i = Some issue \<Longrightarrow> ci_command_index issue = of_nat i"
  "ValidateCommand settings ai maxx maxz cmd i = Some issue \<Longrightarrow> ci_command_index issue = of_nat i"
proof -
  have fill: "ci_command_index (FillIssue code i path hint) = of_nat i" for code path hint
    by (simp add: FillIssue_def)
  have enum: "enum_issue cmd i = Some issue \<Longrightarrow> ci_command_index issue = of_nat i"
    by (cases cmd) (auto simp: enum_issue_def fill split: if_splits)
  have build: "build_issue ai cmd i = Some issue \<Longrightarrow> ci_command_index issue = of_nat i"
    by (cases cmd) (auto simp: build_issue_def fill split: if_splits)
  show "ValidateCommandTarget cmd target i = Some issue \<Longrightarrow> ci_command_index issue = of_nat i"
    by (auto simp: ValidateCommandTarget_def fill split: option.splits if_splits)
  show "ValidateCommand settings ai maxx maxz cmd i = Some issue \<Longrightarrow> ci_command_index issue = of_nat i"
    using enum build
    by (auto simp: ValidateCommand_def Let_def fill position_issue_def split: option.splits if_splits)
qed

lemma loop_first_failure:
  "validate_loop settings ai maxx maxz target i b cmds = Inl issue \<Longrightarrow>
   \<exists>k < length cmds. (\<forall>j < k. command_ok settings ai maxx maxz target (cmds ! j)) \<and>
     \<not> command_ok settings ai maxx maxz target (cmds ! k) \<and> ci_command_index issue = of_nat (i + k)"
proof (induction cmds arbitrary: i b)
  case Nil
  then show ?case by simp
next
  case (Cons cmd cmds)
  show ?case
  proof (cases "command_ok settings ai maxx maxz target cmd")
    case False
    then have "ci_command_index issue = of_nat i"
      using Cons.prems issue_index command_ok_iff[of settings ai maxx maxz target cmd i]
      by (fastforce split: option.splits)
    with False show ?thesis
      by (intro exI[of _ 0]) simp
  next
    case True
    then have "validate_loop settings ai maxx maxz target (Suc i) (b \<or> TryCommandUnitId cmd \<noteq> None) cmds = Inl issue"
      using Cons.prems command_ok_iff[of settings ai maxx maxz target cmd i] by simp
    from Cons.IH[OF this] obtain k where k: "k < length cmds"
      "\<forall>j < k. command_ok settings ai maxx maxz target (cmds ! j)"
      "\<not> command_ok settings ai maxx maxz target (cmds ! k)" "ci_command_index issue = of_nat (Suc i + k)"
      by blast
    with True show ?thesis
      by (intro exI[of _ "Suc k"]) (auto simp: nth_Cons split: nat.splits)
  qed
qed

text \<open>The checks on the batch as a whole.\<close>

definition batch_shape_ok :: "CommandValidationSettings \<Rightarrow> CommandBatch \<Rightarrow> bool" where
  "batch_shape_ok settings batch \<longleftrightarrow>
    cb_commands batch \<noteq> [] \<and>
    (vs_max_batch_commands settings = 0 \<or> of_nat (length (cb_commands batch)) \<le> vs_max_batch_commands settings) \<and>
    (vs_require_correlation settings \<longrightarrow> cb_client_command_id batch \<noteq> None) \<and>
    (vs_require_state_basis settings \<longrightarrow> cb_based_on_frame batch \<noteq> None \<and> cb_based_on_state_seq batch \<noteq> None)"

lemma ValidateBatch_shape:
  assumes "batch_shape_ok settings batch"
  shows "ValidateBatch settings ai maxx maxz batch =
    (case validate_loop settings ai maxx maxz (to_int32 (cb_target_unit_id batch)) 0 False (cb_commands batch) of
       Inl issue \<Rightarrow> reject_batch settings batch COMMAND_BATCH_REJECTED_INVALID (stamp_issue batch issue)
     | Inr has_unit_bound \<Rightarrow>
        if has_unit_bound \<and> \<not> OwnsLiveUnit ai (to_int32 (cb_target_unit_id batch))
          then reject_batch settings batch COMMAND_BATCH_REJECTED_INVALID
            (FillBatchIssue batch TARGET_UNIT_NOT_OWNED 0 ''target_unit_id'' RETRY_AFTER_NEXT_SNAPSHOT)
        else \<lparr> vr_ok = True, vr_batch_result = (validation_base settings batch)
          \<lparr> br_status := COMMAND_BATCH_ACCEPTED, br_accepted_command_count := of_nat (length (cb_commands batch)) \<rparr> \<rparr>)"
  using assms by (auto simp: ValidateBatch_def batch_shape_ok_def Let_def not_less)

lemma ValidateBatch_bad_shape:
  "\<not> batch_shape_ok settings batch \<Longrightarrow>
   \<exists>status code path hint. status \<in> {COMMAND_BATCH_REJECTED_INVALID, COMMAND_BATCH_REJECTED_STALE} \<and>
     ValidateBatch settings ai maxx maxz batch =
       reject_batch settings batch status (FillBatchIssue batch code 0 path hint)"
  unfolding ValidateBatch_def batch_shape_ok_def Let_def
  by (auto simp: not_less word_gt_0)


text \<open>The map extents and a batch used for the concrete instances.\<close>

definition sample_ai :: CircuitAI where
  "sample_ai = \<lparr> ai_team_units = (\<lambda>i. if i = 7 then Some \<lparr> cu_id = 7, cu_is_dead = False \<rparr> else None), ai_def_count = 3 \<rparr>"

definition sample_move :: "int \<Rightarrow> int \<Rightarrow> AICommand" where
  "sample_move u x = Move_unit \<lparr> uh_unit_id = u, uh_group_id = 0, uh_options = 1, uh_timeout = 0 \<rparr>
     \<lparr> vx = Fin x 0, vy = Fin 0 0, vz = Fin 8 0 \<rparr>"

definition sample_moves :: "AICommand list \<Rightarrow> CommandBatch" where
  "sample_moves cmds = \<lparr> cb_batch_seq = 3, cb_target_unit_id = 7, cb_commands = cmds,
     cb_batch_options = None, cb_client_command_id = Some 5, cb_based_on_frame = None,
     cb_based_on_state_seq = None, cb_target_generation = None,
     cb_conflict_policy = COMMAND_CONFLICT_POLICY_UNSPECIFIED \<rparr>"


text \<open>
  A rejection is structured and precise.  It accepts no command, carries exactly one
  issue stamped with the batch's sequence number and client id, and, when the batch
  has an allowed shape but some command is unacceptable, the issue names the first such command.
\<close>

theorem ValidateBatch_rejection:
  assumes "\<not> vr_ok (ValidateBatch settings ai maxx maxz batch)"
  defines "r \<equiv> vr_batch_result (ValidateBatch settings ai maxx maxz batch)"
    and "bad \<equiv> \<lambda>c. \<not> command_ok settings ai maxx maxz (to_int32 (cb_target_unit_id batch)) c"
  shows "\<exists>issue. br_issues r = [issue] \<and> br_accepted_command_count r = 0 \<and>
    br_status r \<in> {COMMAND_BATCH_REJECTED_INVALID, COMMAND_BATCH_REJECTED_STALE} \<and>
    ci_batch_seq issue = cb_batch_seq batch \<and> ci_client_command_id issue = client_id_or_zero batch \<and>
    (batch_shape_ok settings batch \<and> (\<exists>c \<in> set (cb_commands batch). bad c) \<longrightarrow>
      (\<exists>k < length (cb_commands batch). bad (cb_commands batch ! k) \<and>
        (\<forall>j < k. \<not> bad (cb_commands batch ! j)) \<and> ci_command_index issue = of_nat k))"
proof (cases "batch_shape_ok settings batch")
  case False
  then show ?thesis
    using ValidateBatch_bad_shape[OF False, of ai maxx maxz]
    by (auto simp: r_def reject_batch_def FillBatchIssue_def)
next
  case True
  show ?thesis
  proof (cases "validate_loop settings ai maxx maxz (to_int32 (cb_target_unit_id batch)) 0 False (cb_commands batch)")
    case (Inl issue)
    then show ?thesis
      using loop_first_failure[OF Inl]
      by (auto simp: r_def bad_def ValidateBatch_shape[OF True] reject_batch_def stamp_issue_def)
  next
    case (Inr b)
    then show ?thesis
      using Inr[unfolded loop_Inr_iff] assms(1)
      by (auto simp: r_def bad_def ValidateBatch_shape[OF True] reject_batch_def FillBatchIssue_def)
  qed
qed

theorem ValidateBatch_rejection_witness:
  "\<exists>issue. br_issues (vr_batch_result (ValidateBatch default_settings (Some sample_ai) (Fin 64 0) (Fin 64 0)
       (sample_moves [sample_move 7 4, sample_move 7 65]))) = [issue] \<and> ci_batch_seq issue = 3"
proof -
  have "\<not> vr_ok (ValidateBatch default_settings (Some sample_ai) (Fin 64 0) (Fin 64 0)
      (sample_moves [sample_move 7 4, sample_move 7 65]))"
    by code_simp
  from ValidateBatch_rejection[OF this] show ?thesis
    by (auto simp: sample_moves_def)
qed

end
