(* ===== verification/Command_Dispatch.thy ===== *)
theory Command_Dispatch
  imports Command_Validator
begin

text \<open>
  Dispatch of a command to the engine (grpc/CommandDispatch.h,
  grpc/CommandDispatch.cpp).  The engine is behind its C++ wrapper: a dispatch is modelled
  by the calls it makes, in order, and its result, and everything the engine answers
  is a field of the record \<open>Engine\<close>.  The lemmas show that each arm is either unit-bound or
  game-wide, that a command which switched cheats on ends by switching them off
  (in vain if the engine does not comply), and which arms forward the client's options.
\<close>

section \<open>The engine boundary\<close>

text \<open>Calls on the unit wrapper, on the raw unit and on the engine's service objects.\<close>

datatype (plugins only: code) EngineCall =
    CmdMoveTo Vector3 int int
  | CmdPatrolTo Vector3 int int
  | CmdFightTo Vector3 int int
  | CmdAttackGround Vector3 int int
  | CmdStop int int
  | CmdWait bool
  | CmdBuild int Vector3 int int int
  | CmdRepair int int int
  | CmdReclaimUnit int int int
  | CmdReclaimInArea Vector3 proto_float int int
  | CmdResurrectInArea Vector3 proto_float int int
  | CmdSelfD bool
  | CmdWantedSpeed proto_float
  | CmdSetFireState int
  | CmdSetMoveState int
  | ExecuteCustomCommand int "proto_float list" int int
  | Game_SendTextMessage string int
  | Game_SetLastMessagePosition Vector3
  | Game_SetPause bool string
  | Pathing_InitPath Vector3 Vector3 int proto_float
  | Pathing_GetApproximateLength Vector3 Vector3 int proto_float
  | Pathing_GetNextWaypoint int
  | Pathing_FreePath int
  | Lua_CallRules string int
  | Lua_CallUI string int
  | Cheats_SetEnabled bool
  | Cheats_SetMyIncomeMultiplier proto_float
  | Cheats_GiveMeUnit int Vector3
  | Cheats_GiveMeResource string proto_float
  | Drawer_AddPoint Vector3 string
  | Drawer_AddLine Vector3 Vector3
  | Drawer_DeletePointsAndLines Vector3
  | Figure_DrawSpline Vector3 Vector3 Vector3 Vector3 proto_float bool int int
  | Figure_DrawLine Vector3 Vector3 proto_float bool int int
  | Figure_SetColor int "int option" "int option" "int option" "int option"
  | Figure_Remove int
  | Drawer_DrawUnit int Vector3 proto_float int int bool bool int
  | Economy_SendResource string proto_float int

text \<open>
  What the engine answers: which objects exist, which lookups succeed, and how the
  fallible calls end (\<open>None\<close> is a thrown exception).
\<close>

record Engine =
  eng_has_unit :: bool
  eng_friendly_unit :: "int \<Rightarrow> bool"
  eng_def_count :: nat
  eng_def_has_def :: "int \<Rightarrow> bool"
  eng_has_game :: bool
  eng_has_pathing :: bool
  eng_has_lua :: bool
  eng_has_drawer :: bool
  eng_has_figure :: bool
  eng_has_cheats :: bool
  eng_has_callback :: bool
  eng_has_economy :: bool
  eng_resource :: "string \<Rightarrow> bool"
  eng_cheats_enabled :: "bool option"
  eng_enable_cheats :: "bool option"
  eng_disable_cheats :: "bool option"
  eng_give_unit :: "int option"
  eng_throws :: "EngineCall \<Rightarrow> bool"

text \<open>The calls made and the returned value; \<open>None\<close> when an exception leaves \<open>DispatchCommand\<close>.\<close>

type_synonym dispatch_result = "EngineCall list \<times> bool option"

definition refused :: dispatch_result where
  "refused = ([], Some False)"

definition perform :: "Engine \<Rightarrow> EngineCall \<Rightarrow> dispatch_result" where
  "perform eng call = ([call], if eng_throws eng call then None else Some True)"

text \<open>A call inside a \<open>try\<close> block whose handlers log and return false.\<close>

definition perform_guarded :: "Engine \<Rightarrow> EngineCall \<Rightarrow> dispatch_result" where
  "perform_guarded eng call = ([call], Some (\<not> eng_throws eng call))"

section \<open>Options, time-outs and conversions\<close>

definition short_of :: "u32 \<Rightarrow> int" where
  "short_of w = sint (ucast w :: 16 word)"

definition OptionsOf :: "AICommand \<Rightarrow> int" where
  "OptionsOf cmd = (case cmd of
     Build_unit h d p f \<Rightarrow> short_of (uh_options h)
   | Stop h \<Rightarrow> short_of (uh_options h)
   | Wait h \<Rightarrow> short_of (uh_options h)
   | Timed_wait h n \<Rightarrow> short_of (uh_options h)
   | Move_unit h p \<Rightarrow> short_of (uh_options h)
   | Patrol h p \<Rightarrow> short_of (uh_options h)
   | Fight h p \<Rightarrow> short_of (uh_options h)
   | Attack h u \<Rightarrow> short_of (uh_options h)
   | Attack_area h p r \<Rightarrow> short_of (uh_options h)
   | Guard h u \<Rightarrow> short_of (uh_options h)
   | Repair h u \<Rightarrow> short_of (uh_options h)
   | Reclaim_unit h u \<Rightarrow> short_of (uh_options h)
   | Reclaim_area h p r \<Rightarrow> short_of (uh_options h)
   | Reclaim_in_area h p r \<Rightarrow> short_of (uh_options h)
   | Reclaim_feature h f \<Rightarrow> short_of (uh_options h)
   | Resurrect_in_area h p r \<Rightarrow> short_of (uh_options h)
   | Self_destruct h \<Rightarrow> short_of (uh_options h)
   | Dgun h u \<Rightarrow> short_of (uh_options h)
   | Set_wanted_max_speed h v \<Rightarrow> short_of (uh_options h)
   | Set_fire_state h v \<Rightarrow> short_of (uh_options h)
   | Set_move_state h v \<Rightarrow> short_of (uh_options h)
   | _ \<Rightarrow> 0)"

definition TimeoutOf :: "AICommand \<Rightarrow> int" where
  "TimeoutOf cmd =
    (let t = (case cmd of
         Move_unit h p \<Rightarrow> uh_timeout h
       | Patrol h p \<Rightarrow> uh_timeout h
       | Fight h p \<Rightarrow> uh_timeout h
       | Attack h u \<Rightarrow> uh_timeout h
       | Attack_area h p r \<Rightarrow> uh_timeout h
       | Repair h u \<Rightarrow> uh_timeout h
       | Reclaim_unit h u \<Rightarrow> uh_timeout h
       | Reclaim_in_area h p r \<Rightarrow> uh_timeout h
       | Resurrect_in_area h p r \<Rightarrow> uh_timeout h
       | Build_unit h d p f \<Rightarrow> uh_timeout h
       | Dgun h u \<Rightarrow> uh_timeout h
       | _ \<Rightarrow> 0)
     in if t \<le> 0 then 2147483647 else t)"

definition f_bool :: "bool \<Rightarrow> proto_float" where
  "f_bool b = (if b then f_one else f_zero)"

definition pos3 :: "Vector3 \<Rightarrow> proto_float list" where
  "pos3 p = [vx p, vy p, vz p]"

text \<open>
  \<open>static_cast\<close> of \<open>x * 255.0f\<close> to a small integer type: truncation of the rounded product,
  unspecified (\<open>None\<close>) outside the range of the type.
\<close>

definition scaled_cast :: "int \<Rightarrow> int \<Rightarrow> proto_float \<Rightarrow> int option" where
  "scaled_cast lo hi f =
    (case f of
       Fin m e \<Rightarrow>
        (case round_float (m * 255) e of
           Fin m' e' \<Rightarrow>
             (let t = (if 0 \<le> e' then m' * 2 ^ nat e' else sgn m' * (\<bar>m'\<bar> div 2 ^ nat (- e')))
              in if lo \<le> t \<and> t \<le> hi then Some t else None)
         | _ \<Rightarrow> None)
     | _ \<Rightarrow> None)"

section \<open>Cheat scope\<close>

text \<open>\<open>EnsureActive\<close>: the calls made, whether cheats are active, and whether to restore.\<close>

definition EnsureActive :: "Engine \<Rightarrow> EngineCall list \<times> bool \<times> bool" where
  "EnsureActive eng =
    (if \<not> eng_has_cheats eng then ([], False, False)
     else case eng_cheats_enabled eng of
       None \<Rightarrow> ([], False, False)
     | Some True \<Rightarrow> ([], True, False)
     | Some False \<Rightarrow>
        (case eng_enable_cheats eng of
           Some True \<Rightarrow> ([Cheats_SetEnabled True], True, True)
         | _ \<Rightarrow> ([Cheats_SetEnabled True], False, False)))"

text \<open>The destructor, which swallows every exception.\<close>

definition restore_cheats :: "bool \<Rightarrow> EngineCall list" where
  "restore_cheats restore_disabled = (if restore_disabled then [Cheats_SetEnabled False] else [])"

definition with_cheats :: "Engine \<Rightarrow> dispatch_result \<Rightarrow> dispatch_result" where
  "with_cheats eng body =
    (if \<not> eng_has_cheats eng then refused
     else case EnsureActive eng of (calls, active, restore) \<Rightarrow>
       if \<not> active then (calls @ restore_cheats restore, Some False)
       else (calls @ fst body @ restore_cheats restore, snd body))"

section \<open>Dispatch\<close>

definition def_safe :: "Engine \<Rightarrow> int \<Rightarrow> bool" where
  "def_safe eng def_id \<longleftrightarrow> 0 < def_id \<and> nat def_id \<le> eng_def_count eng"

text \<open>Arms with a method of the unit wrapper.\<close>

definition dispatch_unit :: "Engine \<Rightarrow> AICommand \<Rightarrow> dispatch_result option" where
  "dispatch_unit eng cmd =
    (let opts = OptionsOf cmd; timeout = TimeoutOf cmd in
     case cmd of
       Move_unit h p \<Rightarrow> Some (perform eng (CmdMoveTo p opts timeout))
     | Patrol h p \<Rightarrow> Some (perform eng (CmdPatrolTo p opts timeout))
     | Fight h p \<Rightarrow> Some (perform eng (CmdFightTo p opts timeout))
     | Attack_area h p r \<Rightarrow> Some (perform eng (CmdAttackGround p opts timeout))
     | Stop h \<Rightarrow> Some (perform eng (CmdStop opts timeout))
     | Wait h \<Rightarrow> Some (perform eng (CmdWait True))
     | Build_unit h def_id p facing \<Rightarrow> Some (
         if def_id \<le> 0 then refused
         else if \<not> def_safe eng def_id then refused
         else perform eng (CmdBuild def_id p facing opts timeout))
     | Repair h target \<Rightarrow> Some (
         if \<not> eng_friendly_unit eng target then refused
         else perform eng (CmdRepair target opts timeout))
     | Reclaim_unit h target \<Rightarrow> Some (
         if \<not> eng_friendly_unit eng target then refused
         else perform eng (CmdReclaimUnit target opts timeout))
     | Reclaim_in_area h p r \<Rightarrow> Some (perform eng (CmdReclaimInArea p r opts timeout))
     | Resurrect_in_area h p r \<Rightarrow> Some (perform eng (CmdResurrectInArea p r opts timeout))
     | Self_destruct h \<Rightarrow> Some (perform eng (CmdSelfD True))
     | Set_wanted_max_speed h v \<Rightarrow> Some (perform eng (CmdWantedSpeed v))
     | Set_fire_state h v \<Rightarrow> Some (perform eng (CmdSetFireState v))
     | Set_move_state h v \<Rightarrow> Some (perform eng (CmdSetMoveState v))
     | _ \<Rightarrow> None)"

text \<open>The parameter-count check of \<open>custom\<close>, by command id.\<close>

definition custom_params_ok :: "int \<Rightarrow> nat \<Rightarrow> bool" where
  "custom_params_ok custom_id n =
    (if custom_id = 32102 then n = 1 \<or> n = 3
     else if custom_id = 34571 \<or> custom_id = 37382 then n = 1
     else if custom_id = 34922 \<or> custom_id = 34923 then n = 1 \<or> n = 3
     else if custom_id = 34924 then n = 0
     else if custom_id = 34925 then 3 \<le> n
     else True)"

text \<open>Arms routed through \<open>ExecuteCustomCommand\<close>: the engine's command id and its parameters.\<close>

definition raw_order :: "AICommand \<Rightarrow> (int \<times> proto_float list) option" where
  "raw_order cmd = (case cmd of
       Attack h t \<Rightarrow> Some (20, [float_of_int t])
     | Guard h t \<Rightarrow> Some (25, [float_of_int t])
     | Dgun h t \<Rightarrow> Some (105, [float_of_int t])
     | Capture h t \<Rightarrow> Some (130, [float_of_int t])
     | Set_on_off h b \<Rightarrow> Some (85, [f_bool b])
     | Set_repeat h b \<Rightarrow> Some (115, [f_bool b])
     | Stockpile h \<Rightarrow> Some (100, [])
     | Timed_wait h n \<Rightarrow> Some (6, [float_of_int n])
     | Squad_wait h n \<Rightarrow> Some (8, [float_of_int n])
     | Death_wait h u \<Rightarrow> Some (7, [float_of_int u])
     | Gather_wait h \<Rightarrow> Some (9, [])
     | Reclaim_area h p r \<Rightarrow> Some (90, pos3 p @ [r])
     | Reclaim_feature h f \<Rightarrow> Some (90, [float_of_int f])
     | Restore_area h p r \<Rightarrow> Some (110, pos3 p @ [r])
     | Resurrect h f \<Rightarrow> Some (125, [float_of_int f])
     | Capture_area h p r \<Rightarrow> Some (130, pos3 p @ [r])
     | Set_base h p \<Rightarrow> Some (55, pos3 p)
     | Load_units h ids \<Rightarrow> Some (75, map float_of_int ids)
     | Load_units_area h p r \<Rightarrow> Some (75, pos3 p @ [r])
     | Load_onto h u \<Rightarrow> Some (76, [float_of_int u])
     | Unload_unit h p u \<Rightarrow> Some (81, pos3 p @ [float_of_int u])
     | Unload_units_area h p r \<Rightarrow> Some (80, pos3 p @ [r])
     | Set_trajectory h v \<Rightarrow> Some (120, [float_of_int v])
     | Set_auto_repair_level h v \<Rightarrow> Some (135, [float_of_int v])
     | Set_idle_mode h v \<Rightarrow> Some (145, [float_of_int v])
     | Custom h c ps \<Rightarrow> Some (c, ps)
     | Group_add_unit u g \<Rightarrow> Some (36, [float_of_int g])
     | Group_remove_unit u g \<Rightarrow> Some (37, [])
     | _ \<Rightarrow> None)"

definition dispatch_raw :: "Engine \<Rightarrow> AICommand \<Rightarrow> dispatch_result option" where
  "dispatch_raw eng cmd =
    (case raw_order cmd of
       None \<Rightarrow> None
     | Some (cmd_id, params) \<Rightarrow> Some (
         if \<not> eng_has_unit eng then refused
         else if (case cmd of Custom h c ps \<Rightarrow> \<not> custom_params_ok c (length ps) | _ \<Rightarrow> False) then refused
         else perform eng (ExecuteCustomCommand cmd_id params (OptionsOf cmd) (TimeoutOf cmd))))"

text \<open>Arms on the game, path-finding and Lua objects.\<close>

definition dispatch_game :: "Engine \<Rightarrow> AICommand \<Rightarrow> dispatch_result option" where
  "dispatch_game eng cmd = (case cmd of
       Send_text_message text zone \<Rightarrow> Some (
         if \<not> eng_has_game eng then refused else perform eng (Game_SendTextMessage (c_str text) zone))
     | Set_last_pos_message p \<Rightarrow> Some (
         if \<not> eng_has_game eng then refused else perform eng (Game_SetLastMessagePosition p))
     | Pause_team enable \<Rightarrow> Some (
         if \<not> eng_has_game eng then refused else perform eng (Game_SetPause enable ''via highbar gRPC''))
     | Init_path p q t r \<Rightarrow> Some (
         if \<not> eng_has_pathing eng then refused else perform eng (Pathing_InitPath p q t r))
     | Get_approx_length p q t r \<Rightarrow> Some (
         if \<not> eng_has_pathing eng then refused else perform eng (Pathing_GetApproximateLength p q t r))
     | Get_next_waypoint path \<Rightarrow> Some (
         if \<not> eng_has_pathing eng then refused else perform eng (Pathing_GetNextWaypoint path))
     | Free_path path \<Rightarrow> Some (
         if \<not> eng_has_pathing eng then refused else perform eng (Pathing_FreePath path))
     | Call_lua_rules d \<Rightarrow> Some (
         if \<not> eng_has_lua eng then refused else perform eng (Lua_CallRules d (int (length d))))
     | Call_lua_ui d \<Rightarrow> Some (
         if \<not> eng_has_lua eng then refused else perform eng (Lua_CallUI d (int (length d))))
     | _ \<Rightarrow> None)"

definition resource_name :: "int \<Rightarrow> string" where
  "resource_name resource_id = (if resource_id = 0 then ''Metal'' else ''Energy'')"

text \<open>Arms that run under cheats.\<close>

definition dispatch_cheat :: "Engine \<Rightarrow> AICommand \<Rightarrow> dispatch_result option" where
  "dispatch_cheat eng cmd = (case cmd of
       Set_my_income_share_direct r share \<Rightarrow>
         Some (with_cheats eng (perform_guarded eng (Cheats_SetMyIncomeMultiplier share)))
     | Set_share_level r level \<Rightarrow>
         Some (with_cheats eng (perform_guarded eng (Cheats_SetMyIncomeMultiplier level)))
     | Give_me_new_unit def_id p \<Rightarrow>
         Some (with_cheats eng (
           if def_id \<le> 0 then refused
           else if \<not> def_safe eng def_id \<or> \<not> eng_def_has_def eng def_id then refused
           else ([Cheats_GiveMeUnit def_id p],
             case eng_give_unit eng of None \<Rightarrow> Some False | Some unit_id \<Rightarrow> Some (0 < unit_id))))
     | Give_me resource_id amount \<Rightarrow>
         Some (with_cheats eng (
           if f_le amount f_zero then refused
           else if \<not> eng_has_callback eng then refused
           else if \<not> eng_resource eng (resource_name resource_id) then refused
           else perform_guarded eng (Cheats_GiveMeResource (resource_name resource_id) amount)))
     | _ \<Rightarrow> None)"

text \<open>Arms on the drawer, its figures, and resource transfer.\<close>

definition dispatch_drawer :: "Engine \<Rightarrow> AICommand \<Rightarrow> dispatch_result option" where
  "dispatch_drawer eng cmd = (case cmd of
       Draw_add_point p label \<Rightarrow> Some (
         if \<not> eng_has_drawer eng then refused else perform eng (Drawer_AddPoint p (c_str label)))
     | Draw_add_line p q \<Rightarrow> Some (
         if \<not> eng_has_drawer eng then refused else perform eng (Drawer_AddLine p q))
     | Draw_remove_point p \<Rightarrow> Some (
         if \<not> eng_has_drawer eng then refused else perform eng (Drawer_DeletePointsAndLines p))
     | Create_spline_figure p1 p2 p3 p4 w arrow life grp \<Rightarrow> Some (
         if \<not> eng_has_drawer eng \<or> \<not> eng_has_figure eng then refused
         else perform eng (Figure_DrawSpline p1 p2 p3 p4 w arrow life grp))
     | Create_line_figure p q w arrow life grp \<Rightarrow> Some (
         if \<not> eng_has_drawer eng \<or> \<not> eng_has_figure eng then refused
         else perform eng (Figure_DrawLine p q w arrow life grp))
     | Set_figure_position f p \<Rightarrow> Some (
         if \<not> eng_has_drawer eng then refused else ([], Some True))
     | Set_figure_color f r g b a \<Rightarrow> Some (
         if \<not> eng_has_drawer eng \<or> \<not> eng_has_figure eng then refused
         else perform eng (Figure_SetColor f (scaled_cast 0 255 r) (scaled_cast 0 255 g)
           (scaled_cast 0 255 b) (scaled_cast (- 32768) 32767 a)))
     | Remove_figure f \<Rightarrow> Some (
         if \<not> eng_has_drawer eng \<or> \<not> eng_has_figure eng then refused
         else perform eng (Figure_Remove f))
     | Draw_unit def_id p rot life team transparent border facing \<Rightarrow> Some (
         if \<not> eng_has_drawer eng then refused
         else if \<not> def_safe eng def_id \<or> \<not> eng_def_has_def eng def_id then refused
         else perform eng (Drawer_DrawUnit def_id p rot life team transparent border facing))
     | _ \<Rightarrow> None)"

definition dispatch_resources :: "Engine \<Rightarrow> AICommand \<Rightarrow> dispatch_result option" where
  "dispatch_resources eng cmd = (case cmd of
       Send_resources resource_id amount team \<Rightarrow> Some (
         if \<not> eng_has_callback eng then refused
         else if \<not> eng_has_economy eng then refused
         else if \<not> eng_resource eng (resource_name resource_id) then refused
         else perform eng (Economy_SendResource (resource_name resource_id) amount team))
     | _ \<Rightarrow> None)"

text \<open>
  The switch: the arms above are disjoint, so the order of the groups is immaterial.  The
  AI pointer and the unit may be null.
\<close>

definition first_group :: "dispatch_result option list \<Rightarrow> dispatch_result" where
  "first_group rs = (case find (\<lambda>r. r \<noteq> None) rs of Some (Some r) \<Rightarrow> r | _ \<Rightarrow> refused)"

definition DispatchCommand :: "bool \<Rightarrow> bool \<Rightarrow> Engine \<Rightarrow> AICommand \<Rightarrow> dispatch_result" where
  "DispatchCommand has_ai has_unit eng cmd =
    (if \<not> has_ai \<or> \<not> has_unit then refused
     else first_group [dispatch_unit eng cmd, dispatch_raw eng cmd, dispatch_game eng cmd,
       dispatch_cheat eng cmd, dispatch_drawer eng cmd, dispatch_resources eng cmd])"

text \<open>The routing helpers of the header.\<close>

definition IsGameWideCommand :: "AICommand \<Rightarrow> bool" where
  "IsGameWideCommand cmd = (case cmd of
       Send_text_message t z \<Rightarrow> True
     | Set_last_pos_message p \<Rightarrow> True
     | Pause_team e \<Rightarrow> True
     | Init_path p q t r \<Rightarrow> True
     | Get_approx_length p q t r \<Rightarrow> True
     | Get_next_waypoint i \<Rightarrow> True
     | Free_path i \<Rightarrow> True
     | Call_lua_rules d \<Rightarrow> True
     | Call_lua_ui d \<Rightarrow> True
     | Set_my_income_share_direct r s \<Rightarrow> True
     | Set_share_level r s \<Rightarrow> True
     | Draw_add_point p l \<Rightarrow> True
     | Draw_add_line p q \<Rightarrow> True
     | Draw_remove_point p \<Rightarrow> True
     | Create_spline_figure p1 p2 p3 p4 w a l g \<Rightarrow> True
     | Create_line_figure p q w a l g \<Rightarrow> True
     | Set_figure_position f p \<Rightarrow> True
     | Set_figure_color f r g b a \<Rightarrow> True
     | Remove_figure f \<Rightarrow> True
     | Draw_unit d p r l t tr b f \<Rightarrow> True
     | Give_me_new_unit d p \<Rightarrow> True
     | Send_resources r a t \<Rightarrow> True
     | Give_me r a \<Rightarrow> True
     | _ \<Rightarrow> False)"

definition EffectiveDispatchTargetUnitId :: "int \<Rightarrow> AICommand \<Rightarrow> int option" where
  "EffectiveDispatchTargetUnitId target cmd =
    (if IsGameWideCommand cmd then Some (- 1) else if target = 0 then None else Some target)"

section \<open>Routing\<close>

lemma first_group_simps [simp]:
  "first_group [] = refused"
  "first_group (None # rs) = first_group rs"
  "first_group (Some r # rs) = r"
  by (simp_all add: first_group_def)

text \<open>
  The validator's and the dispatcher's views of the arms agree.  Every arm that is set
  is either unit-bound for the validator or game-wide for the dispatcher, never both, and
  an unset command is neither; so a unit-bound command of an accepted batch is always
  routed to its batch's target, and a game-wide one never is.
\<close>

theorem unit_bound_xor_game_wide:
  "(cmd \<noteq> COMMAND_NOT_SET \<longleftrightarrow> (TryCommandUnitId cmd \<noteq> None) \<noteq> IsGameWideCommand cmd) \<and>
   \<not> (TryCommandUnitId cmd \<noteq> None \<and> IsGameWideCommand cmd)"
  by (cases cmd) (simp_all add: TryCommandUnitId_def IsGameWideCommand_def)

text \<open>Every set arm has a case of its own in the dispatch switch.\<close>

lemma dispatch_total:
  "cmd \<noteq> COMMAND_NOT_SET \<Longrightarrow>
   \<exists>r \<in> set [dispatch_unit eng cmd, dispatch_raw eng cmd, dispatch_game eng cmd,
       dispatch_cheat eng cmd, dispatch_drawer eng cmd, dispatch_resources eng cmd]. r \<noteq> None"
  by (cases cmd) (simp_all add: dispatch_unit_def dispatch_raw_def raw_order_def dispatch_game_def
      dispatch_cheat_def dispatch_drawer_def dispatch_resources_def Let_def)

section \<open>Cheats\<close>

text \<open>
  The engine's cheat switch along a sequence of calls, for an engine whose answers to enabling and disabling are fixed: a
  call that reports success sets the switch, one that is refused or throws leaves it.
\<close>

fun cheats_after :: "Engine \<Rightarrow> bool \<Rightarrow> EngineCall list \<Rightarrow> bool" where
  "cheats_after eng b [] = b"
| "cheats_after eng b (Cheats_SetEnabled v # calls) =
    cheats_after eng (if (if v then eng_enable_cheats eng else eng_disable_cheats eng) = Some True then v else b) calls"
| "cheats_after eng b (_ # calls) = cheats_after eng b calls"

definition is_cheat_op :: "EngineCall \<Rightarrow> bool" where
  "is_cheat_op call = (case call of
       Cheats_SetMyIncomeMultiplier f \<Rightarrow> True | Cheats_GiveMeUnit d p \<Rightarrow> True
     | Cheats_GiveMeResource n f \<Rightarrow> True | _ \<Rightarrow> False)"

definition is_cheat_call :: "EngineCall \<Rightarrow> bool" where
  "is_cheat_call call \<longleftrightarrow> is_cheat_op call \<or> (\<exists>b. call = Cheats_SetEnabled b)"

text \<open>Every cheat operation of the sequence happens while the switch is on.\<close>

fun cheats_guarded :: "Engine \<Rightarrow> bool \<Rightarrow> EngineCall list \<Rightarrow> bool" where
  "cheats_guarded eng b [] = True"
| "cheats_guarded eng b (call # calls) =
    ((is_cheat_op call \<longrightarrow> b) \<and> cheats_guarded eng (cheats_after eng b [call]) calls)"

lemma single_call:
  "\<not> is_cheat_call call \<Longrightarrow> cheats_after eng b [call] = b \<and> cheats_guarded eng b [call]"
  by (cases call) (simp_all add: is_cheat_call_def is_cheat_op_def)

lemma cheat_op_keeps: "is_cheat_op call \<Longrightarrow> cheats_after eng b (call # calls) = cheats_after eng b calls"
  by (cases call) (simp_all add: is_cheat_op_def)

text \<open>A sequence that switched cheats on ends by switching them off, which leaves them on only if the engine does not comply.\<close>

definition cheats_restored :: "Engine \<Rightarrow> bool \<Rightarrow> EngineCall list \<Rightarrow> bool" where
  "cheats_restored eng b calls \<longleftrightarrow>
    (let switched_on = Cheats_SetEnabled True \<in> set calls \<and> eng_enable_cheats eng = Some True in
     (switched_on \<longrightarrow> \<not> b \<and> last calls = Cheats_SetEnabled False) \<and>
     cheats_after eng b calls = (b \<or> switched_on \<and> eng_disable_cheats eng \<noteq> Some True))"

lemma with_cheats_trace:
  assumes "eng_cheats_enabled eng = Some b" "fst body = [] \<or> (\<exists>op. fst body = [op] \<and> is_cheat_op op)"
  shows "cheats_restored eng b (fst (with_cheats eng body)) \<and>
    cheats_guarded eng b (fst (with_cheats eng body)) \<and> (\<forall>c \<in> set (fst (with_cheats eng body)). is_cheat_call c)"
  using assms
  by (auto simp: cheats_restored_def Let_def with_cheats_def EnsureActive_def refused_def restore_cheats_def is_cheat_call_def
      is_cheat_op_def[of "Cheats_SetEnabled _"] cheat_op_keeps split: option.splits bool.splits)

lemma dispatch_cheat_trace:
  assumes "eng_cheats_enabled eng = Some b" "dispatch_cheat eng cmd = Some r"
  shows "cheats_restored eng b (fst r) \<and> cheats_guarded eng b (fst r) \<and> (\<forall>c \<in> set (fst r). is_cheat_call c)"
proof -
  obtain body where r: "r = with_cheats eng body"
    and body: "fst body = [] \<or> (\<exists>op. fst body = [op] \<and> is_cheat_op op)"
    using assms(2)
    by (cases cmd) (auto simp: dispatch_cheat_def perform_guarded_def refused_def is_cheat_op_def
        split: if_splits)
  show ?thesis
    unfolding r by (rule with_cheats_trace[OF assms(1) body])
qed

text \<open>The other groups make at most one call, and none of the cheats object; a refusal makes none.\<close>

definition plain_result :: "dispatch_result \<Rightarrow> bool" where
  "plain_result r \<longleftrightarrow> (fst r = [] \<or> (\<exists>call. fst r = [call] \<and> \<not> is_cheat_call call)) \<and>
     (snd r = Some False \<longrightarrow> fst r = [])"

lemma plain_simps [simp]:
  "plain_result refused"
  "plain_result (perform eng call) \<longleftrightarrow> \<not> is_cheat_call call"
  by (auto simp: plain_result_def refused_def perform_def)

lemma plain_groups:
  "dispatch_unit eng cmd = Some r \<Longrightarrow> plain_result r"
  "dispatch_raw eng cmd = Some r \<Longrightarrow> plain_result r"
  "dispatch_game eng cmd = Some r \<Longrightarrow> plain_result r"
  "dispatch_drawer eng cmd = Some r \<Longrightarrow> plain_result r"
  "dispatch_resources eng cmd = Some r \<Longrightarrow> plain_result r"
proof -
  have idle: "plain_result ([], Some True)"
    by (simp add: plain_result_def)
  show "dispatch_unit eng cmd = Some r \<Longrightarrow> plain_result r"
    by (cases cmd) (auto simp: dispatch_unit_def Let_def is_cheat_call_def is_cheat_op_def)
  show "dispatch_raw eng cmd = Some r \<Longrightarrow> plain_result r"
    by (auto simp: dispatch_raw_def is_cheat_call_def is_cheat_op_def split: option.splits)
  show "dispatch_game eng cmd = Some r \<Longrightarrow> plain_result r"
    by (cases cmd) (auto simp: dispatch_game_def is_cheat_call_def is_cheat_op_def)
  show "dispatch_drawer eng cmd = Some r \<Longrightarrow> plain_result r"
    using idle by (cases cmd) (auto simp: dispatch_drawer_def is_cheat_call_def is_cheat_op_def)
  show "dispatch_resources eng cmd = Some r \<Longrightarrow> plain_result r"
    by (cases cmd) (auto simp: dispatch_resources_def is_cheat_call_def is_cheat_op_def)
qed

lemma DispatchCommand_cases:
  "dispatch_cheat eng cmd = Some (DispatchCommand has_ai has_unit eng cmd) \<or>
   plain_result (DispatchCommand has_ai has_unit eng cmd)"
  unfolding DispatchCommand_def
  by (cases "dispatch_unit eng cmd"; cases "dispatch_raw eng cmd"; cases "dispatch_game eng cmd";
      cases "dispatch_cheat eng cmd"; cases "dispatch_drawer eng cmd"; cases "dispatch_resources eng cmd")
    (auto dest: plain_groups)

text \<open>
  C18: Dispatch leaves the cheat switch as it found it, unless the engine does not let it.  For every command: a
  dispatch that switched cheats on found them off and makes switching them off its last call; the switch after the
  dispatch equals the switch before it, except that cheats stay on when they were switched on and the engine then refuses to
  switch them off or throws, which nobody is told.  Every cheat operation happens while the switch is on, and a dispatch that
  reports failure has made no engine call other than calls of the cheats object.
\<close>

theorem DispatchCommand_restores_cheats:
  fixes has_ai has_unit :: bool and cmd :: AICommand
  assumes "eng_cheats_enabled eng = Some b"
  defines "r \<equiv> DispatchCommand has_ai has_unit eng cmd"
  defines "switched_on \<equiv> Cheats_SetEnabled True \<in> set (fst r) \<and> eng_enable_cheats eng = Some True"
  shows "(switched_on \<longrightarrow> \<not> b \<and> last (fst r) = Cheats_SetEnabled False) \<and>
    cheats_after eng b (fst r) = (b \<or> switched_on \<and> eng_disable_cheats eng \<noteq> Some True) \<and>
    cheats_guarded eng b (fst r) \<and>
    (snd r = Some False \<longrightarrow> (\<forall>c \<in> set (fst r). is_cheat_call c))"
proof (cases "dispatch_cheat eng cmd = Some r")
  case True
  then show ?thesis
    using dispatch_cheat_trace[OF assms(1) True] by (auto simp: cheats_restored_def switched_on_def Let_def)
next
  case False
  then have "plain_result r"
    using DispatchCommand_cases[of eng cmd has_ai has_unit] by (simp add: r_def)
  then show ?thesis
    using single_call[of _ eng b] by (auto simp: plain_result_def is_cheat_call_def switched_on_def)
qed

text \<open>An engine on which everything exists and cheats are off, for the concrete instances.\<close>

definition sample_engine :: Engine where
  "sample_engine = \<lparr> eng_has_unit = True, eng_friendly_unit = (\<lambda>_. True), eng_def_count = 3,
     eng_def_has_def = (\<lambda>_. True), eng_has_game = True, eng_has_pathing = True, eng_has_lua = True,
     eng_has_drawer = True, eng_has_figure = True, eng_has_cheats = True, eng_has_callback = True,
     eng_has_economy = True, eng_resource = (\<lambda>_. True), eng_cheats_enabled = Some False,
     eng_enable_cheats = Some True, eng_disable_cheats = Some True, eng_give_unit = Some 12, eng_throws = (\<lambda>_. False) \<rparr>"

text \<open>The same engine, except that switching cheats off throws.\<close>

definition stubborn_engine :: Engine where
  "stubborn_engine = sample_engine\<lparr>eng_disable_cheats := None\<rparr>"

theorem DispatchCommand_restores_cheats_witness:
  "fst (DispatchCommand True True sample_engine (Give_me 0 (Fin 5 0))) =
     [Cheats_SetEnabled True, Cheats_GiveMeResource ''Metal'' (Fin 5 0), Cheats_SetEnabled False] \<and>
   cheats_after sample_engine False (fst (DispatchCommand True True sample_engine (Give_me 0 (Fin 5 0)))) = False \<and>
   cheats_after stubborn_engine False (fst (DispatchCommand True True stubborn_engine (Give_me 0 (Fin 5 0)))) = True"
proof -
  have calls: "fst (DispatchCommand True True sample_engine (Give_me 0 (Fin 5 0))) =
      [Cheats_SetEnabled True, Cheats_GiveMeResource ''Metal'' (Fin 5 0), Cheats_SetEnabled False]"
    "fst (DispatchCommand True True stubborn_engine (Give_me 0 (Fin 5 0))) =
      [Cheats_SetEnabled True, Cheats_GiveMeResource ''Metal'' (Fin 5 0), Cheats_SetEnabled False]"
    by code_simp+
  have off: "eng_cheats_enabled sample_engine = Some False" "eng_cheats_enabled stubborn_engine = Some False"
    by (simp_all add: sample_engine_def stubborn_engine_def)
  have engines: "eng_enable_cheats sample_engine = Some True" "eng_disable_cheats sample_engine = Some True"
      "eng_enable_cheats stubborn_engine = Some True" "eng_disable_cheats stubborn_engine = None"
    by (simp_all add: sample_engine_def stubborn_engine_def)
  show ?thesis
    using DispatchCommand_restores_cheats[OF off(1), of True True "Give_me 0 (Fin 5 0)"]
      DispatchCommand_restores_cheats[OF off(2), of True True "Give_me 0 (Fin 5 0)"] calls engines by simp
qed

section \<open>Options\<close>

lemma short_of_small:
  assumes "w < 8"
  shows "short_of w = uint w"
proof -
  have u: "uint w < 8"
    using assms by (simp add: word_less_def)
  have "uint (ucast w :: 16 word) = uint w"
    using u by (simp add: unsigned_ucast_eq take_bit_int_eq_self)
  moreover have "signed_take_bit 15 (uint w) = uint w"
    using u signed_take_bit_int_eq_self[of 15 "uint w"] order_trans[OF _ uint_ge_0[of w], of "- (2 ^ 15)"]
    by simp
  ultimately show ?thesis
    by (simp add: short_of_def sint_uint)
qed

text \<open>
  For the advertised arms, an accepted command reaches the engine with the options the
  client sent.  If validation accepts a command whose arm the capability schema lists,
  the dispatcher's 16-bit options equal the command's 32-bit options field.
\<close>

theorem advertised_options_forwarded:
  assumes "command_ok settings ai maxx maxz target cmd" "IsSupportedCommandArm (CommandArmName cmd)"
  shows "OptionsOf cmd = uint (CommandOptionsOf cmd)"
proof -
  have small: "CommandOptionsOf cmd < 8"
    using assms by (simp add: command_ok_def)
  have name: "IsSupportedCommandArm (CommandArmName cmd)"
    by (rule assms(2))
  have "OptionsOf cmd = short_of (CommandOptionsOf cmd)"
    using name by (cases cmd)
      (simp_all add: OptionsOf_def CommandOptionsOf_def CommandArmName_def IsSupportedCommandArm_def
        kSupportedUnitArms_def)
  then show ?thesis
    using short_of_small[OF small] by simp
qed

theorem advertised_options_forwarded_witness:
  "OptionsOf (sample_move 7 4) = uint (CommandOptionsOf (sample_move 7 4)) \<and>
   CommandOptionsOf (sample_move 7 4) = 1"
proof -
  have ok: "command_ok default_settings (Some sample_ai) (Fin 64 0) (Fin 64 0) 7 (sample_move 7 4)"
    by (simp add: command_ok_def sample_move_def PositionOf_def InMapExtents_def scaled_def f_zero_def
        TryCommandUnitId_def default_settings_def CommandOptionsOf_def)
  have arm: "IsSupportedCommandArm (CommandArmName (sample_move 7 4))"
    by (simp add: IsSupportedCommandArm_def CommandArmName_def sample_move_def kSupportedUnitArms_def)
  show ?thesis
    using advertised_options_forwarded[OF ok arm] by (simp add: sample_move_def CommandOptionsOf_def)
qed

text \<open>
  The other unit arms that carry options lose them: the dispatcher's table has no entry
  for them, so the engine always receives options 0 and no time-out.
\<close>

lemma options_dropped:
  "cmd \<in> {Capture h t, Squad_wait h n, Death_wait h u, Gather_wait h, Restore_area h p r, Resurrect h f,
     Capture_area h p r, Set_base h p, Load_units h us, Load_units_area h p r, Load_onto h u, Unload_unit h p u,
     Unload_units_area h p r, Stockpile h, Custom h c ps, Set_on_off h b, Set_repeat h b, Set_trajectory h v,
     Set_auto_repair_level h v, Set_idle_mode h v} \<Longrightarrow>
   CommandOptionsOf cmd = uh_options h \<and> OptionsOf cmd = 0 \<and> TimeoutOf cmd = 2147483647"
  by (auto simp: CommandOptionsOf_def OptionsOf_def TimeoutOf_def)

end
