(* ===== verification/Snapshot_Tick.thy ===== *)
theory Snapshot_Tick
  imports Prelude
begin

text \<open>
  The snapshot scheduler (grpc/SnapshotTick.h, grpc/SnapshotTick.cpp), on 32-bit frame
  numbers.  The lemmas show the periodic emission of the steady state, the doubling
  under load up to the cap, and that requests coalesce.
\<close>

section \<open>Model\<close>

record SnapshotTick =
  st_cadence_frames :: u32
  st_max_units :: u32
  st_effective_cadence_frames :: u32
  st_next_snapshot_frame :: u32
  st_configured :: bool
  st_pending_request :: bool

record SnapshotPumpResult =
  pr_emit :: bool
  pr_effective_cadence_frames :: u32
  pr_forced :: bool

definition kMaxEffectiveCadenceFrames :: u32 where
  "kMaxEffectiveCadenceFrames = 1024"

definition SnapshotTick_default :: SnapshotTick where
  "SnapshotTick_default = \<lparr> st_cadence_frames = 30, st_max_units = 1000, st_effective_cadence_frames = 30,
     st_next_snapshot_frame = 30, st_configured = False, st_pending_request = False \<rparr>"

definition SnapshotTick_Configure :: "u32 \<Rightarrow> u32 \<Rightarrow> SnapshotTick \<Rightarrow> SnapshotTick" where
  "SnapshotTick_Configure cadence max_units t = t
     \<lparr> st_cadence_frames := cadence, st_max_units := max_units,
       st_effective_cadence_frames := cadence, st_next_snapshot_frame := cadence, st_configured := True \<rparr>"

text \<open>The worker side of \<open>RequestSnapshot\<close>: an atomic exchange to true.\<close>

definition SnapshotTick_request :: "SnapshotTick \<Rightarrow> SnapshotTick \<times> bool" where
  "SnapshotTick_request t = (t \<lparr> st_pending_request := True \<rparr>, st_pending_request t)"

definition doubled_cadence :: "u32 \<Rightarrow> u32" where
  "doubled_cadence eff =
    (let d = eff * 2;
         d = (if d < eff then kMaxEffectiveCadenceFrames else d)
     in if d > kMaxEffectiveCadenceFrames then kMaxEffectiveCadenceFrames else d)"

definition SnapshotTick_Pump :: "u32 \<Rightarrow> nat \<Rightarrow> SnapshotTick \<Rightarrow> SnapshotPumpResult \<times> SnapshotTick" where
  "SnapshotTick_Pump frame own_units_count t =
    (let forced = st_pending_request t;
         t1 = t \<lparr> st_pending_request := False \<rparr>;
         cadence_due = (frame \<ge> st_next_snapshot_frame t1) in
     if \<not> forced \<and> \<not> cadence_due
       then (\<lparr> pr_emit = False, pr_effective_cadence_frames = 0, pr_forced = False \<rparr>, t1)
     else let eff = st_effective_cadence_frames t1;
              eff' = (if own_units_count > unat (st_max_units t1) then doubled_cadence eff
                      else if eff > st_cadence_frames t1 then st_cadence_frames t1
                      else eff)
          in (\<lparr> pr_emit = True, pr_effective_cadence_frames = eff, pr_forced = forced \<rparr>,
              t1 \<lparr> st_effective_cadence_frames := eff', st_next_snapshot_frame := frame + eff' \<rparr>))"

text \<open>
  Pumping frames 1 to \<open>n\<close>, as the engine does once per frame: the state and the emissions
  with their stamped cadence.
\<close>

primrec pump_run :: "(nat \<Rightarrow> nat) \<Rightarrow> nat \<Rightarrow> SnapshotTick \<Rightarrow> SnapshotTick \<times> (nat \<times> u32) list" where
  "pump_run units 0 t = (t, [])"
| "pump_run units (Suc n) t =
    (case pump_run units n t of (t1, es) \<Rightarrow>
      case SnapshotTick_Pump (of_nat (Suc n)) (units (Suc n)) t1 of (r, t2) \<Rightarrow>
        (t2, if pr_emit r then es @ [(Suc n, pr_effective_cadence_frames r)] else es))"

section \<open>The cadence stays in range\<close>

definition tick_wf :: "SnapshotTick \<Rightarrow> bool" where
  "tick_wf t \<longleftrightarrow> 1 \<le> st_cadence_frames t \<and> st_cadence_frames t \<le> st_effective_cadence_frames t \<and>
     st_effective_cadence_frames t \<le> 1024"

lemma doubled_cadence_nat:
  "eff \<le> 1024 \<Longrightarrow> unat (doubled_cadence eff) = min 1024 (2 * unat eff)"
proof -
  assume le: "eff \<le> 1024"
  then have "unat eff \<le> 1024"
    by (simp add: word_le_nat_alt)
  then have "unat (eff * 2) = 2 * unat eff"
    by (simp add: unat_word_ariths(2))
  then show ?thesis
    by (auto simp: doubled_cadence_def kMaxEffectiveCadenceFrames_def Let_def word_less_nat_alt min_def)
qed

lemma doubled_cadence_fixed:
  assumes "1 \<le> eff" "eff \<le> 1024"
  shows "doubled_cadence eff = eff \<longleftrightarrow> eff = 1024"
proof -
  have "doubled_cadence eff = eff \<longleftrightarrow> min 1024 (2 * unat eff) = unat eff"
    using doubled_cadence_nat[OF assms(2)] by (metis word_unat_eq_iff)
  moreover have "eff = 1024 \<longleftrightarrow> unat eff = 1024"
    by (simp add: word_unat_eq_iff)
  moreover have "1 \<le> unat eff" "unat eff \<le> 1024"
    using assms by (simp_all add: word_le_nat_alt)
  ultimately show ?thesis by (simp add: min_def)
qed

lemma Configure_wf [wf_intros]:
  "1 \<le> c \<Longrightarrow> c \<le> 1024 \<Longrightarrow> tick_wf (SnapshotTick_Configure c m t)"
  by (simp add: tick_wf_def SnapshotTick_Configure_def)

lemma Pump_wf [wf_intros]:
  assumes "tick_wf t" "SnapshotTick_Pump frame n t = (r, t')"
  shows "tick_wf t' \<and> st_pending_request t' = False \<and> st_cadence_frames t' = st_cadence_frames t \<and>
    st_max_units t' = st_max_units t"
proof -
  have "st_cadence_frames t \<le> doubled_cadence (st_effective_cadence_frames t) \<and>
      doubled_cadence (st_effective_cadence_frames t) \<le> 1024"
    using assms(1) doubled_cadence_nat[of "st_effective_cadence_frames t"]
    by (simp add: tick_wf_def word_le_nat_alt)
  then show ?thesis
    using assms by (auto simp: SnapshotTick_Pump_def tick_wf_def Let_def split: if_splits)
qed

text \<open>
  C21: The effective cadence is always between the configured cadence and 1024 frames, and what an emission announces.
  From a configuration within the range the loader enforces, every pump keeps the
  invariant, stamps an emission with a cadence in that range, clears the request flag,
  and emits whenever a request was pending: however many requests arrived since the
  last frame, one forced snapshot answers them all.  The next periodic emission is due after the cadence as updated for
  the load.  So the rule given to clients, frame number plus stamped cadence, is right exactly when the emission leaves the cadence
  as it is: under the unit cap at the configured cadence, or over it at 1024 frames.
\<close>

theorem SnapshotTick_Pump_bounds:
  assumes "tick_wf t" "SnapshotTick_Pump frame n t = (r, t')"
  shows "tick_wf t' \<and> \<not> st_pending_request t' \<and>
    (pr_emit r \<longrightarrow> st_cadence_frames t \<le> pr_effective_cadence_frames r \<and> pr_effective_cadence_frames r \<le> 1024 \<and>
       st_next_snapshot_frame t' = frame + st_effective_cadence_frames t' \<and>
       (st_next_snapshot_frame t' = frame + pr_effective_cadence_frames r \<longleftrightarrow>
          pr_effective_cadence_frames r = (if unat (st_max_units t) < n then 1024 else st_cadence_frames t))) \<and>
    (pr_emit r \<longleftrightarrow> st_pending_request t \<or> st_next_snapshot_frame t \<le> frame) \<and>
    (pr_forced r \<longleftrightarrow> st_pending_request t) \<and>
    SnapshotTick_Pump frame n (fst (SnapshotTick_request (fst (SnapshotTick_request t)))) =
      SnapshotTick_Pump frame n (fst (SnapshotTick_request t))"
proof -
  have "doubled_cadence (st_effective_cadence_frames t) = st_effective_cadence_frames t \<longleftrightarrow>
      st_effective_cadence_frames t = 1024"
    using assms(1) doubled_cadence_fixed by (auto simp: tick_wf_def)
  then show ?thesis
    using assms(2) Pump_wf[OF assms] assms(1)
    by (auto simp: SnapshotTick_Pump_def SnapshotTick_request_def tick_wf_def Let_def split: if_splits)
qed

theorem SnapshotTick_Pump_bounds_witness:
  "tick_wf (snd (SnapshotTick_Pump 30 5000 (SnapshotTick_Configure 30 1000 SnapshotTick_default))) \<and>
   pr_emit (fst (SnapshotTick_Pump 30 5000 (SnapshotTick_Configure 30 1000 SnapshotTick_default))) \<and>
   st_next_snapshot_frame (snd (SnapshotTick_Pump 30 5000 (SnapshotTick_Configure 30 1000 SnapshotTick_default))) \<noteq>
     30 + pr_effective_cadence_frames (fst (SnapshotTick_Pump 30 5000 (SnapshotTick_Configure 30 1000 SnapshotTick_default)))"
proof -
  let ?t = "SnapshotTick_Configure 30 1000 SnapshotTick_default"
  let ?p = "SnapshotTick_Pump 30 5000 ?t"
  have wf: "tick_wf ?t"
    by (rule Configure_wf) simp_all
  have "?p = (fst ?p, snd ?p)" by simp
  moreover have "st_next_snapshot_frame ?t = 30" "unat (st_max_units ?t) = 1000" "pr_effective_cadence_frames (fst ?p) = 30"
    by code_simp+
  ultimately show ?thesis
    using SnapshotTick_Pump_bounds[OF wf, of 30 5000 "fst ?p" "snd ?p"] by auto
qed

section \<open>Steady state and load\<close>

lemma unat_of_small: "k < 4294967296 \<Longrightarrow> unat (of_nat k :: u32) = k"
  by (rule unat_of_nat_lt) simp

definition steady :: "nat \<Rightarrow> nat \<Rightarrow> SnapshotTick \<Rightarrow> bool" where
  "steady c f t \<longleftrightarrow> \<not> st_pending_request t \<and> st_cadence_frames t = of_nat c \<and>
     st_effective_cadence_frames t = of_nat c \<and> st_next_snapshot_frame t = of_nat (c * (f div c + 1))"

lemma steady_pump:
  assumes "steady c f t" "1 \<le> c" "c \<le> 1024" "Suc f + 2048 < 4294967296" "u \<le> unat (st_max_units t)"
    and "SnapshotTick_Pump (of_nat (Suc f)) u t = (r, t')"
  shows "steady c (Suc f) t' \<and> st_max_units t' = st_max_units t \<and> (pr_emit r \<longleftrightarrow> c dvd Suc f) \<and>
    (pr_emit r \<longrightarrow> pr_effective_cadence_frames r = of_nat c)"
proof -
  have lt: "c * (f div c + 1) < 4294967296" "Suc f + c < 4294967296"
  proof -
    have "c * (f div c) \<le> f"
      by (rule times_div_less_eq_dividend)
    then show "c * (f div c + 1) < 4294967296" "Suc f + c < 4294967296"
      unfolding distrib_left using assms(3,4) by linarith+
  qed
  have f: "Suc f = c * (f div c) + Suc (f mod c)" and r: "f mod c < c"
    using assms(2) by simp_all
  have due: "st_next_snapshot_frame t \<le> of_nat (Suc f) \<longleftrightarrow> c dvd Suc f"
  proof -
    have "st_next_snapshot_frame t \<le> of_nat (Suc f) \<longleftrightarrow> c * (f div c + 1) \<le> Suc f"
      using assms(1,4) lt by (simp only: steady_def word_le_nat_alt unat_of_small)
    also have "\<dots> \<longleftrightarrow> Suc (f mod c) = c"
      unfolding distrib_left using f r by (intro iffI) linarith+
    also have "\<dots> \<longleftrightarrow> c dvd Suc f"
      using assms(2) mod_Suc[of f c] by (auto simp: dvd_eq_mod_eq_0)
    finally show ?thesis .
  qed
  have next_frame: "1 + of_nat f = (of_nat c * of_nat (Suc f div c) :: u32)" if "c dvd Suc f"
    using arg_cong[where f="of_nat :: nat \<Rightarrow> u32", OF dvd_mult_div_cancel[OF that]] by simp
  have same: "Suc f div c = f div c" if "\<not> c dvd Suc f"
    using that assms(2) by (metis div_Suc dvd_eq_mod_eq_0)
  show ?thesis
    using assms(1,5,6) due next_frame same
    by (auto simp: steady_def SnapshotTick_Pump_def Let_def split: if_splits)
qed

lemma pump_run_steady:
  assumes "1 \<le> c" "c \<le> 1024" "\<And>i. units i \<le> unat m"
  shows "n + 2048 < 4294967296 \<Longrightarrow>
    \<exists>t'. pump_run units n (SnapshotTick_Configure (of_nat c) m SnapshotTick_default) =
      (t', map (\<lambda>f. (f, of_nat c)) (filter (\<lambda>f. c dvd f) [1..<Suc n])) \<and> steady c n t' \<and> st_max_units t' = m"
proof (induction n)
  case 0
  then show ?case
    by (simp add: steady_def SnapshotTick_Configure_def SnapshotTick_default_def)
next
  case (Suc n)
  then obtain t' where t': "pump_run units n (SnapshotTick_Configure (of_nat c) m SnapshotTick_default) =
      (t', map (\<lambda>f. (f, of_nat c)) (filter (\<lambda>f. c dvd f) [1..<Suc n]))" "steady c n t'" "st_max_units t' = m"
    by auto
  obtain r t'' where p: "SnapshotTick_Pump (of_nat (Suc n)) (units (Suc n)) t' = (r, t'')"
    by (cases "SnapshotTick_Pump (of_nat (Suc n)) (units (Suc n)) t'")
  have "steady c (Suc n) t'' \<and> st_max_units t'' = m \<and> (pr_emit r \<longleftrightarrow> c dvd Suc n) \<and>
      (pr_emit r \<longrightarrow> pr_effective_cadence_frames r = of_nat c)"
    using steady_pump[OF t'(2) assms(1,2) _ _ p] Suc.prems assms(3) t'(3) by simp
  then show ?case
    using t'(1) p by auto
qed

text \<open>
  In the steady state the scheduler is exactly periodic.  With the unit count
  within the limit and no requests, pumping frames 1, 2, ... from a fresh
  configuration emits at precisely the multiples of the configured cadence, each
  stamped with that cadence.
\<close>

theorem SnapshotTick_periodic:
  assumes "1 \<le> c" "c \<le> 1024" "\<forall>i. units i \<le> unat m" "n + 2048 < 2 ^ 32"
  shows "snd (pump_run units n (SnapshotTick_Configure (of_nat c) m SnapshotTick_default)) =
    map (\<lambda>f. (f, of_nat c)) (filter (\<lambda>f. c dvd f) [1..<Suc n])"
  using pump_run_steady[of c units m n] assms by auto

theorem SnapshotTick_periodic_witness:
  "map fst (snd (pump_run (\<lambda>_. 10) 7 (SnapshotTick_Configure 3 1000 SnapshotTick_default))) = [3, 6]"
proof -
  have "filter (\<lambda>f. 3 dvd f) [1..<Suc 7] = [3, 6 :: nat]"
    by code_simp
  then show ?thesis
    using SnapshotTick_periodic[of 3 "\<lambda>_. 10" 1000 7] by simp
qed

text \<open>The stamps of consecutive emissions under sustained load, for any sequence of frames and requests.\<close>

primrec overload_run :: "nat \<Rightarrow> (u32 \<times> bool) list \<Rightarrow> SnapshotTick \<Rightarrow> u32 list" where
  "overload_run units [] t = []"
| "overload_run units (x # xs) t =
    (case SnapshotTick_Pump (fst x) units (if snd x then fst (SnapshotTick_request t) else t) of (r, t') \<Rightarrow>
       (if pr_emit r then pr_effective_cadence_frames r # overload_run units xs t' else overload_run units xs t'))"

lemma min_double: "min 1024 (min 1024 (2 * e) * 2 ^ k) = min 1024 (e * 2 ^ Suc k :: nat)"
proof (cases "2 * e \<le> 1024")
  case False
  then have "512 * 1 \<le> e * (2 ^ k :: nat)"
    by (intro mult_le_mono) simp_all
  with False show ?thesis by (simp add: min_def)
qed (simp add: mult.assoc)

lemma overload_stamps:
  assumes "st_effective_cadence_frames t \<le> 1024" "unat (st_max_units t) < units"
  shows "map unat (overload_run units xs t) =
    map (\<lambda>k. min 1024 (unat (st_effective_cadence_frames t) * 2 ^ k)) [0..<length (overload_run units xs t)]"
  using assms
proof (induction xs arbitrary: t)
  case Nil
  then show ?case by simp
next
  case (Cons x xs)
  define s where "s = (if snd x then fst (SnapshotTick_request t) else t)"
  obtain r t' where p: "SnapshotTick_Pump (fst x) units s = (r, t')"
    by (cases "SnapshotTick_Pump (fst x) units s")
  have s: "st_effective_cadence_frames s = st_effective_cadence_frames t" "st_max_units s = st_max_units t"
    by (simp_all add: s_def SnapshotTick_request_def)
  let ?e = "unat (st_effective_cadence_frames t)"
  have le: "?e \<le> 1024"
    using Cons.prems(1) by (simp add: word_le_nat_alt)
  have max: "st_max_units t' = st_max_units t"
    using p s by (auto simp: SnapshotTick_Pump_def Let_def split: if_splits)
  show ?case
  proof (cases "pr_emit r")
    case False
    then have "st_effective_cadence_frames t' = st_effective_cadence_frames t"
      using p s by (auto simp: SnapshotTick_Pump_def Let_def split: if_splits)
    then show ?thesis
      using Cons.IH[of t'] Cons.prems max False p by (simp add: s_def[symmetric])
  next
    case True
    then have r: "pr_effective_cadence_frames r = st_effective_cadence_frames t"
      and e': "st_effective_cadence_frames t' = doubled_cadence (st_effective_cadence_frames t)"
      using p s Cons.prems(2) by (auto simp: SnapshotTick_Pump_def Let_def split: if_splits)
    have d: "unat (st_effective_cadence_frames t') = min 1024 (2 * ?e)"
      unfolding e' using Cons.prems(1) by (rule doubled_cadence_nat)
    then have "map unat (overload_run units xs t') =
        map (\<lambda>k. min 1024 (min 1024 (2 * ?e) * 2 ^ k)) [0..<length (overload_run units xs t')]"
      using Cons.IH[of t'] Cons.prems(2) max by (simp add: word_le_nat_alt)
    also have "\<dots> = map (\<lambda>k. min 1024 (?e * 2 ^ Suc k)) [0..<length (overload_run units xs t')]"
      by (rule map_cong[OF refl]) (rule min_double)
    finally show ?thesis
      using p True r le by (simp add: s_def[symmetric] map_upt_Suc del: upt_Suc)
  qed
qed

text \<open>
  Under sustained overload the stamped cadence doubles with every emission and then
  stays at 1024: whatever the frame numbers and requests, the \<open>k\<close>-th emission while the
  unit count exceeds the limit is stamped \<open>min 1024 (c * 2 ^ k)\<close>.
\<close>

theorem SnapshotTick_overload_doubles:
  fixes xs :: "(u32 \<times> bool) list"
  assumes "c \<le> 1024" "unat m < units"
  defines "stamps \<equiv> overload_run units xs (SnapshotTick_Configure c m SnapshotTick_default)"
  shows "map unat stamps = map (\<lambda>k. min 1024 (unat c * 2 ^ k)) [0..<length stamps]"
  using overload_stamps[of "SnapshotTick_Configure c m SnapshotTick_default" units xs] assms
  by (simp add: SnapshotTick_Configure_def)

theorem SnapshotTick_overload_doubles_witness:
  "map unat (overload_run 5000 [(30, True), (31, True), (32, True)]
     (SnapshotTick_Configure 300 1000 SnapshotTick_default)) = [300, 600, 1024]"
proof -
  have "length (overload_run 5000 [(30, True), (31, True), (32, True)]
     (SnapshotTick_Configure 300 1000 SnapshotTick_default)) = 3"
    by code_simp
  then show ?thesis
    using SnapshotTick_overload_doubles[of 300 1000 5000 "[(30, True), (31, True), (32, True)]"]
    by (simp add: numeral_3_eq_3)
qed

end
