(* ===== verification/Admin_Controller.thy ===== *)
theory Admin_Controller
  imports Command_Batch
begin

text \<open>
  Administrative control (grpc/AdminController.h, grpc/AdminController.cpp): validation,
  execution with leases, expiry and the audit log.  Texts that only inform the operator
  (issue details) are not represented; the names of roles and results in the audit log
  are represented by the values they name.
\<close>

section \<open>Messages\<close>

datatype AdminRole = ADMIN_ROLE_UNSPECIFIED | ADMIN_ROLE_AI | ADMIN_ROLE_OBSERVER | ADMIN_ROLE_OPERATOR
  | ADMIN_ROLE_ADMIN | ADMIN_ROLE_TEST_HARNESS

datatype AdminConflictPolicy = ADMIN_CONFLICT_POLICY_UNSPECIFIED | ADMIN_CONFLICT_REJECT_IF_CONTROLLED
  | ADMIN_CONFLICT_HEARTBEAT_EXISTING_LEASE | ADMIN_CONFLICT_RELEASE_EXISTING_LEASE

datatype AdminActionStatus = ADMIN_ACTION_STATUS_UNSPECIFIED | ADMIN_ACTION_ACCEPTED | ADMIN_ACTION_EXECUTED
  | ADMIN_ACTION_REJECTED_PERMISSION_DENIED | ADMIN_ACTION_REJECTED_DISABLED
  | ADMIN_ACTION_REJECTED_RUN_MODE | ADMIN_ACTION_REJECTED_STALE | ADMIN_ACTION_REJECTED_CONFLICT
  | ADMIN_ACTION_REJECTED_INVALID_TARGET | ADMIN_ACTION_REJECTED_INVALID_VALUE | ADMIN_ACTION_NOT_DISPATCHED

datatype AdminIssueCode = ADMIN_ISSUE_CODE_UNSPECIFIED | ADMIN_PERMISSION_DENIED | ADMIN_ACTION_DISABLED
  | ADMIN_RUN_MODE_FORBIDS_CHEATS | ADMIN_STALE_SNAPSHOT_EPOCH | ADMIN_CONTROL_CONFLICT
  | ADMIN_INVALID_SPEED | ADMIN_INVALID_SPEED_RANGE | ADMIN_INVALID_RESOURCE | ADMIN_INVALID_AMOUNT
  | ADMIN_UNKNOWN_UNIT_DEF | ADMIN_POSITION_OUT_OF_MAP | ADMIN_INVALID_TEAM | ADMIN_ENGINE_NOT_READY
  | ADMIN_ISSUE_ACTION_NOT_DISPATCHED | ADMIN_UNKNOWN_UNIT | ADMIN_UNIT_OWNER_MISMATCH

datatype AdminActionCase =
    ACTION_NOT_SET
  | Pause bool
  | Global_speed proto_float
  | Cheat_policy bool
  | Resource_grant int int proto_float
  | Unit_spawn int int Vector3 int
  | Lifecycle string
  | Unit_transfer int int int bool

record AdminAction =
  aa_action_seq :: u64
  aa_client_action_id :: u64
  aa_based_on_frame :: u32
  aa_based_on_state_seq :: u64
  aa_conflict_policy :: AdminConflictPolicy
  aa_reason :: string
  aa_action :: AdminActionCase

record AdminLease =
  al_control :: string
  al_owner_client_id :: string
  al_owner_role :: AdminRole
  al_acquired_frame :: u32
  al_last_heartbeat_frame :: u32
  al_expires_frame :: u32

definition AdminLease_default :: AdminLease where
  "AdminLease_default = \<lparr> al_control = [], al_owner_client_id = [], al_owner_role = ADMIN_ROLE_UNSPECIFIED,
     al_acquired_frame = 0, al_last_heartbeat_frame = 0, al_expires_frame = 0 \<rparr>"

record AdminActionResult =
  ar_action_seq :: u64
  ar_client_action_id :: u64
  ar_status :: AdminActionStatus
  ar_issues :: "(AdminIssueCode \<times> string \<times> RetryHint) list"
  ar_lease :: "AdminLease option"
  ar_frame :: u32
  ar_state_seq :: u64
  ar_dry_run :: bool

record AdminAuditEvent =
  ae_event_id :: u64
  ae_caller_identity :: string
  ae_role :: AdminRole
  ae_action_type :: string
  ae_frame :: u32
  ae_state_seq :: u64
  ae_result :: AdminActionStatus
  ae_reason :: string
  ae_lease_control :: string
  ae_run_mode :: string

record AdminCaller =
  ac_identity :: string
  ac_role :: AdminRole

record AdminSettings =
  as_enabled :: bool
  as_cheats_allowed :: bool
  as_unit_transfer_enabled :: bool
  as_headless_fixture :: bool
  as_lease_ttl_frames :: u32
  as_min_speed :: proto_float
  as_max_speed :: proto_float
  as_map_min_x :: proto_float
  as_map_min_z :: proto_float
  as_map_max_x :: proto_float
  as_map_max_z :: proto_float
  as_valid_team_ids :: "int list"
  as_valid_resource_ids :: "int list"
  as_valid_unit_def_ids :: "int list"
  as_live_unit_owners :: "(int \<times> int) list"

text \<open>The default settings; 0.1 rounds to the float 13421773 / 2 ^ 27.\<close>

definition AdminSettings_default :: AdminSettings where
  "AdminSettings_default = \<lparr> as_enabled = True, as_cheats_allowed = False, as_unit_transfer_enabled = True,
     as_headless_fixture = False, as_lease_ttl_frames = 90, as_min_speed = Fin 13421773 (- 27),
     as_max_speed = Fin 10 0, as_map_min_x = f_zero, as_map_min_z = f_zero, as_map_max_x = f_zero,
     as_map_max_z = f_zero, as_valid_team_ids = [], as_valid_resource_ids = [],
     as_valid_unit_def_ids = [], as_live_unit_owners = [] \<rparr>"

section \<open>Model\<close>

record AdminController =
  adm_settings :: AdminSettings
  adm_leases :: "string \<Rightarrow> AdminLease option"
  adm_audit_log :: "AdminAuditEvent list"
  adm_next_audit_id :: u64

definition AdminController_new :: "AdminSettings \<Rightarrow> AdminController" where
  "AdminController_new settings = \<lparr> adm_settings = settings, adm_leases = (\<lambda>_. None),
     adm_audit_log = [], adm_next_audit_id = 1 \<rparr>"

definition RoleCanExecute :: "AdminRole \<Rightarrow> bool" where
  "RoleCanExecute role \<longleftrightarrow>
     role = ADMIN_ROLE_OPERATOR \<or> role = ADMIN_ROLE_ADMIN \<or> role = ADMIN_ROLE_TEST_HARNESS"

definition HasFixtureTeams :: "AdminSettings \<Rightarrow> bool" where
  "HasFixtureTeams s \<longleftrightarrow> as_valid_team_ids s \<noteq> []"

definition HasMapExtents :: "AdminSettings \<Rightarrow> bool" where
  "HasMapExtents s \<longleftrightarrow> f_less (as_map_min_x s) (as_map_max_x s) \<and> f_less (as_map_min_z s) (as_map_max_z s)"

definition IsValidTeam :: "AdminSettings \<Rightarrow> int \<Rightarrow> bool" where
  "IsValidTeam s team_id =
    (if \<not> HasFixtureTeams s then 0 \<le> team_id else List.member (as_valid_team_ids s) team_id)"

definition IsValidResource :: "AdminSettings \<Rightarrow> int \<Rightarrow> bool" where
  "IsValidResource s resource_id =
    (if as_valid_resource_ids s = [] then resource_id = 0 \<or> resource_id = 1
     else List.member (as_valid_resource_ids s) resource_id)"

definition IsValidUnitDef :: "AdminSettings \<Rightarrow> int \<Rightarrow> bool" where
  "IsValidUnitDef s unit_def_id =
    (if as_valid_unit_def_ids s = [] then 0 < unit_def_id
     else List.member (as_valid_unit_def_ids s) unit_def_id)"

definition IsWithinMap :: "AdminSettings \<Rightarrow> Vector3 \<Rightarrow> bool" where
  "IsWithinMap s p =
    (if \<not> HasMapExtents s then True
     else f_le (as_map_min_x s) (vx p) \<and> f_le (vx p) (as_map_max_x s) \<and>
          f_le (as_map_min_z s) (vz p) \<and> f_le (vz p) (as_map_max_z s))"

definition ControlName :: "AdminAction \<Rightarrow> string" where
  "ControlName action = (case aa_action action of
       Pause b \<Rightarrow> ''pause''
     | Global_speed v \<Rightarrow> ''global_speed''
     | Cheat_policy b \<Rightarrow> ''cheat_policy''
     | Resource_grant t r a \<Rightarrow> ''resource_grant''
     | Unit_spawn t d p f \<Rightarrow> ''unit_spawn''
     | Lifecycle c \<Rightarrow> ''lifecycle''
     | Unit_transfer u f t p \<Rightarrow> ''unit_transfer''
     | ACTION_NOT_SET \<Rightarrow> ''unknown'')"

record AdminCapabilitiesResponse =
  acr_enabled :: bool
  acr_roles :: "AdminRole list"
  acr_supported_actions :: "string list"
  acr_feature_flags :: "string list"
  acr_valid_team_ids :: "int list"
  acr_valid_resource_ids :: "int list"
  acr_valid_unit_def_ids :: "int list"
  acr_min_speed :: proto_float
  acr_max_speed :: proto_float
  acr_map_limits :: "(proto_float \<times> proto_float \<times> proto_float \<times> proto_float) option"
  acr_cheats_allowed :: bool
  acr_unit_transfer_enabled :: bool
  acr_headless_fixture :: bool

definition AdminController_Capabilities :: "AdminController \<Rightarrow> AdminCapabilitiesResponse" where
  "AdminController_Capabilities adm =
    (let s = adm_settings adm in
     \<lparr> acr_enabled = as_enabled s,
       acr_roles = [ADMIN_ROLE_OPERATOR, ADMIN_ROLE_ADMIN, ADMIN_ROLE_TEST_HARNESS],
       acr_supported_actions = [''pause'', ''global_speed'', ''cheat_policy'', ''resource_grant'', ''unit_spawn''] @
         (if as_unit_transfer_enabled s then [''unit_transfer''] else []) @ [''lifecycle''],
       acr_feature_flags = [''admin_control_service'', ''admin_leases'', ''admin_audit_events''],
       acr_valid_team_ids = as_valid_team_ids s,
       acr_valid_resource_ids = as_valid_resource_ids s,
       acr_valid_unit_def_ids = as_valid_unit_def_ids s,
       acr_min_speed = as_min_speed s, acr_max_speed = as_max_speed s,
       acr_map_limits = (if HasMapExtents s
         then Some (as_map_min_x s, as_map_min_z s, as_map_max_x s, as_map_max_z s) else None),
       acr_cheats_allowed = as_cheats_allowed s,
       acr_unit_transfer_enabled = as_unit_transfer_enabled s,
       acr_headless_fixture = as_headless_fixture s \<rparr>)"

definition admin_result :: "AdminAction \<Rightarrow> AdminActionStatus \<Rightarrow> u32 \<Rightarrow> u64 \<Rightarrow> bool \<Rightarrow> AdminActionResult" where
  "admin_result action status frame state_seq dry_run = \<lparr> ar_action_seq = aa_action_seq action,
     ar_client_action_id = aa_client_action_id action, ar_status = status, ar_issues = [],
     ar_lease = None, ar_frame = frame, ar_state_seq = state_seq, ar_dry_run = dry_run \<rparr>"

definition Reject :: "AdminAction \<Rightarrow> AdminActionStatus \<Rightarrow> AdminIssueCode \<Rightarrow> string \<Rightarrow> u32 \<Rightarrow> u64 \<Rightarrow> bool \<Rightarrow>
    AdminActionResult" where
  "Reject action status code path frame state_seq dry_run =
    (admin_result action status frame state_seq dry_run) \<lparr> ar_issues := [(code, path, RETRY_NEVER)] \<rparr>"

text \<open>
  The checks that depend on the action's payload, in the order of the source: the run-mode
  checks of cheat policy and transfer, then the ranges of each action.
\<close>

definition payload_issue :: "AdminSettings \<Rightarrow> AdminActionCase \<Rightarrow>
    (AdminActionStatus \<times> AdminIssueCode \<times> string) option" where
  "payload_issue s act = (case act of
     Cheat_policy enabled \<Rightarrow>
       if \<not> as_cheats_allowed s
         then Some (ADMIN_ACTION_REJECTED_RUN_MODE, ADMIN_RUN_MODE_FORBIDS_CHEATS, ''cheat_policy'')
       else None
   | Global_speed speed \<Rightarrow>
       if \<not> isfinite speed \<or> f_less speed (as_min_speed s) \<or> f_less (as_max_speed s) speed
         then Some (ADMIN_ACTION_REJECTED_INVALID_VALUE, ADMIN_INVALID_SPEED_RANGE, ''global_speed.speed'')
       else None
   | Resource_grant team resource_id amount \<Rightarrow>
       if \<not> IsValidTeam s team
         then Some (ADMIN_ACTION_REJECTED_INVALID_TARGET, ADMIN_INVALID_TEAM, ''resource_grant.team_id'')
       else if \<not> IsValidResource s resource_id
         then Some (ADMIN_ACTION_REJECTED_INVALID_TARGET, ADMIN_INVALID_RESOURCE, ''resource_grant.resource_id'')
       else if \<not> isfinite amount \<or> f_le amount f_zero
         then Some (ADMIN_ACTION_REJECTED_INVALID_VALUE, ADMIN_INVALID_AMOUNT, ''resource_grant.amount'')
       else None
   | Unit_spawn team unit_def p facing \<Rightarrow>
       if \<not> IsValidTeam s team
         then Some (ADMIN_ACTION_REJECTED_INVALID_TARGET, ADMIN_INVALID_TEAM, ''unit_spawn.team_id'')
       else if \<not> IsValidUnitDef s unit_def
         then Some (ADMIN_ACTION_REJECTED_INVALID_TARGET, ADMIN_UNKNOWN_UNIT_DEF, ''unit_spawn.unit_def_id'')
       else if \<not> isfinite (vx p) \<or> \<not> isfinite (vy p) \<or> \<not> isfinite (vz p) \<or> \<not> IsWithinMap s p
         then Some (ADMIN_ACTION_REJECTED_INVALID_VALUE, ADMIN_POSITION_OUT_OF_MAP, ''unit_spawn.position'')
       else None
   | Unit_transfer unit_id from_team to_team preserve \<Rightarrow>
       if \<not> as_unit_transfer_enabled s
         then Some (ADMIN_ACTION_REJECTED_RUN_MODE, ADMIN_ACTION_DISABLED, ''unit_transfer'')
       else let owner = map_of (as_live_unit_owners s) unit_id in
         if unit_id \<le> 0 \<or> (as_live_unit_owners s \<noteq> [] \<and> owner = None)
           then Some (ADMIN_ACTION_REJECTED_INVALID_TARGET, ADMIN_UNKNOWN_UNIT, ''unit_transfer.unit_id'')
         else if \<not> IsValidTeam s to_team
           then Some (ADMIN_ACTION_REJECTED_INVALID_TARGET, ADMIN_INVALID_TEAM, ''unit_transfer.to_team_id'')
         else (case owner of
             Some o1 \<Rightarrow>
               if from_team \<noteq> o1
                 then Some (ADMIN_ACTION_REJECTED_INVALID_TARGET, ADMIN_UNIT_OWNER_MISMATCH, ''unit_transfer.from_team_id'')
               else if to_team = o1
                 then Some (ADMIN_ACTION_REJECTED_INVALID_VALUE, ADMIN_UNIT_OWNER_MISMATCH, ''unit_transfer.to_team_id'')
               else None
           | None \<Rightarrow> None)
   | Pause b \<Rightarrow> None
   | Lifecycle c \<Rightarrow> None
   | ACTION_NOT_SET \<Rightarrow> None)"

definition lease_conflict :: "AdminController \<Rightarrow> AdminCaller \<Rightarrow> AdminAction \<Rightarrow> bool" where
  "lease_conflict adm caller action =
    (case adm_leases adm (ControlName action) of
       None \<Rightarrow> False
     | Some lease \<Rightarrow> al_owner_client_id lease \<noteq> ac_identity caller \<and>
         aa_conflict_policy action \<noteq> ADMIN_CONFLICT_RELEASE_EXISTING_LEASE)"

definition AdminController_Validate ::
    "AdminController \<Rightarrow> AdminCaller \<Rightarrow> AdminAction \<Rightarrow> u32 \<Rightarrow> u64 \<Rightarrow> AdminActionResult" where
  "AdminController_Validate adm caller action frame state_seq =
    (let s = adm_settings adm;
         rej = (\<lambda>status code path. Reject action status code path frame state_seq True) in
     if \<not> RoleCanExecute (ac_role caller)
       then rej ADMIN_ACTION_REJECTED_PERMISSION_DENIED ADMIN_PERMISSION_DENIED ''role''
     else if \<not> as_enabled s
       then rej ADMIN_ACTION_REJECTED_DISABLED ADMIN_ACTION_DISABLED ''action''
     else (case payload_issue s (aa_action action) of
         Some (status, code, path) \<Rightarrow> rej status code path
       | None \<Rightarrow>
          if aa_based_on_frame action \<noteq> 0 \<and> aa_based_on_frame action + 300 < frame
            then rej ADMIN_ACTION_REJECTED_STALE ADMIN_STALE_SNAPSHOT_EPOCH ''based_on_frame''
          else if lease_conflict adm caller action
            then rej ADMIN_ACTION_REJECTED_CONFLICT ADMIN_CONTROL_CONFLICT ''conflict_policy''
          else admin_result action ADMIN_ACTION_ACCEPTED frame state_seq True))"

definition AdminController_Audit ::
    "AdminCaller \<Rightarrow> AdminAction \<Rightarrow> AdminActionResult \<Rightarrow> string \<Rightarrow> AdminController \<Rightarrow> AdminController" where
  "AdminController_Audit caller action result control adm = adm
     \<lparr> adm_audit_log := adm_audit_log adm @ [\<lparr> ae_event_id = adm_next_audit_id adm,
         ae_caller_identity = ac_identity caller, ae_role = ac_role caller, ae_action_type = control,
         ae_frame = ar_frame result, ae_state_seq = ar_state_seq result, ae_result = ar_status result,
         ae_reason = aa_reason action, ae_lease_control = control,
         ae_run_mode = (if as_cheats_allowed (adm_settings adm) then ''test'' else ''normal'') \<rparr>],
       adm_next_audit_id := adm_next_audit_id adm + 1 \<rparr>"

definition grant_lease :: "AdminController \<Rightarrow> AdminCaller \<Rightarrow> string \<Rightarrow> u32 \<Rightarrow> AdminLease" where
  "grant_lease adm caller control frame =
    (case adm_leases adm control of None \<Rightarrow> AdminLease_default | Some l \<Rightarrow> l)
     \<lparr> al_control := control, al_owner_client_id := ac_identity caller, al_owner_role := ac_role caller,
       al_acquired_frame := frame, al_last_heartbeat_frame := frame,
       al_expires_frame := frame + as_lease_ttl_frames (adm_settings adm) \<rparr>"

definition leased_control :: "string \<Rightarrow> bool" where
  "leased_control control \<longleftrightarrow> control = ''pause'' \<or> control = ''global_speed''"

definition AdminController_Execute ::
    "AdminCaller \<Rightarrow> AdminAction \<Rightarrow> u32 \<Rightarrow> u64 \<Rightarrow> AdminController \<Rightarrow> AdminController \<times> AdminActionResult" where
  "AdminController_Execute caller action frame state_seq adm =
    (let result = (AdminController_Validate adm caller action frame state_seq) \<lparr> ar_dry_run := False \<rparr>;
         control = ControlName action in
     if ar_status result \<noteq> ADMIN_ACTION_ACCEPTED
       then (AdminController_Audit caller action result control adm, result)
     else let result = result \<lparr> ar_status := ADMIN_ACTION_EXECUTED \<rparr> in
       if leased_control control
         then let lease = grant_lease adm caller control frame;
                  result = result \<lparr> ar_lease := Some lease \<rparr>
              in (AdminController_Audit caller action result control
                    (adm \<lparr> adm_leases := (adm_leases adm)(control := Some lease) \<rparr>), result)
       else (AdminController_Audit caller action result control adm, result))"

definition AdminController_Heartbeat :: "string \<Rightarrow> AdminCaller \<Rightarrow> u32 \<Rightarrow> AdminController \<Rightarrow> AdminController" where
  "AdminController_Heartbeat control caller frame adm =
    (case adm_leases adm control of
       None \<Rightarrow> adm
     | Some l \<Rightarrow>
        if al_owner_client_id l \<noteq> ac_identity caller then adm
        else adm \<lparr> adm_leases := (adm_leases adm)(control := Some (l \<lparr> al_last_heartbeat_frame := frame,
          al_expires_frame := frame + as_lease_ttl_frames (adm_settings adm) \<rparr>)) \<rparr>)"

definition AdminController_ExpireLeases :: "u32 \<Rightarrow> AdminController \<Rightarrow> AdminController" where
  "AdminController_ExpireLeases frame adm = adm \<lparr> adm_leases := (\<lambda>control.
     case adm_leases adm control of
       None \<Rightarrow> None
     | Some l \<Rightarrow> if al_expires_frame l \<noteq> 0 \<and> al_expires_frame l \<le> frame then None else Some l) \<rparr>"

section \<open>Histories\<close>

datatype admin_op = Adm_execute AdminCaller AdminAction u32 u64 | Adm_heartbeat string AdminCaller u32
  | Adm_expire u32

fun admin_apply :: "AdminController \<Rightarrow> admin_op \<Rightarrow> AdminController" where
  "admin_apply adm (Adm_execute c a f q) = fst (AdminController_Execute c a f q adm)"
| "admin_apply adm (Adm_heartbeat ctl c f) = AdminController_Heartbeat ctl c f adm"
| "admin_apply adm (Adm_expire f) = AdminController_ExpireLeases f adm"

definition admin_inv :: "AdminController \<Rightarrow> bool" where
  "admin_inv adm \<longleftrightarrow>
    (\<forall>control l. adm_leases adm control = Some l \<longrightarrow>
       leased_control control \<and> al_control l = control \<and> RoleCanExecute (al_owner_role l)) \<and>
    map ae_event_id (adm_audit_log adm) = map (\<lambda>i. of_nat (Suc i)) [0..<length (adm_audit_log adm)] \<and>
    adm_next_audit_id adm = of_nat (Suc (length (adm_audit_log adm)))"

lemmas admin_defs = AdminController_Execute_def AdminController_Heartbeat_def AdminController_ExpireLeases_def
  AdminController_Audit_def grant_lease_def Let_def

lemma Validate_accepts_role:
  "ar_status (AdminController_Validate adm caller action frame q) = ADMIN_ACTION_ACCEPTED \<Longrightarrow>
   RoleCanExecute (ac_role caller) \<and> \<not> lease_conflict adm caller action \<and> as_enabled (adm_settings adm) \<and>
   payload_issue (adm_settings adm) (aa_action action) = None"
  by (auto simp: AdminController_Validate_def Let_def Reject_def admin_result_def payload_issue_def
      split: if_splits option.splits AdminActionCase.splits)

lemma admin_apply_inv [step_preserves]:
  assumes "admin_inv adm"
  shows "admin_inv (admin_apply adm op)"
proof (cases op)
  case (Adm_execute c a f q)
  then show ?thesis
    using assms Validate_accepts_role[of adm c a f q]
    by (auto simp: admin_inv_def admin_defs)
next
  case (Adm_heartbeat ctl c f)
  then show ?thesis
    using assms by (auto simp: admin_inv_def admin_defs split: option.splits)
next
  case (Adm_expire f)
  then show ?thesis
    using assms by (auto simp: admin_inv_def admin_defs split: option.splits if_splits)
qed

text \<open>
  The controller's bookkeeping is sound in every history of executions, heartbeats and
  expiries: only the pause and speed controls are ever leased, each lease is filed
  under its own control and held by a role that may execute, and the audit log is
  numbered 1, 2, ... without gap, so no event is lost or renumbered.
\<close>

theorem AdminController_history_sound:
  "admin_inv (foldl admin_apply (AdminController_new settings) ops)"
proof (induction ops rule: rev_induct)
  case Nil
  then show ?case by (simp add: admin_inv_def AdminController_new_def)
next
  case (snoc op ops)
  then show ?case by (auto intro: step_preserves)
qed

lemma Execute_gate:
  assumes "AdminController_Execute caller action frame q adm = (adm', r)"
  shows "(ar_status r = ADMIN_ACTION_EXECUTED \<longleftrightarrow>
      RoleCanExecute (ac_role caller) \<and> as_enabled (adm_settings adm) \<and>
      payload_issue (adm_settings adm) (aa_action action) = None \<and>
      (aa_based_on_frame action = 0 \<or> frame \<le> aa_based_on_frame action + 300) \<and>
      \<not> lease_conflict adm caller action) \<and>
    adm_leases adm' = (if ar_status r = ADMIN_ACTION_EXECUTED \<and> leased_control (ControlName action)
      then (adm_leases adm)(ControlName action := Some (grant_lease adm caller (ControlName action) frame))
      else adm_leases adm) \<and>
    (\<exists>e. adm_audit_log adm' = adm_audit_log adm @ [e] \<and> ae_result e = ar_status r \<and>
       ae_caller_identity e = ac_identity caller \<and> ae_action_type e = ControlName action) \<and>
    \<not> ar_dry_run r"
proof -
  let ?v = "AdminController_Validate adm caller action frame q"
  have acc: "ar_status ?v = ADMIN_ACTION_ACCEPTED \<longleftrightarrow>
      RoleCanExecute (ac_role caller) \<and> as_enabled (adm_settings adm) \<and>
      payload_issue (adm_settings adm) (aa_action action) = None \<and>
      (aa_based_on_frame action = 0 \<or> frame \<le> aa_based_on_frame action + 300) \<and>
      \<not> lease_conflict adm caller action"
    by (auto simp: AdminController_Validate_def Let_def Reject_def admin_result_def payload_issue_def not_less
        split: if_splits option.splits AdminActionCase.splits)
  have not_executed: "ar_status ?v \<noteq> ADMIN_ACTION_EXECUTED"
    by (auto simp: AdminController_Validate_def Let_def Reject_def admin_result_def payload_issue_def
        split: if_splits option.splits AdminActionCase.splits)
  show ?thesis
  proof (cases "ar_status ?v = ADMIN_ACTION_ACCEPTED")
    case True
    then show ?thesis
      using assms acc by (auto simp: AdminController_Execute_def AdminController_Audit_def Let_def split: if_splits)
  next
    case False
    then show ?thesis
      using assms acc not_executed
      by (auto simp: AdminController_Execute_def AdminController_Audit_def Let_def)
  qed
qed


definition sample_caller :: "string \<Rightarrow> AdminCaller" where
  "sample_caller who = \<lparr> ac_identity = who, ac_role = ADMIN_ROLE_OPERATOR \<rparr>"

definition sample_action :: AdminAction where
  "sample_action = \<lparr> aa_action_seq = 1, aa_client_action_id = 1, aa_based_on_frame = 0,
     aa_based_on_state_seq = 0, aa_conflict_policy = ADMIN_CONFLICT_REJECT_IF_CONTROLLED,
     aa_reason = ''test'', aa_action = Pause True \<rparr>"


text \<open>
  What the other callers may do while a caller holds a control: anything but releasing that lease, as long as no expiry
  runs at or after the given frame.
\<close>

definition keeps_lease :: "string \<Rightarrow> string \<Rightarrow> nat \<Rightarrow> admin_op \<Rightarrow> bool" where
  "keeps_lease owner control until op = (case op of
     Adm_execute c a f q \<Rightarrow>
       ControlName a = control \<longrightarrow> ac_identity c \<noteq> owner \<and> aa_conflict_policy a \<noteq> ADMIN_CONFLICT_RELEASE_EXISTING_LEASE
   | Adm_heartbeat ctl c f \<Rightarrow> ctl = control \<longrightarrow> ac_identity c \<noteq> owner
   | Adm_expire g \<Rightarrow> unat g < until)"

lemma admin_apply_settings: "adm_settings (foldl admin_apply adm ops) = adm_settings adm"
proof (induction ops rule: rev_induct)
  case (snoc op ops)
  have "adm_settings (admin_apply adm op) = adm_settings adm" for adm
    by (cases op) (auto simp: admin_defs split: option.splits)
  with snoc show ?case by simp
qed simp

lemma admin_apply_keeps_lease:
  assumes "adm_leases adm control = Some l" "keeps_lease (al_owner_client_id l) control (unat (al_expires_frame l)) op"
  shows "adm_leases (admin_apply adm op) control = Some l"
proof (cases op)
  case (Adm_execute c a f q)
  let ?e = "AdminController_Execute c a f q adm"
  have "lease_conflict adm c a" if "ControlName a = control"
    using that assms Adm_execute by (auto simp: lease_conflict_def keeps_lease_def)
  then show ?thesis
    using Execute_gate[OF prod.collapse[symmetric], of c a f q adm] assms(1) Adm_execute by auto
next
  case (Adm_heartbeat ctl c f)
  then show ?thesis
    using assms by (auto simp: AdminController_Heartbeat_def keeps_lease_def split: option.splits)
next
  case (Adm_expire g)
  then have "\<not> al_expires_frame l \<le> g"
    using assms(2) by (simp add: keeps_lease_def word_le_nat_alt)
  then show ?thesis
    using assms(1) Adm_expire by (simp add: AdminController_ExpireLeases_def)
qed

lemma history_keeps_lease:
  assumes "adm_leases adm control = Some l"
    and "list_all (keeps_lease (al_owner_client_id l) control (unat (al_expires_frame l))) ops"
  shows "adm_leases (foldl admin_apply adm ops) control = Some l"
  using assms by (induction ops arbitrary: adm) (simp_all add: admin_apply_keeps_lease)

text \<open>An action that only the lease stands in the way of is rejected as a conflict.\<close>

lemma Execute_conflict:
  assumes "RoleCanExecute (ac_role b)" "as_enabled (adm_settings adm)"
    and "payload_issue (adm_settings adm) (aa_action act) = None"
    and "aa_based_on_frame act = 0 \<or> h \<le> aa_based_on_frame act + 300" "lease_conflict adm b act"
  shows "ar_status (snd (AdminController_Execute b act h q adm)) = ADMIN_ACTION_REJECTED_CONFLICT"
    and "ar_issues (snd (AdminController_Execute b act h q adm)) = [(ADMIN_CONTROL_CONFLICT, ''conflict_policy'', RETRY_NEVER)]"
    and "adm_leases (fst (AdminController_Execute b act h q adm)) = adm_leases adm"
  using assms
  by (auto simp: AdminController_Execute_def AdminController_Validate_def AdminController_Audit_def Reject_def admin_result_def
      Let_def not_less)

text \<open>
  C20: A lease excludes other callers for its lifetime and no longer.  After a caller executed a pause or speed action at frame
  \<open>f\<close>, let the other callers execute, send heartbeats and let leases expire in any order, without a request to release the
  lease and with no expiry from \<open>f\<close> plus the time to live on.  Then the lease is still held, an action of another caller on the
  same control that is permitted, valid, recent and does not ask to release the lease is rejected as a conflict and changes
  no lease, and expiry from that frame on removes the lease.
\<close>

theorem lease_excludes_others:
  assumes "AdminController_Execute a act f q adm = (adm1, r1)" "ar_status r1 = ADMIN_ACTION_EXECUTED"
    and "leased_control (ControlName act)"
    and "unat f + unat (as_lease_ttl_frames (adm_settings adm)) < 2 ^ 32" "0 < f"
    and "list_all (keeps_lease (ac_identity a) (ControlName act) (unat f + unat (as_lease_ttl_frames (adm_settings adm)))) ops"
  shows "adm_leases (foldl admin_apply adm1 ops) (ControlName act) = Some (grant_lease adm a (ControlName act) f) \<and>
    (ControlName act2 = ControlName act \<and> ac_identity b \<noteq> ac_identity a \<and>
     aa_conflict_policy act2 \<noteq> ADMIN_CONFLICT_RELEASE_EXISTING_LEASE \<and> RoleCanExecute (ac_role b) \<and>
     payload_issue (adm_settings adm) (aa_action act2) = None \<and>
     (aa_based_on_frame act2 = 0 \<or> h \<le> aa_based_on_frame act2 + 300) \<longrightarrow>
     (case AdminController_Execute b act2 h q2 (foldl admin_apply adm1 ops) of (adm3, r) \<Rightarrow>
        ar_status r = ADMIN_ACTION_REJECTED_CONFLICT \<and>
        ar_issues r = [(ADMIN_CONTROL_CONFLICT, ''conflict_policy'', RETRY_NEVER)] \<and>
        adm_leases adm3 = adm_leases (foldl admin_apply adm1 ops))) \<and>
    (unat f + unat (as_lease_ttl_frames (adm_settings adm)) \<le> unat g \<longrightarrow>
      adm_leases (AdminController_ExpireLeases g (foldl admin_apply adm1 ops)) (ControlName act) = None)"
proof -
  let ?ttl = "as_lease_ttl_frames (adm_settings adm)" and ?c = "ControlName act"
  let ?l = "grant_lease adm a ?c f" and ?adm2 = "foldl admin_apply adm1 ops"
  have exp: "unat (f + ?ttl) = unat f + unat ?ttl"
    using assms(4) by (intro unat_add_lem[THEN iffD1]) simp
  have l: "al_owner_client_id ?l = ac_identity a" "unat (al_expires_frame ?l) = unat f + unat ?ttl"
    using exp by (simp_all add: grant_lease_def)
  have "adm_leases adm1 ?c = Some ?l"
    using Execute_gate[OF assms(1)] assms(2,3) by simp
  then have lease: "adm_leases ?adm2 ?c = Some ?l"
    using history_keeps_lease assms(6) l by simp
  have "as_enabled (adm_settings adm)" "adm_settings adm1 = adm_settings adm"
    using Execute_gate[OF assms(1)] assms(1,2) admin_apply_settings[of adm "[Adm_execute a act f q]"] by simp_all
  then have enabled: "as_enabled (adm_settings ?adm2)" and settings: "adm_settings ?adm2 = adm_settings adm"
    by (simp_all add: admin_apply_settings)
  have conflict: "lease_conflict ?adm2 b act2"
    if "ControlName act2 = ?c" "ac_identity b \<noteq> ac_identity a" "aa_conflict_policy act2 \<noteq> ADMIN_CONFLICT_RELEASE_EXISTING_LEASE"
    using that lease l(1) by (simp add: lease_conflict_def)
  have "al_expires_frame ?l \<noteq> 0"
    using l(2) assms(5) by (metis add_is_0 unat_0 unat_eq_zero word_not_simps(1))
  then have "unat f + unat ?ttl \<le> unat g \<Longrightarrow> adm_leases (AdminController_ExpireLeases g ?adm2) ?c = None"
    using lease l(2) by (simp add: AdminController_ExpireLeases_def word_le_nat_alt)
  then show ?thesis
    using lease conflict Execute_conflict[of b ?adm2 act2 h q2] enabled settings by (auto split: prod.splits)
qed

text \<open>The lease of one operator, another's pause and heartbeat and an expiry in between, and then a third's pause.\<close>

definition sample_leased :: AdminController where
  "sample_leased = foldl admin_apply (fst (AdminController_Execute (sample_caller ''a'') sample_action 10 5
     (AdminController_new AdminSettings_default)))
     [Adm_execute (sample_caller ''b'') sample_action 20 6, Adm_heartbeat ''pause'' (sample_caller ''b'') 21, Adm_expire 60]"

theorem lease_excludes_others_witness:
  "ar_status (snd (AdminController_Execute (sample_caller ''c'') sample_action 60 6 sample_leased)) =
     ADMIN_ACTION_REJECTED_CONFLICT"
proof -
  let ?adm = "AdminController_new AdminSettings_default"
  let ?e = "AdminController_Execute (sample_caller ''a'') sample_action 10 5 ?adm"
  let ?ops = "[Adm_execute (sample_caller ''b'') sample_action 20 6, Adm_heartbeat ''pause'' (sample_caller ''b'') 21, Adm_expire 60]"
  have ex: "?e = (fst ?e, snd ?e)" by simp
  have st: "ar_status (snd ?e) = ADMIN_ACTION_EXECUTED"
    by code_simp
  have lc: "leased_control (ControlName sample_action)"
    by (simp add: leased_control_def ControlName_def sample_action_def)
  have ttl: "unat (10 :: u32) + unat (as_lease_ttl_frames (adm_settings ?adm)) < 2 ^ 32" "0 < (10 :: u32)"
    by (simp_all add: AdminController_new_def AdminSettings_default_def)
  have others: "list_all (keeps_lease (ac_identity (sample_caller ''a'')) (ControlName sample_action)
      (unat (10 :: u32) + unat (as_lease_ttl_frames (adm_settings ?adm)))) ?ops"
    by code_simp
  have "RoleCanExecute (ac_role (sample_caller ''c''))" "payload_issue (adm_settings ?adm) (aa_action sample_action) = None"
      "aa_based_on_frame sample_action = 0" "aa_conflict_policy sample_action \<noteq> ADMIN_CONFLICT_RELEASE_EXISTING_LEASE"
      "ac_identity (sample_caller ''c'') \<noteq> ac_identity (sample_caller ''a'')"
    by (simp_all add: sample_caller_def sample_action_def RoleCanExecute_def payload_issue_def)
  then show ?thesis
    using lease_excludes_others[OF ex st lc ttl others, of sample_action "sample_caller ''c''" 60 6 0]
    unfolding sample_leased_def by (simp add: case_prod_beta)
qed

end
