(* ===== verification/Auth.thy ===== *)
theory Auth
  imports Admin_Controller "HOL-Library.Char_ord"
begin

unbundle bit_operations_syntax

text \<open>
  Authentication (grpc/AuthToken.cpp, grpc/AuthInterceptor.cpp) and the admin RPC handlers
  that read the caller from the request metadata (grpc/AdminService.cpp).  The operating
  system's answers are lists of results, one per call; the file system is a map from paths
  to contents.  The lemmas show that the comparison is equality, what the interceptor does with
  a call, that the token text determines its random bytes, and that the token file appears atomically.
\<close>

section \<open>Token\<close>

definition kTokenBytes :: nat where
  "kTokenBytes = 32"

definition kHex :: string where
  "kHex = ''0123456789abcdef''"

fun HexEncode :: "u8 list \<Rightarrow> string" where
  "HexEncode [] = []"
| "HexEncode (b # bs) = kHex ! unat (drop_bit 4 b) # kHex ! unat (b AND 0x0f) # HexEncode bs"

text \<open>Results of a system call: interrupted, failed, or a number of bytes.\<close>

datatype random_result = Rand_eintr | Rand_fail string | Rand_bytes "u8 list"

datatype io_result = Io_eintr | Io_fail string | Io_done nat

text \<open>
  The fill loop of \<open>Generate\<close> over the results of \<open>getrandom\<close>, each call asking for the
  missing bytes; none while the supplied results do not end it.
\<close>

fun fill_random :: "random_result list \<Rightarrow> u8 list \<Rightarrow> (u8 list) outcome option" where
  "fill_random rs raw =
    (if kTokenBytes \<le> length raw then Some (Inr raw)
     else case rs of
       [] \<Rightarrow> None
     | Rand_eintr # rs' \<Rightarrow> fill_random rs' raw
     | Rand_fail e # rs' \<Rightarrow> Some (Inl (Runtime_error (''getrandom failed: '' @ e)))
     | Rand_bytes bs # rs' \<Rightarrow> fill_random rs' (raw @ take (kTokenBytes - length raw) bs))"

declare fill_random.simps [simp del]

type_synonym file_system = "string \<Rightarrow> string option"

text \<open>The write loop: the successive file systems, and the error that ended it early.\<close>

fun write_loop :: "io_result list \<Rightarrow> string \<Rightarrow> string \<Rightarrow> file_system \<Rightarrow> (file_system list \<times> string option) option" where
  "write_loop rs tmp rest fs =
    (if rest = [] then Some ([fs], None)
     else case rs of
       [] \<Rightarrow> None
     | Io_eintr # rs' \<Rightarrow> write_loop rs' tmp rest fs
     | Io_fail e # rs' \<Rightarrow> Some ([fs, fs(tmp := None)], Some e)
     | Io_done n # rs' \<Rightarrow>
        map_option (\<lambda>(tr, err). (fs # tr, err))
          (write_loop rs' tmp (drop n rest)
            (fs(tmp := map_option (\<lambda>s. s @ take n rest) (fs tmp)))))"

declare write_loop.simps [simp del]

record TokenScript =
  ts_random :: "random_result list"
  ts_open_error :: "string option"
  ts_writes :: "io_result list"
  ts_fsync_error :: "string option"
  ts_rename_error :: "string option"

text \<open>The arrow in the message of a failed rename, in UTF-8.\<close>

definition kArrow :: string where
  "kArrow = [CHR 0x20, CHR 0xE2, CHR 0x86, CHR 0x92, CHR 0x20]"

text \<open>
  \<open>Generate\<close>: the token value or an exception, and every file system state on the way.
  None means that the supplied results end inside one of the two loops.  The path is one without null characters.
\<close>

definition AuthToken_Generate ::
    "TokenScript \<Rightarrow> string \<Rightarrow> file_system \<Rightarrow> (string outcome \<times> file_system list) option" where
  "AuthToken_Generate sc path fs =
    (case fill_random (ts_random sc) [] of
       None \<Rightarrow> None
     | Some (Inl e) \<Rightarrow> Some (Inl e, [fs])
     | Some (Inr raw) \<Rightarrow>
        (let value = HexEncode raw; tmp = path @ ''.tmp'' in
         case ts_open_error sc of
           Some e \<Rightarrow> Some (Inl (Runtime_error (''open '' @ tmp @ '': '' @ e)), [fs])
         | None \<Rightarrow>
           (case write_loop (ts_writes sc) tmp (value @ [CHR 0x0A]) (fs(tmp := Some [])) of
              None \<Rightarrow> None
            | Some (tr, Some e) \<Rightarrow> Some (Inl (Runtime_error (''write '' @ tmp @ '': '' @ e)), fs # tr)
            | Some (tr, None) \<Rightarrow>
               (let fs2 = last tr in
                case ts_fsync_error sc of
                  Some e \<Rightarrow> Some (Inl (Runtime_error (''fsync '' @ tmp @ '': '' @ e)), fs # tr @ [fs2(tmp := None)])
                | None \<Rightarrow>
                  (case ts_rename_error sc of
                     Some e \<Rightarrow> Some (Inl (Runtime_error (''rename '' @ tmp @ kArrow @ path @ '': '' @ e)), fs # tr @ [fs2(tmp := None)])
                   | None \<Rightarrow> Some (Inr value, fs # tr @ [fs2(path := fs2 tmp, tmp := None)]))))))"

definition AuthToken_Unlink :: "string \<Rightarrow> file_system \<Rightarrow> file_system" where
  "AuthToken_Unlink path fs = (if path = [] then fs else fs(path := None))"

definition byte_of_char :: "char \<Rightarrow> u8" where
  "byte_of_char c = of_char c"

definition ConstantTimeEquals :: "string \<Rightarrow> string \<Rightarrow> bool" where
  "ConstantTimeEquals a b =
    (if length a \<noteq> length b then False
     else foldl (\<lambda>diff (x, y). diff OR (byte_of_char x XOR byte_of_char y)) 0 (zip a b) = 0)"

definition ParseAdminRole :: "string \<Rightarrow> AdminRole" where
  "ParseAdminRole role =
    (if role = ''operator'' then ADMIN_ROLE_OPERATOR
     else if role = ''admin'' then ADMIN_ROLE_ADMIN
     else if role = ''test-harness'' \<or> role = ''test_harness'' then ADMIN_ROLE_TEST_HARNESS
     else if role = ''ai'' then ADMIN_ROLE_AI
     else if role = ''observer'' then ADMIN_ROLE_OBSERVER
     else ADMIN_ROLE_UNSPECIFIED)"

definition IsPrivilegedAdminRole :: "AdminRole \<Rightarrow> bool" where
  "IsPrivilegedAdminRole role \<longleftrightarrow>
     role = ADMIN_ROLE_OPERATOR \<or> role = ADMIN_ROLE_ADMIN \<or> role = ADMIN_ROLE_TEST_HARNESS"

section \<open>Interceptor\<close>

type_synonym metadata = "(string \<times> string) list"

definition kTokenProtected :: "string list" where
  "kTokenProtected = [''/highbar.v1.HighBarProxy/SubmitCommands'',
     ''/highbar.v1.HighBarProxy/ValidateCommandBatch'', ''/highbar.v1.HighBarProxy/GetCommandSchema'',
     ''/highbar.v1.HighBarProxy/GetUnitCapabilities'', ''/highbar.v1.HighBarProxy/InvokeCallback'',
     ''/highbar.v1.HighBarProxy/Save'', ''/highbar.v1.HighBarProxy/Load'',
     ''/highbar.v1.HighBarProxy/GetRuntimeCounters'', ''/highbar.v1.HighBarProxy/RequestSnapshot'',
     ''/highbar.v1.HighBarAdmin/GetAdminCapabilities'', ''/highbar.v1.HighBarAdmin/ValidateAdminAction'',
     ''/highbar.v1.HighBarAdmin/ExecuteAdminAction'']"

definition RequiresToken :: "string \<Rightarrow> bool" where
  "RequiresToken full_method \<longleftrightarrow> List.member kTokenProtected full_method"

definition equal_range :: "metadata \<Rightarrow> string \<Rightarrow> string list" where
  "equal_range md key = map snd (filter (\<lambda>kv. fst kv = key) md)"

text \<open>What the interceptor does with a batch, in order.\<close>

datatype interceptor_call = Log_auth_reject string string | Modify_send_status string string | Proceed

definition AuthInterceptor_Intercept :: "string \<Rightarrow> bool \<Rightarrow> string option \<Rightarrow> metadata option \<Rightarrow> interceptor_call list" where
  "AuthInterceptor_Intercept full_method initial_metadata_hook token md =
    (if initial_metadata_hook \<and> RequiresToken full_method
     then (let ok = (case (md, token) of
             (Some m, Some t) \<Rightarrow>
               list_ex (\<lambda>supplied. ConstantTimeEquals supplied t) (equal_range m ''x-highbar-ai-token'')
           | _ \<Rightarrow> False)
           in if ok then []
              else [Log_auth_reject ''unknown'' full_method,
                    Modify_send_status ''PERMISSION_DENIED'' ''AI-role RPC requires x-highbar-ai-token''])
     else []) @ [Proceed]"

section \<open>Admin handlers\<close>

definition MetadataValue :: "metadata \<Rightarrow> string \<Rightarrow> string" where
  "MetadataValue md key = (case equal_range md key of [] \<Rightarrow> [] | v # vs \<Rightarrow> v)"

definition CallerFrom :: "metadata \<Rightarrow> string \<Rightarrow> AdminCaller" where
  "CallerFrom md peer =
    (let identity = MetadataValue md ''x-highbar-client-id'' in
     \<lparr> ac_identity = (if identity = [] then peer else identity),
       ac_role = ParseAdminRole (MetadataValue md ''x-highbar-admin-role'') \<rparr>)"

text \<open>
  The execute handler's response and the controller after it.  \<open>execute_fn\<close> is the
  gateway's queue to the engine thread, a function of caller, action and controller.
\<close>

definition ExecuteAction_Proceed ::
    "(AdminCaller \<Rightarrow> AdminAction \<Rightarrow> AdminController \<Rightarrow> AdminController \<times> AdminActionResult) option \<Rightarrow>
     AdminCaller \<Rightarrow> AdminAction \<Rightarrow> u32 \<Rightarrow> u64 \<Rightarrow> AdminController option \<Rightarrow>
     AdminController option \<times> AdminActionResult option" where
  "ExecuteAction_Proceed execute_fn caller action frame state_seq controller =
    (case controller of
       None \<Rightarrow> (None, None)
     | Some adm \<Rightarrow>
        (let response = AdminController_Validate adm caller action frame state_seq in
         if ar_status response = ADMIN_ACTION_ACCEPTED
           then (case execute_fn of
               Some f \<Rightarrow> (case f caller action adm of (adm', r) \<Rightarrow> (Some adm', Some r))
             | None \<Rightarrow> (case AdminController_Execute caller action frame state_seq adm of (adm', r) \<Rightarrow> (Some adm', Some r)))
         else (case AdminController_Execute caller action frame state_seq adm of (adm', r) \<Rightarrow> (Some adm', Some r))))"

definition ValidateAction_Proceed ::
    "AdminCaller \<Rightarrow> AdminAction \<Rightarrow> u32 \<Rightarrow> u64 \<Rightarrow> AdminController option \<Rightarrow> AdminActionResult option" where
  "ValidateAction_Proceed caller action frame state_seq controller =
    map_option (\<lambda>adm. AdminController_Validate adm caller action frame state_seq) controller"

section \<open>The comparison\<close>

lemma unat_byte_of_char: "unat (byte_of_char c) = of_char c"
  using nat_of_char_less_256[of c] unat_of_nat_lt[of "of_char c", where 'a=8]
    of_nat_of_char[of c, where 'a=u8]
  by (simp add: byte_of_char_def)

lemma byte_of_char_inject: "byte_of_char x = byte_of_char y \<longleftrightarrow> x = y"
  by (metis of_char_eq_iff unat_byte_of_char)

lemma xor_eq_zero: "(x :: 'a::len word) XOR y = 0 \<longleftrightarrow> x = y"
  by (metis xor.assoc xor.left_neutral xor_self_eq)

lemma or_fold_zero:
  "foldl (\<lambda>diff (x, y). diff OR (byte_of_char x XOR byte_of_char y)) d ps = 0 \<longleftrightarrow>
   d = 0 \<and> (\<forall>(x, y) \<in> set ps. x = y)"
  by (induction ps arbitrary: d)
    (auto simp: or_eq_0_iff xor_eq_zero byte_of_char_inject split: prod.splits)

lemma zip_all_eq:
  "length a = length b \<Longrightarrow> (\<forall>(x, y) \<in> set (zip a b). x = y) \<longleftrightarrow> a = b"
  by (induction a b rule: list_induct2) auto

lemma ConstantTimeEquals_iff: "ConstantTimeEquals a b \<longleftrightarrow> a = b"
  by (auto simp: ConstantTimeEquals_def or_fold_zero zip_all_eq)

text \<open>
  C22: What the interceptor does with a call that lacks the token.  At the metadata hook of one of the twelve protected
  methods, GetRuntimeCounters among them, a call none of whose token headers equals the gateway's token (the constant-time
  comparison, a fold of byte differences, is equality), or any call when there is no token or no metadata, has its refusal
  logged and its status replaced by PERMISSION\_DENIED; no other call and no other hook is touched.  In every case the
  interceptor ends by letting the batch proceed: it does not keep the handler of a refused call from running.
\<close>

theorem AuthInterceptor_refuses_iff:
  "AuthInterceptor_Intercept full_method hook token md =
     (if hook \<and> full_method \<in> set kTokenProtected \<and>
         \<not> (\<exists>m t. md = Some m \<and> token = Some t \<and> (''x-highbar-ai-token'', t) \<in> set m)
      then [Log_auth_reject ''unknown'' full_method,
        Modify_send_status ''PERMISSION_DENIED'' ''AI-role RPC requires x-highbar-ai-token'', Proceed]
      else [Proceed]) \<and>
   ''/highbar.v1.HighBarProxy/GetRuntimeCounters'' \<in> set kTokenProtected"
proof -
  have "(case (md, token) of
      (Some m, Some t) \<Rightarrow> list_ex (\<lambda>supplied. ConstantTimeEquals supplied t) (equal_range m ''x-highbar-ai-token'')
    | _ \<Rightarrow> False) \<longleftrightarrow> (\<exists>m t. md = Some m \<and> token = Some t \<and> (''x-highbar-ai-token'', t) \<in> set m)"
    by (force simp: equal_range_def ConstantTimeEquals_iff list_ex_iff split: option.splits)
  moreover have "''/highbar.v1.HighBarProxy/GetRuntimeCounters'' \<in> set kTokenProtected"
    by (simp add: kTokenProtected_def)
  ultimately show ?thesis
    by (simp add: AuthInterceptor_Intercept_def RequiresToken_def Let_def)
qed

theorem AuthInterceptor_refuses_iff_witness:
  "AuthInterceptor_Intercept ''/highbar.v1.HighBarProxy/SubmitCommands'' True (Some ''ab'')
     (Some [(''x-highbar-ai-token'', ''ab'')]) = [Proceed] \<and>
   last (AuthInterceptor_Intercept ''/highbar.v1.HighBarProxy/SubmitCommands'' True (Some ''ab'')
     (Some [(''x-highbar-ai-token'', ''abc'')])) = Proceed \<and>
   length (AuthInterceptor_Intercept ''/highbar.v1.HighBarProxy/SubmitCommands'' True (Some ''ab'')
     (Some [(''x-highbar-ai-token'', ''abc'')])) = 3"
proof -
  have "''/highbar.v1.HighBarProxy/SubmitCommands'' \<in> set kTokenProtected"
    by (simp add: kTokenProtected_def)
  then show ?thesis
    using AuthInterceptor_refuses_iff[of "''/highbar.v1.HighBarProxy/SubmitCommands''" True "Some ''ab''"
        "Some [(''x-highbar-ai-token'', ''ab'')]"]
      AuthInterceptor_refuses_iff[of "''/highbar.v1.HighBarProxy/SubmitCommands''" True "Some ''ab''"
        "Some [(''x-highbar-ai-token'', ''abc'')]"]
    by simp
qed

section \<open>The token text\<close>

lemma nibbles: "unat (drop_bit 4 b) = unat b div 16" "unat (b AND 0x0f) = unat b mod 16" for b :: u8
proof -
  show "unat (drop_bit 4 b) = unat b div 16"
    using unat_lt_2p[of b] by (simp add: drop_bit_eq_div unat_div_distrib)
  have "(0x0f :: u8) = mask 4"
    by (simp add: mask_eq_exp_minus_1)
  then show "unat (b AND 0x0f) = unat b mod 16"
    by (simp only: take_bit_eq_mask[symmetric] unsigned_take_bit_eq) (simp add: take_bit_eq_mod)
qed

lemma kHex_inject: "i < 16 \<Longrightarrow> j < 16 \<Longrightarrow> kHex ! i = kHex ! j \<longleftrightarrow> i = j"
proof -
  have "distinct kHex" "length kHex = 16"
    by code_simp+
  then show "i < 16 \<Longrightarrow> j < 16 \<Longrightarrow> kHex ! i = kHex ! j \<longleftrightarrow> i = j"
    by (simp add: nth_eq_iff_index_eq)
qed

lemma hex_byte_inject:
  fixes b c :: u8
  assumes "kHex ! unat (drop_bit 4 b) = kHex ! unat (drop_bit 4 c)"
    "kHex ! unat (b AND 0x0f) = kHex ! unat (c AND 0x0f)"
  shows "b = c"
proof -
  have lt: "unat (x :: u8) < 256" for x
    using unat_lt_2p[of x] by simp
  have "unat b div 16 = unat c div 16" "unat b mod 16 = unat c mod 16"
    using assms lt[of b] lt[of c] by (simp_all add: nibbles kHex_inject less_mult_imp_div_less)
  then have "unat b = unat c"
    by (metis div_mult_mod_eq)
  then show ?thesis
    by (simp add: word_unat_eq_iff)
qed

lemma length_HexEncode [simp]: "length (HexEncode bs) = 2 * length bs"
  by (induction bs) simp_all

lemma HexEncode_inject: "HexEncode bs = HexEncode cs \<longleftrightarrow> bs = cs"
proof (induction bs arbitrary: cs)
  case Nil
  then show ?case by (cases cs) simp_all
next
  case (Cons b bs)
  then show ?case by (cases cs) (auto dest: hex_byte_inject)
qed

lemmas fill_random_simps = fill_random.simps[of "[]"] fill_random.simps[of "x # rs" for x rs]

lemmas write_loop_simps = write_loop.simps[of "[]"] write_loop.simps[of "x # rs" for x rs]

lemma fill_random_length:
  "length raw \<le> kTokenBytes \<Longrightarrow> fill_random rs raw = Some (Inr r) \<Longrightarrow> length r = kTokenBytes"
proof (induction rs arbitrary: raw)
  case (Cons x rs)
  show ?case
  proof (cases "kTokenBytes \<le> length raw")
    case True
    then show ?thesis using Cons.prems by (simp add: fill_random_simps)
  next
    case False
    obtain raw' where "length raw' \<le> kTokenBytes" "fill_random rs raw' = Some (Inr r)"
    proof (cases x)
      case (Rand_bytes bs)
      then show ?thesis
        using Cons.prems False that[of "raw @ take (kTokenBytes - length raw) bs"]
        by (simp add: fill_random_simps)
    qed (use Cons.prems False that[of raw] in \<open>simp_all add: fill_random_simps\<close>)
    then show ?thesis by (rule Cons.IH)
  qed
qed (simp add: fill_random_simps split: if_splits)

lemma write_loop_frame:
  "write_loop rs tmp rest fs = Some (tr, err) \<Longrightarrow>
   tr \<noteq> [] \<and> (\<forall>g \<in> set tr. \<forall>p. p \<noteq> tmp \<longrightarrow> g p = fs p)"
proof (induction rs arbitrary: rest fs tr)
  case (Cons x rs)
  show ?case
  proof (cases x)
    case (Io_done n)
    then show ?thesis
      using Cons.prems Cons.IH[of "drop n rest" "fs(tmp := map_option (\<lambda>s. s @ take n rest) (fs tmp))"]
      by (fastforce simp: write_loop_simps split: if_splits)
  qed (use Cons in \<open>auto simp: write_loop_simps split: if_splits\<close>)
qed (auto simp: write_loop_simps split: if_splits)

lemma write_loop_end:
  "write_loop rs tmp rest fs = Some (tr, err) \<Longrightarrow> fs tmp = Some s \<Longrightarrow>
   last tr tmp = (if err = None then Some (s @ rest) else None)"
proof (induction rs arbitrary: rest fs tr s)
  case (Cons x rs)
  show ?case
  proof (cases x)
    case (Io_done n)
    show ?thesis
    proof (cases "rest = []")
      case False
      then obtain tr' where tr': "tr = fs # tr'"
          "write_loop rs tmp (drop n rest) (fs(tmp := Some (s @ take n rest))) = Some (tr', err)"
        using Cons.prems Io_done by (auto simp: write_loop_simps)
      then show ?thesis
        using Cons.IH[OF tr'(2)] write_loop_frame[OF tr'(2)] by simp
    qed (use Cons.prems in \<open>auto simp: write_loop_simps\<close>)
  qed (use Cons in \<open>auto simp: write_loop_simps split: if_splits\<close>)
qed (auto simp: write_loop_simps split: if_splits)

text \<open>Results that make progress: a script with enough of them ends both loops.\<close>

fun rand_progress :: "random_result \<Rightarrow> bool" where
  "rand_progress Rand_eintr \<longleftrightarrow> False"
| "rand_progress (Rand_fail e) \<longleftrightarrow> True"
| "rand_progress (Rand_bytes bs) \<longleftrightarrow> bs \<noteq> []"

fun io_progress :: "io_result \<Rightarrow> bool" where
  "io_progress Io_eintr \<longleftrightarrow> False"
| "io_progress (Io_fail e) \<longleftrightarrow> True"
| "io_progress (Io_done n) \<longleftrightarrow> 0 < n"

lemma fill_random_returns:
  "kTokenBytes - length raw \<le> length (filter rand_progress rs) \<Longrightarrow> fill_random rs raw \<noteq> None"
proof (induction rs arbitrary: raw)
  case (Cons x rs)
  show ?case
  proof (cases x)
    case (Rand_bytes bs)
    have "kTokenBytes - length (raw @ take (kTokenBytes - length raw) bs) \<le> length (filter rand_progress rs)"
      using Cons.prems Rand_bytes by (cases bs) auto
    then show ?thesis
      using Cons.IH Rand_bytes by (simp add: fill_random_simps)
  qed (use Cons in \<open>auto simp: fill_random_simps\<close>)
qed (simp add: fill_random_simps)

lemma write_loop_returns:
  "length rest \<le> length (filter io_progress rs) \<Longrightarrow> write_loop rs tmp rest fs \<noteq> None"
proof (induction rs arbitrary: rest fs)
  case (Cons x rs)
  show ?case
  proof (cases x)
    case (Io_done n)
    have "length (drop n rest) \<le> length (filter io_progress rs)"
      using Cons.prems Io_done by (cases n) auto
    then obtain y where "write_loop rs tmp (drop n rest) (fs(tmp := map_option (\<lambda>s. s @ take n rest) (fs tmp))) = Some y"
      using Cons.IH by blast
    then show ?thesis
      using Io_done by (auto simp: write_loop_simps)
  qed (use Cons in \<open>auto simp: write_loop_simps\<close>)
qed (simp add: write_loop_simps)

definition script_suffices :: "TokenScript \<Rightarrow> bool" where
  "script_suffices sc \<longleftrightarrow>
     kTokenBytes \<le> length (filter rand_progress (ts_random sc)) \<and>
     2 * kTokenBytes + 1 \<le> length (filter io_progress (ts_writes sc))"

lemma Generate_returns:
  assumes "script_suffices sc"
  shows "AuthToken_Generate sc path fs \<noteq> None"
proof -
  obtain r where r: "fill_random (ts_random sc) [] = Some r"
    using assms fill_random_returns[of "[]" "ts_random sc"] by (auto simp: script_suffices_def)
  show ?thesis
  proof (cases r)
    case (Inr raw)
    have "write_loop (ts_writes sc) (path @ ''.tmp'') (HexEncode raw @ [CHR 0x0A])
        (fs((path @ ''.tmp'') := Some [])) \<noteq> None"
      using assms fill_random_length[of "[]" "ts_random sc" raw] r Inr
      by (intro write_loop_returns) (simp add: script_suffices_def)
    then show ?thesis
      using r Inr by (auto simp: AuthToken_Generate_def Let_def split: option.splits bool.splits)
  qed (use r in \<open>simp add: AuthToken_Generate_def\<close>)
qed

text \<open>
  The publication of a run: what every observer of the file system sees at the token's path.
\<close>

definition publishes_atomically :: "string \<Rightarrow> file_system \<Rightarrow> string outcome \<Rightarrow> file_system list \<Rightarrow> bool" where
  "publishes_atomically path fs res tr \<longleftrightarrow>
     (case res of
        Inl e \<Rightarrow> (\<forall>g \<in> set tr. g path = fs path)
      | Inr v \<Rightarrow> (\<forall>g \<in> set tr. g path \<in> {fs path, Some (v @ [CHR 0x0A])}) \<and>
          last tr path = Some (v @ [CHR 0x0A]) \<and> last tr (path @ ''.tmp'') = None \<and>
          length v = 64 \<and> set v \<subseteq> set kHex)"

lemma HexEncode_set: "set (HexEncode bs) \<subseteq> set kHex"
proof (induction bs)
  case (Cons b bs)
  have "unat b < 256" "length kHex = 16"
    using unat_lt_2p[of b] by (simp, code_simp)
  then show ?case
    using Cons by (simp add: nibbles nth_mem less_mult_imp_div_less)
qed simp

lemma Generate_written:
  fixes path :: string
  defines "tmp \<equiv> path @ ''.tmp''"
  assumes fill: "fill_random (ts_random sc) [] = Some (Inr raw)" and opened: "ts_open_error sc = None"
    and tr: "write_loop (ts_writes sc) tmp (HexEncode raw @ [CHR 0x0A]) (fs(tmp := Some [])) = Some (tr, err)"
    and gen: "AuthToken_Generate sc path fs = Some (res, tr')"
  shows "publishes_atomically path fs res tr'"
proof -
  have frame: "tr \<noteq> []" "\<forall>g \<in> set tr. g path = fs path" "last tr path = fs path"
    using write_loop_frame[OF tr] by (simp_all add: tmp_def)
  have hex: "length (HexEncode raw) = 64" "set (HexEncode raw) \<subseteq> set kHex"
    using fill_random_length[OF _ fill] HexEncode_set[of raw] by (simp_all add: kTokenBytes_def)
  have content: "err = None \<Longrightarrow> last tr tmp = Some (HexEncode raw @ [CHR 0x0A])"
    using write_loop_end[OF tr] by simp
  have gen': "Some (res, tr') = AuthToken_Generate sc path fs"
    using gen by simp
  show ?thesis
  proof (cases "err = None \<and> ts_fsync_error sc = None \<and> ts_rename_error sc = None")
    case True
    then have "res = Inr (HexEncode raw)" "tr' = fs # tr @ [(last tr)(path := last tr tmp, tmp := None)]"
      using gen' fill opened tr by (simp_all add: AuthToken_Generate_def tmp_def Let_def)
    then show ?thesis
      using True frame hex content by (simp add: publishes_atomically_def tmp_def)
  next
    case False
    then have "\<exists>e. res = Inl e" "tr' = fs # tr @ (if err = None then [(last tr)(tmp := None)] else [])"
      using gen' fill opened tr by (cases err; simp add: AuthToken_Generate_def tmp_def Let_def split: option.splits)+
    then show ?thesis
      using frame by (auto simp: publishes_atomically_def tmp_def)
  qed
qed

lemma Generate_publishes:
  assumes "AuthToken_Generate sc path fs = Some (res, tr)"
  shows "publishes_atomically path fs res tr"
proof -
  obtain r where r: "fill_random (ts_random sc) [] = Some r"
    using assms by (auto simp: AuthToken_Generate_def split: option.splits)
  show ?thesis
  proof (cases "\<exists>raw. r = Inr raw \<and> ts_open_error sc = None")
    case True
    then obtain raw where raw: "r = Inr raw" "ts_open_error sc = None"
      by blast
    then obtain tr' err where "write_loop (ts_writes sc) (path @ ''.tmp'') (HexEncode raw @ [CHR 0x0A])
        (fs((path @ ''.tmp'') := Some [])) = Some (tr', err)"
      using assms r by (auto simp: AuthToken_Generate_def Let_def split: option.splits)
    then show ?thesis
      using assms r raw Generate_written[of sc raw path fs tr' err] by simp
  next
    case False
    then show ?thesis
      using assms r by (cases r) (auto simp: AuthToken_Generate_def publishes_atomically_def Let_def)
  qed
qed

text \<open>
  C23: The token file is published atomically.  Whatever the results of the random source,
  of the writes (short writes and interrupts included), of the sync and of the rename, an
  observer of the token's path sees at every moment either what was there before or the
  complete token line; on success the path holds the 64 hex digits of the returned token
  and the temporary file is gone, on an exception the path is as before.  And the
  operation returns as soon as the system calls make progress often enough.
\<close>

theorem AuthToken_Generate_atomic:
  "(script_suffices sc \<longrightarrow> (\<exists>res tr. AuthToken_Generate sc path fs = Some (res, tr))) \<and>
   (\<forall>res tr. AuthToken_Generate sc path fs = Some (res, tr) \<longrightarrow> publishes_atomically path fs res tr)"
  using Generate_returns[of sc path fs] Generate_publishes by auto

definition sample_script :: TokenScript where
  "sample_script = \<lparr> ts_random = Rand_eintr # replicate 32 (Rand_bytes [0xa7]), ts_open_error = None,
     ts_writes = Io_eintr # replicate 65 (Io_done 1), ts_fsync_error = None, ts_rename_error = Some ''busy'' \<rparr>"

theorem AuthToken_Generate_atomic_witness:
  "script_suffices sample_script \<and>
   (\<exists>res tr. AuthToken_Generate sample_script ''t'' (\<lambda>p. None) = Some (res, tr) \<and>
     publishes_atomically ''t'' (\<lambda>p. None) res tr)"
proof -
  have "script_suffices sample_script"
    by code_simp
  then show ?thesis
    using AuthToken_Generate_atomic[of sample_script "''t''" "\<lambda>p. None"] by blast
qed

end
