(* ===== verification/Transport_Config.thy ===== *)
theory Transport_Config
  imports Auth Ring_Buffer Snapshot_Tick
begin

text \<open>
  The transport configuration (grpc/Config.h, grpc/Config.cpp): loading grpc.json with its
  range checks, variable expansion in the socket path, and the fallback for paths that do
  not fit the socket address.  The JSON library is a parameter: a document answers, per
  member path, whether the member exists and what each conversion returns or throws.  The
  lemmas show that every loaded configuration is one the ring and the snapshot scheduler
  can be built from, what expansion computes, and that the resolved path always fits.
\<close>

unbundle bit_operations_syntax

section \<open>Model\<close>

datatype Transport = kUds | kTcp

record CommandValidationConfig =
  cv_mode :: string
  cv_strict :: bool
  cv_warning_only :: bool
  cv_allow_legacy_ai_pause :: bool
  cv_allow_legacy_ai_cheats :: bool
  cv_reject_unsupported_arms :: bool
  cv_reject_order_conflicts :: bool
  cv_max_state_age_frames :: u32
  cv_max_batch_commands :: u32

record TransportEndpoint =
  te_transport :: Transport
  te_uds_path :: string
  te_tcp_bind :: string
  te_ai_token_path :: string
  te_max_recv_mb :: u32
  te_ring_size :: u32
  te_cadence_frames :: u32
  te_max_units :: u32
  te_validation :: CommandValidationConfig

definition CommandValidationConfig_default :: CommandValidationConfig where
  "CommandValidationConfig_default = \<lparr> cv_mode = ''compatibility'', cv_strict = False,
     cv_warning_only = False, cv_allow_legacy_ai_pause = True, cv_allow_legacy_ai_cheats = True,
     cv_reject_unsupported_arms = False, cv_reject_order_conflicts = False,
     cv_max_state_age_frames = 300, cv_max_batch_commands = 64 \<rparr>"

definition TransportEndpoint_default :: TransportEndpoint where
  "TransportEndpoint_default = \<lparr> te_transport = kUds,
     te_uds_path = ''$XDG_RUNTIME_DIR/highbar-${gameid}.sock'', te_tcp_bind = ''127.0.0.1:50511'',
     te_ai_token_path = ''$writeDir/highbar.token'', te_max_recv_mb = 32, te_ring_size = 2048,
     te_cadence_frames = 30, te_max_units = 1000, te_validation = CommandValidationConfig_default \<rparr>"

text \<open>A parsed document; a path names a member of a block.\<close>

record JsonDoc =
  j_isMember :: "string list \<Rightarrow> bool outcome"
  j_asString :: "string list \<Rightarrow> string outcome"
  j_asUInt :: "string list \<Rightarrow> u32 outcome"
  j_asBool :: "string list \<Rightarrow> bool outcome"

text \<open>\<open>if (root.isMember(k)) { v = root[k].asT(); check v; cfg.f = v; }\<close>\<close>

definition read_member ::
    "JsonDoc \<Rightarrow> string list \<Rightarrow> (JsonDoc \<Rightarrow> string list \<Rightarrow> 'a outcome) \<Rightarrow>
     ('a \<Rightarrow> 'c \<Rightarrow> 'c outcome) \<Rightarrow> 'c \<Rightarrow> 'c outcome" where
  "read_member root path conv accept cfg =
    bind_outcome (j_isMember root path) (\<lambda>present.
      if present then bind_outcome (conv root path) (\<lambda>v. accept v cfg) else Inr cfg)"

definition guarded :: "bool \<Rightarrow> string \<Rightarrow> 'c \<Rightarrow> 'c outcome" where
  "guarded ok msg cfg = (if ok then Inr cfg else Inl (Runtime_error msg))"

definition quoted :: "string \<Rightarrow> string" where
  "quoted s = [CHR 0x22] @ s @ [CHR 0x22]"

definition got :: "string \<Rightarrow> u32 \<Rightarrow> string" where
  "got msg v = msg @ '' (got '' @ string_of_nat (unat v) @ '')''"

definition accept_transport :: "string \<Rightarrow> TransportEndpoint \<Rightarrow> TransportEndpoint outcome" where
  "accept_transport t cfg =
    (if t = ''uds'' then Inr (cfg\<lparr>te_transport := kUds\<rparr>)
     else if t = ''tcp'' then Inr (cfg\<lparr>te_transport := kTcp\<rparr>)
     else Inl (Runtime_error (''grpc.json: transport must be '' @ quoted ''uds'' @ '' or '' @ quoted ''tcp'' @ '', got '' @ quoted t)))"

definition accept_max_recv_mb :: "u32 \<Rightarrow> TransportEndpoint \<Rightarrow> TransportEndpoint outcome" where
  "accept_max_recv_mb v cfg =
    guarded (v \<noteq> 0) ''grpc.json: max_recv_mb must be > 0'' (cfg\<lparr>te_max_recv_mb := v\<rparr>)"

definition accept_ring_size :: "u32 \<Rightarrow> TransportEndpoint \<Rightarrow> TransportEndpoint outcome" where
  "accept_ring_size v cfg =
    guarded (256 \<le> v) (got ''grpc.json: ring_size must be >= 256'' v) (cfg\<lparr>te_ring_size := v\<rparr>)"

definition load_tick :: "JsonDoc \<Rightarrow> TransportEndpoint \<Rightarrow> TransportEndpoint outcome" where
  "load_tick root cfg =
    bind_outcome (j_isMember root [''snapshot_tick'']) (\<lambda>present.
      if \<not> present then Inr cfg
      else bind_outcome
        (read_member root [''snapshot_tick'', ''snapshot_cadence_frames''] j_asUInt
          (\<lambda>v c. guarded (1 \<le> v \<and> v \<le> 1024)
            (got ''grpc.json: snapshot_tick.snapshot_cadence_frames must be in [1, 1024]'' v) (c\<lparr>te_cadence_frames := v\<rparr>)) cfg)
        (read_member root [''snapshot_tick'', ''snapshot_max_units''] j_asUInt
          (\<lambda>v c. guarded (1 \<le> v \<and> v \<le> 100000)
            (got ''grpc.json: snapshot_tick.snapshot_max_units must be in [1, 100000]'' v) (c\<lparr>te_max_units := v\<rparr>))))"

definition accept_mode :: "string \<Rightarrow> CommandValidationConfig \<Rightarrow> CommandValidationConfig outcome" where
  "accept_mode mode cv =
    guarded (mode = ''compatibility'' \<or> mode = ''warning-only'' \<or> mode = ''strict'')
      ''grpc.json: command_validation.mode must be compatibility, warning-only, or strict''
      (cv\<lparr>cv_mode := mode, cv_warning_only := (mode = ''warning-only''), cv_strict := (mode = ''strict'')\<rparr>)"

text \<open>The validation block, one member after the other.\<close>

definition validation_members ::
    "JsonDoc \<Rightarrow> (CommandValidationConfig \<Rightarrow> CommandValidationConfig outcome) list" where
  "validation_members root =
    (let k = (\<lambda>name. [''command_validation'', name]) in
        [read_member root (k ''mode'') j_asString accept_mode,
         read_member root (k ''strict'') j_asBool (\<lambda>b c. Inr (c\<lparr>cv_strict := b\<rparr>)),
         read_member root (k ''warning_only'') j_asBool (\<lambda>b c. Inr (c\<lparr>cv_warning_only := b\<rparr>)),
         read_member root (k ''allow_legacy_ai_pause'') j_asBool (\<lambda>b c. Inr (c\<lparr>cv_allow_legacy_ai_pause := b\<rparr>)),
         read_member root (k ''allow_legacy_ai_cheats'') j_asBool (\<lambda>b c. Inr (c\<lparr>cv_allow_legacy_ai_cheats := b\<rparr>)),
         read_member root (k ''reject_unsupported_arms'') j_asBool (\<lambda>b c. Inr (c\<lparr>cv_reject_unsupported_arms := b\<rparr>)),
         read_member root (k ''reject_order_conflicts'') j_asBool (\<lambda>b c. Inr (c\<lparr>cv_reject_order_conflicts := b\<rparr>)),
         read_member root (k ''max_state_age_frames'') j_asUInt (\<lambda>v c. Inr (c\<lparr>cv_max_state_age_frames := v\<rparr>)),
         read_member root (k ''max_batch_commands'') j_asUInt
           (\<lambda>v c. guarded (v \<noteq> 0) ''grpc.json: command_validation.max_batch_commands must be > 0''
             (c\<lparr>cv_max_batch_commands := v\<rparr>))])"

definition load_validation :: "JsonDoc \<Rightarrow> TransportEndpoint \<Rightarrow> TransportEndpoint outcome" where
  "load_validation root cfg =
     bind_outcome (j_isMember root [''command_validation'']) (\<lambda>present.
       if \<not> present then Inr cfg
       else bind_outcome (foldl bind_outcome (Inr (te_validation cfg)) (validation_members root))
         (\<lambda>cv. Inr (cfg\<lparr>te_validation := cv\<rparr>)))"

definition root_members :: "JsonDoc \<Rightarrow> (TransportEndpoint \<Rightarrow> TransportEndpoint outcome) list" where
  "root_members root =
      [read_member root [''transport''] j_asString accept_transport,
       read_member root [''uds_path''] j_asString (\<lambda>s c. Inr (c\<lparr>te_uds_path := s\<rparr>)),
       read_member root [''tcp_bind''] j_asString (\<lambda>s c. Inr (c\<lparr>te_tcp_bind := s\<rparr>)),
       read_member root [''ai_token_path''] j_asString (\<lambda>s c. Inr (c\<lparr>te_ai_token_path := s\<rparr>)),
       read_member root [''max_recv_mb''] j_asUInt accept_max_recv_mb,
       read_member root [''ring_size''] j_asUInt accept_ring_size,
       load_tick root,
       load_validation root]"

definition load_root :: "JsonDoc \<Rightarrow> TransportEndpoint \<Rightarrow> TransportEndpoint outcome" where
  "load_root root cfg = foldl bind_outcome (Inr cfg) (root_members root)"

text \<open>
  \<open>ai\<close> is the AI pointer with the content of the configuration file; \<open>parse\<close> is the JSON
  parser, the error text or the document.
\<close>

definition LoadTransportConfig :: "(string \<Rightarrow> string + JsonDoc) \<Rightarrow> string option \<Rightarrow> TransportEndpoint outcome" where
  "LoadTransportConfig parse ai =
    (case ai of
       None \<Rightarrow> Inr TransportEndpoint_default
     | Some contents \<Rightarrow>
        if contents = [] then Inr TransportEndpoint_default
        else (case parse contents of
            Inl errs \<Rightarrow> Inl (Runtime_error (''grpc.json parse failed: '' @ errs))
          | Inr root \<Rightarrow> load_root root TransportEndpoint_default))"

text \<open>Characters of an unbraced variable name, and the value of a variable.\<close>

definition name_char :: "char \<Rightarrow> bool" where
  "name_char c \<longleftrightarrow> (let n = of_char c :: nat in
     48 \<le> n \<and> n \<le> 57 \<or> 65 \<le> n \<and> n \<le> 90 \<or> 97 \<le> n \<and> n \<le> 122) \<or> c = CHR ''_''"

definition expand_value :: "(string \<Rightarrow> string option) \<Rightarrow> string \<Rightarrow> string \<Rightarrow> string" where
  "expand_value getenv gameid name =
    (if name = ''gameid'' then gameid
     else case getenv (c_str name) of Some v \<Rightarrow> v | None \<Rightarrow> [])"

function ExpandVars :: "(string \<Rightarrow> string option) \<Rightarrow> string \<Rightarrow> string \<Rightarrow> string" where
  "ExpandVars getenv gameid [] = []"
| "ExpandVars getenv gameid (c # cs) =
    (if c \<noteq> CHR ''$'' then c # ExpandVars getenv gameid cs
     else if cs \<noteq> [] \<and> hd cs = CHR ''{''
       then (let rest = tl cs in
             if CHR ''}'' \<notin> set rest then c # cs
             else expand_value getenv gameid (takeWhile (\<lambda>x. x \<noteq> CHR ''}'') rest) @
               ExpandVars getenv gameid (tl (dropWhile (\<lambda>x. x \<noteq> CHR ''}'') rest)))
     else expand_value getenv gameid (takeWhile name_char cs) @
       ExpandVars getenv gameid (dropWhile name_char cs))"
  by pat_completeness auto
termination
proof (relation "measure (\<lambda>(g, i, s). length s)", goal_cases)
  case (3 getenv gameid c cs rest)
  then show ?case
    using length_dropWhile_le[of "\<lambda>x. x \<noteq> CHR ''}''" "tl cs"] by simp
qed (auto simp: le_imp_less_Suc length_dropWhile_le)

declare ExpandVars.simps(2) [simp del]

text \<open>FNV-1a over the bytes, printed as sixteen hex digits and cut to twelve.\<close>

definition fnv1a :: "string \<Rightarrow> u64" where
  "fnv1a s = foldl (\<lambda>h c. (h XOR of_char c) * 1099511628211) 1469598103934665603 s"

definition hex16 :: "u64 \<Rightarrow> string" where
  "hex16 h = map (\<lambda>i. kHex ! unat (drop_bit (4 * (15 - i)) h AND 0x0f)) [0..<16]"

definition ShortHash :: "string \<Rightarrow> string" where
  "ShortHash s = take 12 (hex16 (fnv1a s))"

definition kSunPathMax :: nat where
  "kSunPathMax = 108"

definition ResolveUdsPath ::
    "(string \<Rightarrow> string option) \<Rightarrow> int option \<Rightarrow> TransportEndpoint \<Rightarrow> TransportEndpoint \<times> string" where
  "ResolveUdsPath getenv ai endpoint =
    (let gameid = (case ai of Some i \<Rightarrow> string_of_int i | None \<Rightarrow> ''0'');
         resolved = ExpandVars getenv gameid (te_uds_path endpoint);
         fallback = ''/tmp/hb-'' @ ShortHash resolved @ ''.sock'' in
     if length resolved + 1 \<le> kSunPathMax
       then (endpoint\<lparr>te_uds_path := resolved\<rparr>, resolved)
     else (endpoint\<lparr>te_uds_path := fallback\<rparr>, fallback))"

section \<open>Loading\<close>

definition validation_ok :: "CommandValidationConfig \<Rightarrow> bool" where
  "validation_ok cv \<longleftrightarrow> cv_max_batch_commands cv \<noteq> 0 \<and>
     cv_mode cv \<in> {''compatibility'', ''warning-only'', ''strict''}"

definition config_ok :: "TransportEndpoint \<Rightarrow> bool" where
  "config_ok cfg \<longleftrightarrow> te_max_recv_mb cfg \<noteq> 0 \<and> 256 \<le> te_ring_size cfg \<and>
     1 \<le> te_cadence_frames cfg \<and> te_cadence_frames cfg \<le> 1024 \<and>
     1 \<le> te_max_units cfg \<and> te_max_units cfg \<le> 100000 \<and> validation_ok (te_validation cfg)"

text \<open>A field after loading: the member's value when it is present, else the value before.\<close>

definition loads :: "JsonDoc \<Rightarrow> string list \<Rightarrow> (JsonDoc \<Rightarrow> string list \<Rightarrow> 'a outcome) \<Rightarrow> 'a \<Rightarrow> 'a \<Rightarrow> bool" where
  "loads root path conv old new \<longleftrightarrow>
     (if j_isMember root path = Inr True then conv root path = Inr new
      else j_isMember root path = Inr False \<and> new = old)"

text \<open>A member of a block, which is read only when the document has the block.\<close>

definition loads_in ::
    "JsonDoc \<Rightarrow> string \<Rightarrow> string \<Rightarrow> (JsonDoc \<Rightarrow> string list \<Rightarrow> 'a outcome) \<Rightarrow> 'a \<Rightarrow> 'a \<Rightarrow> bool" where
  "loads_in root block name conv old new \<longleftrightarrow>
     (if j_isMember root [block] = Inr True then loads root [block, name] conv old new
      else j_isMember root [block] = Inr False \<and> new = old)"

fun transport_name :: "Transport \<Rightarrow> string" where
  "transport_name kUds = ''uds''"
| "transport_name kTcp = ''tcp''"

text \<open>
  The documented meaning of the file, member by member: the document's value, and the default where it has none.  A mode
  sets the two flags, which their own members override.
\<close>

definition validation_from :: "JsonDoc \<Rightarrow> CommandValidationConfig \<Rightarrow> bool" where
  "validation_from root cv \<longleftrightarrow> (let k = ''command_validation'' in
     loads_in root k ''mode'' j_asString ''compatibility'' (cv_mode cv) \<and>
     loads_in root k ''strict'' j_asBool (cv_mode cv = ''strict'') (cv_strict cv) \<and>
     loads_in root k ''warning_only'' j_asBool (cv_mode cv = ''warning-only'') (cv_warning_only cv) \<and>
     loads_in root k ''allow_legacy_ai_pause'' j_asBool True (cv_allow_legacy_ai_pause cv) \<and>
     loads_in root k ''allow_legacy_ai_cheats'' j_asBool True (cv_allow_legacy_ai_cheats cv) \<and>
     loads_in root k ''reject_unsupported_arms'' j_asBool False (cv_reject_unsupported_arms cv) \<and>
     loads_in root k ''reject_order_conflicts'' j_asBool False (cv_reject_order_conflicts cv) \<and>
     loads_in root k ''max_state_age_frames'' j_asUInt 300 (cv_max_state_age_frames cv) \<and>
     loads_in root k ''max_batch_commands'' j_asUInt 64 (cv_max_batch_commands cv))"

definition config_from :: "JsonDoc \<Rightarrow> TransportEndpoint \<Rightarrow> bool" where
  "config_from root cfg \<longleftrightarrow>
     loads root [''transport''] j_asString ''uds'' (transport_name (te_transport cfg)) \<and>
     loads root [''uds_path''] j_asString ''$XDG_RUNTIME_DIR/highbar-${gameid}.sock'' (te_uds_path cfg) \<and>
     loads root [''tcp_bind''] j_asString ''127.0.0.1:50511'' (te_tcp_bind cfg) \<and>
     loads root [''ai_token_path''] j_asString ''$writeDir/highbar.token'' (te_ai_token_path cfg) \<and>
     loads root [''max_recv_mb''] j_asUInt 32 (te_max_recv_mb cfg) \<and>
     loads root [''ring_size''] j_asUInt 2048 (te_ring_size cfg) \<and>
     loads_in root ''snapshot_tick'' ''snapshot_cadence_frames'' j_asUInt 30 (te_cadence_frames cfg) \<and>
     loads_in root ''snapshot_tick'' ''snapshot_max_units'' j_asUInt 1000 (te_max_units cfg) \<and>
     validation_from root (te_validation cfg)"

lemma read_member_cases:
  assumes "read_member root path conv accept c = Inr c'"
  obtains "j_isMember root path = Inr False" "c' = c"
    | v where "j_isMember root path = Inr True" "conv root path = Inr v" "accept v c = Inr c'"
  using assms by (auto simp: read_member_def bind_outcome_Inr_iff split: if_splits)

lemma guarded_Inr [simp]: "guarded ok msg c = Inr c' \<longleftrightarrow> ok \<and> c' = c"
  by (auto simp: guarded_def)

definition keeps :: "('c \<Rightarrow> bool) \<Rightarrow> ('c \<Rightarrow> 'c outcome) \<Rightarrow> bool" where
  "keeps P f \<longleftrightarrow> (\<forall>c c'. P c \<longrightarrow> f c = Inr c' \<longrightarrow> P c')"

lemma read_member_keeps:
  assumes "\<And>v c c'. P c \<Longrightarrow> accept v c = Inr c' \<Longrightarrow> P c'"
  shows "keeps P (read_member root path conv accept)"
  unfolding keeps_def by (blast elim: read_member_cases intro: assms)

lemma foldl_bind_Inl [simp]: "foldl bind_outcome (Inl e) fs = Inl e"
  by (induction fs) simp_all

lemma foldl_bind_append_Inr:
  "foldl bind_outcome (Inr c) (fs @ gs) = Inr c' \<longleftrightarrow>
   (\<exists>c1. foldl bind_outcome (Inr c) fs = Inr c1 \<and> foldl bind_outcome (Inr c1) gs = Inr c')"
  by (cases "foldl bind_outcome (Inr c) fs") simp_all

lemma foldl_bind_keeps:
  assumes "list_all (keeps P) fs" "foldl bind_outcome (Inr c) fs = Inr c'" "P c"
  shows "P c'"
  using assms
proof (induction fs arbitrary: c)
  case (Cons f fs)
  then show ?case by (cases "f c") (auto simp: keeps_def)
qed simp

lemma foldl_bind_loads:
  assumes run: "foldl bind_outcome (Inr c) ms = Inr c'"
    and i: "i < length ms" "ms ! i = read_member root path conv accept"
    and others: "\<And>k. list_all (keeps (\<lambda>c. fld c = k)) (take i ms @ drop (Suc i) ms)"
    and set: "\<And>v c c'. accept v c = Inr c' \<Longrightarrow> fld c' = v"
  shows "loads root path conv (fld c) (fld c')"
proof -
  let ?f = "read_member root path conv accept"
  have "foldl bind_outcome (Inr c) (take i ms @ [?f] @ drop (Suc i) ms) = Inr c'"
    using run id_take_nth_drop[OF i(1)] i(2) by simp
  then obtain c1 c2 where c: "foldl bind_outcome (Inr c) (take i ms) = Inr c1"
      "foldl bind_outcome (Inr c1) [?f] = Inr c2" "foldl bind_outcome (Inr c2) (drop (Suc i) ms) = Inr c'"
    unfolding foldl_bind_append_Inr by blast
  have "fld c1 = fld c" "fld c' = fld c2"
    using others foldl_bind_keeps[OF _ c(1)] foldl_bind_keeps[OF _ c(3)] by auto
  moreover have "?f c1 = Inr c2"
    using c(2) by simp
  then have "loads root path conv (fld c1) (fld c2)"
    by (cases rule: read_member_cases) (auto simp: loads_def set)
  ultimately show ?thesis by simp
qed

lemma validation_members_ok: "list_all (keeps validation_ok) (validation_members root)"
  unfolding validation_members_def Let_def list.pred_inject
  by (intro conjI list.pred_inject(1); rule read_member_keeps) (auto simp: validation_ok_def accept_mode_def)

lemma load_validation_keeps:
  assumes "\<And>c cv. P c \<Longrightarrow> (validation_ok (te_validation c) \<longrightarrow> validation_ok cv) \<Longrightarrow> P (c\<lparr>te_validation := cv\<rparr>)"
  shows "keeps P (load_validation root)"
  unfolding keeps_def
proof (intro allI impI)
  fix c c'
  assume "P c" and run: "load_validation root c = Inr c'"
  show "P c'"
  proof (cases "j_isMember root [''command_validation''] = Inr True")
    case True
    with run obtain cv where "c' = c\<lparr>te_validation := cv\<rparr>"
        "foldl bind_outcome (Inr (te_validation c)) (validation_members root) = Inr cv"
      by (auto simp: load_validation_def bind_outcome_Inr_iff)
    then show ?thesis
      using assms[OF \<open>P c\<close>] foldl_bind_keeps[OF validation_members_ok] by simp
  next
    case False
    then show ?thesis
      using run \<open>P c\<close> by (auto simp: load_validation_def bind_outcome_Inr_iff split: if_splits)
  qed
qed

lemma load_tick_keeps:
  assumes "\<And>c v. P c \<Longrightarrow> 1 \<le> v \<Longrightarrow> v \<le> 1024 \<Longrightarrow> P (c\<lparr>te_cadence_frames := v\<rparr>)"
    and "\<And>c v. P c \<Longrightarrow> 1 \<le> v \<Longrightarrow> v \<le> 100000 \<Longrightarrow> P (c\<lparr>te_max_units := v\<rparr>)"
  shows "keeps P (load_tick root)"
  unfolding keeps_def
proof (intro allI impI)
  fix c c'
  assume "P c" and run: "load_tick root c = Inr c'"
  let ?cadence = "read_member root [''snapshot_tick'', ''snapshot_cadence_frames''] j_asUInt
      (\<lambda>v c. guarded (1 \<le> v \<and> v \<le> 1024)
        (got ''grpc.json: snapshot_tick.snapshot_cadence_frames must be in [1, 1024]'' v) (c\<lparr>te_cadence_frames := v\<rparr>))"
  let ?units = "read_member root [''snapshot_tick'', ''snapshot_max_units''] j_asUInt
      (\<lambda>v c. guarded (1 \<le> v \<and> v \<le> 100000)
        (got ''grpc.json: snapshot_tick.snapshot_max_units must be in [1, 100000]'' v) (c\<lparr>te_max_units := v\<rparr>))"
  have "keeps P ?cadence" "keeps P ?units"
    by (rule read_member_keeps; use assms in auto)+
  note kept = this
  show "P c'"
  proof (cases "j_isMember root [''snapshot_tick''] = Inr True")
    case True
    with run obtain c1 where "?cadence c = Inr c1" "?units c1 = Inr c'"
      by (simp add: load_tick_def bind_outcome_Inr_iff del: guarded_Inr) blast
    then show ?thesis
      using kept \<open>P c\<close> unfolding keeps_def by blast
  next
    case False
    then show ?thesis
      using run \<open>P c\<close> by (auto simp: load_tick_def bind_outcome_Inr_iff split: if_splits)
  qed
qed

lemmas accept_simps = accept_transport_def accept_max_recv_mb_def accept_ring_size_def

lemma root_members_ok: "list_all (keeps config_ok) (root_members root)"
  unfolding root_members_def list.pred_inject
proof (intro conjI list.pred_inject(1))
  show "keeps config_ok (load_tick root)"
    by (rule load_tick_keeps) (simp_all add: config_ok_def)
  show "keeps config_ok (load_validation root)"
    by (rule load_validation_keeps) (simp add: config_ok_def)
qed (rule read_member_keeps; auto simp: config_ok_def accept_simps split: if_splits)+

lemma read_member_untouched:
  assumes "\<And>v c. case accept v c of Inr c' \<Rightarrow> fld c' = fld c | Inl e \<Rightarrow> True"
  shows "keeps (\<lambda>c. fld c = k) (read_member root path conv accept)"
proof (rule read_member_keeps)
  fix v c c'
  assume "fld c = k" "accept v c = Inr c'"
  then show "fld c' = k"
    using assms[of c v] by simp
qed

lemma root_untouched:
  "keeps (\<lambda>c. transport_name (te_transport c) = s) (load_tick root)"
  "keeps (\<lambda>c. transport_name (te_transport c) = s) (load_validation root)"
  "keeps (\<lambda>c. te_uds_path c = s) (load_tick root)" "keeps (\<lambda>c. te_uds_path c = s) (load_validation root)"
  "keeps (\<lambda>c. te_tcp_bind c = s) (load_tick root)" "keeps (\<lambda>c. te_tcp_bind c = s) (load_validation root)"
  "keeps (\<lambda>c. te_ai_token_path c = s) (load_tick root)" "keeps (\<lambda>c. te_ai_token_path c = s) (load_validation root)"
  "keeps (\<lambda>c. te_max_recv_mb c = n) (load_tick root)" "keeps (\<lambda>c. te_max_recv_mb c = n) (load_validation root)"
  "keeps (\<lambda>c. te_ring_size c = n) (load_tick root)" "keeps (\<lambda>c. te_ring_size c = n) (load_validation root)"
  "keeps (\<lambda>c. te_cadence_frames c = n) (load_validation root)" "keeps (\<lambda>c. te_max_units c = n) (load_validation root)"
  "keeps (\<lambda>c. te_validation c = cv) (load_tick root)"
  by (rule load_tick_keeps load_validation_keeps; simp)+

lemma read_member_loads:
  assumes "read_member root path conv accept c = Inr c'" "\<And>v. accept v c = Inr c' \<Longrightarrow> fld c' = v"
  shows "loads root path conv (fld c) (fld c')"
  using assms(1) by (cases rule: read_member_cases) (auto simp: loads_def assms(2))

text \<open>The scheduler block.\<close>

lemma load_tick_loads:
  assumes "load_tick root c = Inr c'"
  shows "loads_in root ''snapshot_tick'' ''snapshot_cadence_frames'' j_asUInt (te_cadence_frames c) (te_cadence_frames c')"
    and "loads_in root ''snapshot_tick'' ''snapshot_max_units'' j_asUInt (te_max_units c) (te_max_units c')"
proof -
  let ?cadence = "read_member root [''snapshot_tick'', ''snapshot_cadence_frames''] j_asUInt
      (\<lambda>v c. guarded (1 \<le> v \<and> v \<le> 1024)
        (got ''grpc.json: snapshot_tick.snapshot_cadence_frames must be in [1, 1024]'' v) (c\<lparr>te_cadence_frames := v\<rparr>))"
  let ?units = "read_member root [''snapshot_tick'', ''snapshot_max_units''] j_asUInt
      (\<lambda>v c. guarded (1 \<le> v \<and> v \<le> 100000)
        (got ''grpc.json: snapshot_tick.snapshot_max_units must be in [1, 100000]'' v) (c\<lparr>te_max_units := v\<rparr>))"
  consider (absent) "j_isMember root [''snapshot_tick''] = Inr False" "c' = c"
    | (present) c1 where "j_isMember root [''snapshot_tick''] = Inr True" "?cadence c = Inr c1" "?units c1 = Inr c'"
    using assms by (auto simp: load_tick_def bind_outcome_Inr_iff simp del: guarded_Inr split: if_splits)
  then have "loads_in root ''snapshot_tick'' ''snapshot_cadence_frames'' j_asUInt (te_cadence_frames c) (te_cadence_frames c') \<and>
    loads_in root ''snapshot_tick'' ''snapshot_max_units'' j_asUInt (te_max_units c) (te_max_units c')"
  proof cases
    case present
    have "te_max_units c1 = te_max_units c" "te_cadence_frames c' = te_cadence_frames c1"
      using present(2,3) by (auto elim!: read_member_cases)
    moreover have "loads root [''snapshot_tick'', ''snapshot_cadence_frames''] j_asUInt (te_cadence_frames c) (te_cadence_frames c1)"
      by (rule read_member_loads[OF present(2)]) auto
    moreover have "loads root [''snapshot_tick'', ''snapshot_max_units''] j_asUInt (te_max_units c1) (te_max_units c')"
      by (rule read_member_loads[OF present(3)]) auto
    ultimately show ?thesis using present(1) by (simp add: loads_in_def)
  qed (simp add: loads_in_def)
  then show "loads_in root ''snapshot_tick'' ''snapshot_cadence_frames'' j_asUInt (te_cadence_frames c) (te_cadence_frames c')"
    "loads_in root ''snapshot_tick'' ''snapshot_max_units'' j_asUInt (te_max_units c) (te_max_units c')"
    by simp_all
qed

text \<open>The validation block, when the document has it.\<close>

lemma validation_members_loads:
  assumes run: "foldl bind_outcome (Inr c) (validation_members root) = Inr c'" and start: "c = CommandValidationConfig_default"
  defines "k \<equiv> \<lambda>name. [''command_validation'', name]"
  shows "loads root (k ''mode'') j_asString ''compatibility'' (cv_mode c')"
    and "loads root (k ''strict'') j_asBool (cv_mode c' = ''strict'') (cv_strict c')"
    and "loads root (k ''warning_only'') j_asBool (cv_mode c' = ''warning-only'') (cv_warning_only c')"
    and "loads root (k ''allow_legacy_ai_pause'') j_asBool True (cv_allow_legacy_ai_pause c')"
    and "loads root (k ''allow_legacy_ai_cheats'') j_asBool True (cv_allow_legacy_ai_cheats c')"
    and "loads root (k ''reject_unsupported_arms'') j_asBool False (cv_reject_unsupported_arms c')"
    and "loads root (k ''reject_order_conflicts'') j_asBool False (cv_reject_order_conflicts c')"
    and "loads root (k ''max_state_age_frames'') j_asUInt 300 (cv_max_state_age_frames c')"
    and "loads root (k ''max_batch_commands'') j_asUInt 64 (cv_max_batch_commands c')"
proof -
  let ?ms = "validation_members root"
  note simps = validation_members_def Let_def k_def read_member_untouched accept_mode_def guarded_def
  have fields: "cv_mode c = ''compatibility''" "cv_allow_legacy_ai_pause c" "cv_allow_legacy_ai_cheats c"
      "\<not> cv_reject_unsupported_arms c" "\<not> cv_reject_order_conflicts c" "cv_max_state_age_frames c = 300" "cv_max_batch_commands c = 64"
    using start by (simp_all add: CommandValidationConfig_default_def)
  show "loads root (k ''mode'') j_asString ''compatibility'' (cv_mode c')"
    unfolding fields(1)[symmetric]
    by (rule foldl_bind_loads[OF run, where i=0 and accept=accept_mode]) (auto simp: simps split: if_splits)
  have "loads root (k ''allow_legacy_ai_pause'') j_asBool (cv_allow_legacy_ai_pause c) (cv_allow_legacy_ai_pause c')"
    by (rule foldl_bind_loads[OF run, where i=3 and accept="\<lambda>b c. Inr (c\<lparr>cv_allow_legacy_ai_pause := b\<rparr>)"]) (auto simp: simps split: if_splits)
  then show "loads root (k ''allow_legacy_ai_pause'') j_asBool True (cv_allow_legacy_ai_pause c')"
    using fields by simp
  have "loads root (k ''allow_legacy_ai_cheats'') j_asBool (cv_allow_legacy_ai_cheats c) (cv_allow_legacy_ai_cheats c')"
    by (rule foldl_bind_loads[OF run, where i=4 and accept="\<lambda>b c. Inr (c\<lparr>cv_allow_legacy_ai_cheats := b\<rparr>)"]) (auto simp: simps split: if_splits)
  then show "loads root (k ''allow_legacy_ai_cheats'') j_asBool True (cv_allow_legacy_ai_cheats c')"
    using fields by simp
  have "loads root (k ''reject_unsupported_arms'') j_asBool (cv_reject_unsupported_arms c) (cv_reject_unsupported_arms c')"
    by (rule foldl_bind_loads[OF run, where i=5 and accept="\<lambda>b c. Inr (c\<lparr>cv_reject_unsupported_arms := b\<rparr>)"]) (auto simp: simps split: if_splits)
  then show "loads root (k ''reject_unsupported_arms'') j_asBool False (cv_reject_unsupported_arms c')"
    using fields by simp
  have "loads root (k ''reject_order_conflicts'') j_asBool (cv_reject_order_conflicts c) (cv_reject_order_conflicts c')"
    by (rule foldl_bind_loads[OF run, where i=6 and accept="\<lambda>b c. Inr (c\<lparr>cv_reject_order_conflicts := b\<rparr>)"]) (auto simp: simps split: if_splits)
  then show "loads root (k ''reject_order_conflicts'') j_asBool False (cv_reject_order_conflicts c')"
    using fields by simp
  show "loads root (k ''max_state_age_frames'') j_asUInt 300 (cv_max_state_age_frames c')"
    unfolding fields(6)[symmetric]
    by (rule foldl_bind_loads[OF run, where i=7 and accept="\<lambda>v c. Inr (c\<lparr>cv_max_state_age_frames := v\<rparr>)"])
      (auto simp: simps split: if_splits)
  show "loads root (k ''max_batch_commands'') j_asUInt 64 (cv_max_batch_commands c')"
    unfolding fields(7)[symmetric]
    by (rule foldl_bind_loads[OF run, where i=8 and accept="\<lambda>v c. guarded (v \<noteq> 0)
        ''grpc.json: command_validation.max_batch_commands must be > 0'' (c\<lparr>cv_max_batch_commands := v\<rparr>)"])
      (auto simp: simps split: if_splits)
  obtain c1 where c1: "read_member root (k ''mode'') j_asString accept_mode c = Inr c1"
      "foldl bind_outcome (Inr c1) (tl ?ms) = Inr c'"
    using run by (cases "read_member root (k ''mode'') j_asString accept_mode c") (auto simp: validation_members_def k_def)
  have flags: "cv_strict c1 \<longleftrightarrow> cv_mode c1 = ''strict''" "cv_warning_only c1 \<longleftrightarrow> cv_mode c1 = ''warning-only''"
    using c1(1) start by (auto elim!: read_member_cases simp: accept_mode_def CommandValidationConfig_default_def)
  have mode: "cv_mode c' = cv_mode c1"
    by (rule foldl_bind_keeps[OF _ c1(2)]) (auto simp: simps split: if_splits)
  show "loads root (k ''strict'') j_asBool (cv_mode c' = ''strict'') (cv_strict c')"
    unfolding mode flags(1)[symmetric]
    by (rule foldl_bind_loads[OF c1(2), where i=0 and accept="\<lambda>b c. Inr (c\<lparr>cv_strict := b\<rparr>)"]) (auto simp: simps split: if_splits)
  show "loads root (k ''warning_only'') j_asBool (cv_mode c' = ''warning-only'') (cv_warning_only c')"
    unfolding mode flags(2)[symmetric]
    by (rule foldl_bind_loads[OF c1(2), where i=1 and accept="\<lambda>b c. Inr (c\<lparr>cv_warning_only := b\<rparr>)"]) (auto simp: simps split: if_splits)
qed

lemma load_validation_from:
  assumes "load_validation root c = Inr c'" "te_validation c = CommandValidationConfig_default"
  shows "validation_from root (te_validation c')"
proof (cases "j_isMember root [''command_validation''] = Inr True")
  case True
  with assms(1) obtain cv where "c' = c\<lparr>te_validation := cv\<rparr>"
      "foldl bind_outcome (Inr (te_validation c)) (validation_members root) = Inr cv"
    by (auto simp: load_validation_def bind_outcome_Inr_iff)
  then show ?thesis
    using validation_members_loads[OF _ assms(2)] True by (simp add: validation_from_def loads_in_def Let_def)
next
  case False
  then have "j_isMember root [''command_validation''] = Inr False" "c' = c"
    using assms(1) by (auto simp: load_validation_def bind_outcome_Inr_iff split: if_splits)
  then show ?thesis
    using assms(2) by (simp add: validation_from_def loads_in_def CommandValidationConfig_default_def Let_def)
qed

lemma root_members_from:
  assumes run: "foldl bind_outcome (Inr TransportEndpoint_default) (root_members root) = Inr cfg"
  shows "config_from root cfg"
proof -
  let ?d = TransportEndpoint_default
  note simps = root_members_def root_untouched read_member_untouched accept_simps guarded_def
  have fields: "transport_name (te_transport ?d) = ''uds''" "te_uds_path ?d = ''$XDG_RUNTIME_DIR/highbar-${gameid}.sock''"
      "te_tcp_bind ?d = ''127.0.0.1:50511''" "te_ai_token_path ?d = ''$writeDir/highbar.token''"
      "te_max_recv_mb ?d = 32" "te_ring_size ?d = 2048" "te_cadence_frames ?d = 30" "te_max_units ?d = 1000"
      "te_validation ?d = CommandValidationConfig_default"
    by (simp_all add: TransportEndpoint_default_def)
  have "loads root [''transport''] j_asString (transport_name (te_transport ?d)) (transport_name (te_transport cfg))"
    by (rule foldl_bind_loads[OF run, where i=0 and accept=accept_transport]) (auto simp: simps split: if_splits)
  moreover have "loads root [''uds_path''] j_asString (te_uds_path ?d) (te_uds_path cfg)"
    by (rule foldl_bind_loads[OF run, where i=1 and accept="\<lambda>s c. Inr (c\<lparr>te_uds_path := s\<rparr>)"]) (auto simp: simps split: if_splits)
  moreover have "loads root [''tcp_bind''] j_asString (te_tcp_bind ?d) (te_tcp_bind cfg)"
    by (rule foldl_bind_loads[OF run, where i=2 and accept="\<lambda>s c. Inr (c\<lparr>te_tcp_bind := s\<rparr>)"]) (auto simp: simps split: if_splits)
  moreover have "loads root [''ai_token_path''] j_asString (te_ai_token_path ?d) (te_ai_token_path cfg)"
    by (rule foldl_bind_loads[OF run, where i=3 and accept="\<lambda>s c. Inr (c\<lparr>te_ai_token_path := s\<rparr>)"]) (auto simp: simps split: if_splits)
  moreover have "loads root [''max_recv_mb''] j_asUInt (te_max_recv_mb ?d) (te_max_recv_mb cfg)"
    by (rule foldl_bind_loads[OF run, where i=4 and accept=accept_max_recv_mb]) (auto simp: simps split: if_splits)
  moreover have "loads root [''ring_size''] j_asUInt (te_ring_size ?d) (te_ring_size cfg)"
    by (rule foldl_bind_loads[OF run, where i=5 and accept=accept_ring_size]) (auto simp: simps split: if_splits)
  moreover obtain c1 c2 where c: "foldl bind_outcome (Inr ?d) (take 6 (root_members root)) = Inr c1" "load_tick root c1 = Inr c2"
      "load_validation root c2 = Inr cfg"
    using run foldl_bind_append_Inr[of ?d "take 6 (root_members root)" "drop 6 (root_members root)" cfg]
    by (auto simp: root_members_def bind_outcome_Inr_iff)
  have start: "te_cadence_frames c1 = 30" "te_max_units c1 = 1000" "te_validation c1 = CommandValidationConfig_default"
    by (rule foldl_bind_keeps[OF _ c(1)]; auto simp: simps fields split: if_splits)+
  have "te_cadence_frames cfg = te_cadence_frames c2" "te_max_units cfg = te_max_units c2"
      "te_validation c2 = CommandValidationConfig_default"
    using root_untouched(13,14,15) c(2,3) start(3) unfolding keeps_def by blast+
  moreover from this have "validation_from root (te_validation cfg)"
    using load_validation_from[OF c(3)] by simp
  ultimately show ?thesis
    using load_tick_loads[OF c(2)] start fields by (simp add: config_from_def)
qed

text \<open>
  C24: A configuration that loads is the one the document describes, and one the gateway can be built from.  For every JSON
  document, if loading returns a configuration then each of its seventeen members, of the top level and of the two blocks, has
  the value the document gives it and its default where the document has none (the mode of command validation sets the two flags
  unless they are given); sizes, cadences, limits and mode are
  in their documented ranges, the history ring of the configured size can be constructed, and the
  snapshot scheduler configured with it is well-formed.
\<close>

theorem LoadTransportConfig_valid:
  assumes "contents \<noteq> []" and "parse contents = Inr root"
    and "LoadTransportConfig parse (Some contents) = Inr cfg"
  shows "config_from root cfg \<and> config_ok cfg \<and>
    (\<exists>rb. RingBuffer_new (unat (te_ring_size cfg)) = Inr rb \<and> ring_wf rb) \<and>
    tick_wf (SnapshotTick_Configure (te_cadence_frames cfg) (te_max_units cfg) SnapshotTick_default)"
proof (intro conjI)
  have run: "foldl bind_outcome (Inr TransportEndpoint_default) (root_members root) = Inr cfg"
    using assms by (simp add: LoadTransportConfig_def load_root_def)
  then show "config_from root cfg"
    by (rule root_members_from)
  have "config_ok TransportEndpoint_default"
    by code_simp
  then show ok: "config_ok cfg"
    by (rule foldl_bind_keeps[OF root_members_ok run])
  have "unat (256 :: u32) \<le> unat (te_ring_size cfg)"
    using ok by (simp only: word_le_nat_alt[symmetric] config_ok_def)
  then show "\<exists>rb. RingBuffer_new (unat (te_ring_size cfg)) = Inr rb \<and> ring_wf rb"
    using RingBuffer_new_wf[of "unat (te_ring_size cfg)"] by (simp add: RingBuffer_new_def)
  show "tick_wf (SnapshotTick_Configure (te_cadence_frames cfg) (te_max_units cfg) SnapshotTick_default)"
    using ok by (simp add: tick_wf_def SnapshotTick_Configure_def config_ok_def)
qed

text \<open>A document with a ring size, a cadence and a strict mode that its own flag switches off.\<close>

definition sample_doc :: JsonDoc where
  "sample_doc = \<lparr>
     j_isMember = (\<lambda>path. Inr (path \<in> {[''ring_size''], [''transport''], [''snapshot_tick''], [''snapshot_tick'', ''snapshot_cadence_frames''],
       [''command_validation''], [''command_validation'', ''mode''], [''command_validation'', ''strict'']})),
     j_asString = (\<lambda>path. Inr (if path = [''transport''] then ''tcp'' else ''strict'')),
     j_asUInt = (\<lambda>path. Inr (if path = [''ring_size''] then 4096 else 60)), j_asBool = (\<lambda>path. Inr False) \<rparr>"

definition sample_config :: TransportEndpoint where
  "sample_config = TransportEndpoint_default\<lparr>te_ring_size := 4096, te_transport := kTcp, te_cadence_frames := 60,
     te_validation := CommandValidationConfig_default\<lparr>cv_mode := ''strict''\<rparr>\<rparr>"

theorem LoadTransportConfig_valid_witness:
  "LoadTransportConfig (\<lambda>s. Inr sample_doc) (Some ''{}'') = Inr sample_config \<and>
   config_from sample_doc sample_config \<and> config_ok sample_config"
proof -
  have "LoadTransportConfig (\<lambda>s. Inr sample_doc) (Some ''{}'') = Inr sample_config"
    by code_simp
  then show ?thesis
    using LoadTransportConfig_valid[of "''{}''" "\<lambda>s. Inr sample_doc" sample_doc sample_config] by simp
qed

section \<open>Expansion\<close>

text \<open>Templates: literal text, braced variables and unbraced variables.\<close>

datatype segment = Lit string | Braced string | Bare string

fun render_segment :: "segment \<Rightarrow> string" where
  "render_segment (Lit s) = s"
| "render_segment (Braced n) = ''${'' @ n @ ''}''"
| "render_segment (Bare n) = CHR ''$'' # n"

fun segment_value :: "(string \<Rightarrow> string option) \<Rightarrow> string \<Rightarrow> segment \<Rightarrow> string" where
  "segment_value getenv gameid (Lit s) = s"
| "segment_value getenv gameid (Braced n) = expand_value getenv gameid n"
| "segment_value getenv gameid (Bare n) = expand_value getenv gameid n"

definition render :: "segment list \<Rightarrow> string" where
  "render segs = concat (map render_segment segs)"

text \<open>An unbraced name ends where the next character cannot continue it.\<close>

fun template_ok :: "segment list \<Rightarrow> bool" where
  "template_ok [] \<longleftrightarrow> True"
| "template_ok (Lit s # segs) \<longleftrightarrow> CHR ''$'' \<notin> set s \<and> template_ok segs"
| "template_ok (Braced n # segs) \<longleftrightarrow> CHR ''}'' \<notin> set n \<and> template_ok segs"
| "template_ok (Bare n # segs) \<longleftrightarrow> n \<noteq> [] \<and> list_all name_char n \<and>
     (render segs = [] \<or> \<not> name_char (hd (render segs))) \<and> template_ok segs"

lemma ExpandVars_lit:
  "CHR ''$'' \<notin> set s \<Longrightarrow> ExpandVars getenv gameid (s @ t) = s @ ExpandVars getenv gameid t"
  by (induction s) (auto simp: ExpandVars.simps)

lemma ExpandVars_braced:
  assumes "CHR ''}'' \<notin> set n"
  shows "ExpandVars getenv gameid (''${'' @ n @ ''}'' @ t) =
    expand_value getenv gameid n @ ExpandVars getenv gameid t"
proof -
  have "x \<noteq> CHR ''}''" if "x \<in> set n" for x
    using assms that by auto
  then have "takeWhile (\<lambda>x. x \<noteq> CHR ''}'') (n @ ''}'' @ t) = n"
      "dropWhile (\<lambda>x. x \<noteq> CHR ''}'') (n @ ''}'' @ t) = ''}'' @ t"
    by (simp_all add: takeWhile_append dropWhile_append)
  then show ?thesis
    by (simp add: ExpandVars.simps)
qed

lemma ExpandVars_bare:
  assumes "n \<noteq> []" "list_all name_char n" "t = [] \<or> \<not> name_char (hd t)"
  shows "ExpandVars getenv gameid (CHR ''$'' # n @ t) =
    expand_value getenv gameid n @ ExpandVars getenv gameid t"
proof -
  have t: "takeWhile name_char t = []" "dropWhile name_char t = t"
    using assms(3) by (cases t; simp)+
  have "takeWhile name_char (n @ t) = n" "dropWhile name_char (n @ t) = t"
    using assms(2) t by (simp_all add: takeWhile_append dropWhile_append list_all_iff)
  moreover have "hd (n @ t) \<noteq> CHR ''{''"
    using assms(1,2) by (cases n) (auto simp: name_char_def)
  ultimately show ?thesis
    using assms(1) by (simp add: ExpandVars.simps)
qed

text \<open>
  C25: Variable expansion computes the value of the template.  For every sequence of literal
  text, braced and unbraced variables, the expansion of its text is the literal text with
  each variable replaced by the game id or its environment value, the empty string for a
  variable that is not set; values are not expanded again.
\<close>

theorem ExpandVars_template:
  "template_ok segs \<Longrightarrow>
   ExpandVars getenv gameid (render segs) = concat (map (segment_value getenv gameid) segs)"
proof (induction segs rule: template_ok.induct)
  case (3 n segs)
  then show ?case
    using ExpandVars_braced[of n getenv gameid "render segs"] by (simp add: render_def)
next
  case (4 n segs)
  then show ?case
    using ExpandVars_bare[of n "render segs" getenv gameid] by (simp add: render_def)
qed (simp_all add: render_def ExpandVars_lit)

theorem ExpandVars_template_witness:
  "ExpandVars [''XDG_RUNTIME_DIR'' \<mapsto> ''/run/$HOME''] ''7''
     (render [Bare ''XDG_RUNTIME_DIR'', Lit ''/highbar-'', Braced ''gameid'', Lit ''.sock'']) =
   ''/run/$HOME/highbar-7.sock''"
proof -
  have "template_ok [Bare ''XDG_RUNTIME_DIR'', Lit ''/highbar-'', Braced ''gameid'', Lit ''.sock'']"
    by code_simp
  moreover have "concat (map (segment_value [''XDG_RUNTIME_DIR'' \<mapsto> ''/run/$HOME''] ''7'')
      [Bare ''XDG_RUNTIME_DIR'', Lit ''/highbar-'', Braced ''gameid'', Lit ''.sock'']) = ''/run/$HOME/highbar-7.sock''"
    by code_simp
  ultimately show ?thesis
    using ExpandVars_template by metis
qed

lemma length_ShortHash [simp]: "length (ShortHash s) = 12"
  by (simp add: ShortHash_def hex16_def)

text \<open>
  The resolved socket path fits the socket address.  Whatever the configured path, the
  environment and the game id, the path the server binds has room for its terminating zero
  in the 108 bytes of the address, is the one stored back into the endpoint, and is
  the expansion of the configured path whenever that fits.
\<close>

theorem ResolveUdsPath_fits:
  "(case ResolveUdsPath getenv ai endpoint of (endpoint', path) \<Rightarrow>
     length path + 1 \<le> 108 \<and> endpoint' = endpoint\<lparr>te_uds_path := path\<rparr> \<and>
     (let expanded = ExpandVars getenv (case ai of Some i \<Rightarrow> string_of_int i | None \<Rightarrow> ''0'') (te_uds_path endpoint) in
      path = expanded \<or> (108 \<le> length expanded \<and> path = ''/tmp/hb-'' @ ShortHash expanded @ ''.sock'')))"
  by (simp add: ResolveUdsPath_def Let_def kSunPathMax_def)

end
