(* ===== verification/Grpc_Log.thy ===== *)
theory Grpc_Log
  imports Auth
begin

text \<open>
  Fault reporting (grpc/GrpcLog.h, grpc/GrpcLog.cpp): the escaping of fault details, the
  reason code of an exception and the health file.  The log records themselves are in
  \<open>Log_Records\<close>.  The lemmas show that a reader of JSON strings gets back
  exactly the detail that was reported, and that the health file is a single line that is
  replaced atomically.
\<close>

section \<open>Model\<close>

text \<open>Four lower-case hex digits, as printed by the format of \<open>JsonEscape\<close>.\<close>

definition hex4 :: "nat \<Rightarrow> string" where
  "hex4 n = map (\<lambda>i. kHex ! (n div 16 ^ i mod 16)) [3, 2, 1, 0]"

definition escape_char :: "char \<Rightarrow> string" where
  "escape_char c =
    (if c = CHR 0x22 then [CHR 0x5C, CHR 0x22]
     else if c = CHR 0x5C then [CHR 0x5C, CHR 0x5C]
     else if c = CHR 0x0A then [CHR 0x5C, CHR ''n'']
     else if c = CHR 0x0D then [CHR 0x5C, CHR ''r'']
     else if c = CHR 0x09 then [CHR 0x5C, CHR ''t'']
     else if of_char c < (0x20 :: nat) then [CHR 0x5C, CHR ''u''] @ hex4 (of_char c)
     else [c])"

definition JsonEscape :: "string \<Rightarrow> string" where
  "JsonEscape s = concat (map escape_char s)"

text \<open>The classes of \<open>std::exception\<close> that \<open>ReasonCodeFor\<close> tells apart; none for a null pointer.\<close>

datatype exception_class =
    Bad_alloc | Invalid_argument_class | Range_error | Logic_error_class | Runtime_error_class
  | Std_exception | Foreign_exception

definition ReasonCodeFor :: "exception_class option \<Rightarrow> string" where
  "ReasonCodeFor ep = (case ep of
       None \<Rightarrow> ''rpc_internal''
     | Some Bad_alloc \<Rightarrow> ''oom''
     | Some Invalid_argument_class \<Rightarrow> ''malformed_frame''
     | Some Range_error \<Rightarrow> ''malformed_frame''
     | Some Logic_error_class \<Rightarrow> ''assertion_failed''
     | Some Runtime_error_class \<Rightarrow> ''rpc_internal''
     | Some Std_exception \<Rightarrow> ''rpc_internal''
     | Some Foreign_exception \<Rightarrow> ''rpc_internal'')"

text \<open>A JSON text with quotes written as \<open>'\<close>.\<close>

definition jq :: "string \<Rightarrow> string" where
  "jq s = map (\<lambda>c. if c = CHR 0x27 then CHR 0x22 else c) s"

definition health_body :: "bool \<Rightarrow> string \<Rightarrow> string \<Rightarrow> string \<Rightarrow> u32 \<Rightarrow> int \<Rightarrow> string" where
  "health_body healthy subsystem reason detail frame pid =
     jq [CHR ''{'', CHR 0x27] @ ''status'' @ jq [CHR 0x27, CHR '':'', CHR 0x27] @
     (if healthy then ''healthy'' else ''disabled'') @
     jq ([CHR 0x27, CHR '','', CHR 0x27] @ ''schema'' @ [CHR 0x27, CHR '':'', CHR 0x27] @ ''highbar.v1'' @
       [CHR 0x27, CHR '','', CHR 0x27] @ ''pid'' @ [CHR 0x27, CHR '':'']) @ string_of_int pid @
     (if healthy then []
      else jq ([CHR '','', CHR 0x27] @ ''subsystem'' @ [CHR 0x27, CHR '':'', CHR 0x27]) @ JsonEscape subsystem @
        jq ([CHR 0x27, CHR '','', CHR 0x27] @ ''reason'' @ [CHR 0x27, CHR '':'', CHR 0x27]) @ JsonEscape reason @
        jq ([CHR 0x27, CHR '','', CHR 0x27] @ ''detail'' @ [CHR 0x27, CHR '':'', CHR 0x27]) @ JsonEscape detail @
        jq ([CHR 0x27, CHR '','', CHR 0x27] @ ''frame'' @ [CHR 0x27, CHR '':'']) @ string_of_nat (unat frame)) @
     [CHR ''}'', CHR 0x0A]"

text \<open>What the stream functions return: open, bytes written, flush, close, rename.\<close>

record HealthScript =
  hs_open_ok :: bool
  hs_written :: nat
  hs_flush_ok :: bool
  hs_close_ok :: bool
  hs_rename_ok :: bool

text \<open>The result and every file system state on the way.\<close>

definition WriteHealthFile ::
    "HealthScript \<Rightarrow> string \<Rightarrow> bool \<Rightarrow> string \<Rightarrow> string \<Rightarrow> string \<Rightarrow> u32 \<Rightarrow> int \<Rightarrow> file_system \<Rightarrow>
     bool \<times> file_system list" where
  "WriteHealthFile sc path healthy subsystem reason detail frame pid fs =
    (if path = [] then (False, [fs])
     else let body = health_body healthy subsystem reason detail frame pid; tmp = path @ ''.tmp'' in
       if \<not> hs_open_ok sc then (False, [fs])
       else let fs1 = fs(tmp := Some []); fs2 = fs(tmp := Some (take (hs_written sc) body)) in
         if hs_written sc \<noteq> length body \<or> \<not> hs_flush_ok sc \<or> \<not> hs_close_ok sc
           then (False, [fs, fs1, fs2, fs2(tmp := None)])
         else if \<not> hs_rename_ok sc then (False, [fs, fs1, fs2, fs2(tmp := None)])
         else (True, [fs, fs1, fs2, fs2(path := fs2 tmp, tmp := None)]))"

section \<open>Escaping\<close>

text \<open>A reader of JSON strings after the opening quote: the characters read and the rest.\<close>

fun hex_digit :: "char \<Rightarrow> nat option" where
  "hex_digit c = find (\<lambda>i. kHex ! i = c) [0..<16]"

declare hex_digit.simps [simp del]

fun json_unescape :: "char \<Rightarrow> char option" where
  "json_unescape c =
    (if c = CHR ''n'' then Some (CHR 0x0A) else if c = CHR ''r'' then Some (CHR 0x0D)
     else if c = CHR ''t'' then Some (CHR 0x09)
     else if c = CHR 0x22 \<or> c = CHR 0x5C \<or> c = CHR ''/'' then Some c else None)"

definition hex4_value :: "char \<Rightarrow> char \<Rightarrow> char \<Rightarrow> char \<Rightarrow> nat option" where
  "hex4_value a b c d =
    (case (hex_digit a, hex_digit b, hex_digit c, hex_digit d) of
       (Some i, Some j, Some k, Some l) \<Rightarrow> Some (((i * 16 + j) * 16 + k) * 16 + l)
     | _ \<Rightarrow> None)"

definition push_char :: "char \<Rightarrow> (string \<times> string) option \<Rightarrow> (string \<times> string) option" where
  "push_char c = map_option (\<lambda>(s, rest). (c # s, rest))"

fun json_read :: "string \<Rightarrow> (string \<times> string) option" where
  "json_read (c # cs) =
    (if c = CHR 0x22 then Some ([], cs)
     else if c = CHR 0x5C then
       (case cs of
          e # a # b # x # y # rest \<Rightarrow>
            if e = CHR ''u'' then (case hex4_value a b x y of Some n \<Rightarrow> push_char (char_of n) (json_read rest) | None \<Rightarrow> None)
            else (case json_unescape e of Some u \<Rightarrow> push_char u (json_read (a # b # x # y # rest)) | None \<Rightarrow> None)
        | e # rest \<Rightarrow> (case json_unescape e of Some u \<Rightarrow> push_char u (json_read rest) | None \<Rightarrow> None)
        | [] \<Rightarrow> None)
     else if of_char c < (0x20 :: nat) then None
     else push_char c (json_read cs))"
| "json_read [] = None"

declare json_read.simps [simp del]

lemma json_read_simple:
  "json_unescape e = Some u \<Longrightarrow> json_read (CHR 0x5C # e # t) = push_char u (json_read t)"
  by (auto simp: json_read.simps(1)[of "CHR 0x5C"] split: list.splits if_splits)

lemma json_read_plain:
  "c \<noteq> CHR 0x22 \<Longrightarrow> c \<noteq> CHR 0x5C \<Longrightarrow> \<not> of_char c < (0x20 :: nat) \<Longrightarrow>
   json_read (c # t) = push_char c (json_read t)"
  by (simp add: json_read.simps)

lemma hex4_roundtrip:
  assumes "n < 32"
  shows "\<exists>a b c d. hex4 n = [a, b, c, d] \<and> hex4_value a b c d = Some n"
proof -
  have "list_all (\<lambda>n. case hex4 n of [a, b, c, d] \<Rightarrow> hex4_value a b c d = Some n | _ \<Rightarrow> False) [0..<32]"
    by code_simp
  then have "case hex4 n of [a, b, c, d] \<Rightarrow> hex4_value a b c d = Some n | _ \<Rightarrow> False"
    using assms by (simp add: list_all_iff)
  then show ?thesis
    by (auto split: list.splits)
qed

lemma json_read_control:
  assumes "of_char c < (0x20 :: nat)"
  shows "json_read (CHR 0x5C # CHR ''u'' # hex4 (of_char c) @ t) = push_char c (json_read t)"
proof -
  obtain a b x y where "hex4 (of_char c) = [a, b, x, y]" "hex4_value a b x y = Some (of_char c)"
    using hex4_roundtrip assms by fastforce
  then show ?thesis
    by (simp add: json_read.simps(1)[of "CHR 0x5C"])
qed

lemma json_read_escape_char: "json_read (escape_char c @ t) = push_char c (json_read t)"
  by (simp add: escape_char_def json_read_simple json_read_control json_read_plain)

text \<open>
  C26: Fault details survive the JSON encoding.  A reader of JSON strings that is given an
  escaped detail, the closing quote and any further text reads exactly the original
  detail and stops at that quote: the escaped text contains no bare quote, no bare control
  character and no ambiguous escape.
\<close>

theorem JsonEscape_roundtrip:
  "json_read (JsonEscape s @ CHR 0x22 # rest) = Some (s, rest)"
proof (induction s)
  case Nil
  show ?case by (simp add: JsonEscape_def json_read.simps)
next
  case (Cons c s)
  then show ?case
    using json_read_escape_char[of c "JsonEscape s @ CHR 0x22 # rest"]
    by (simp add: JsonEscape_def push_char_def)
qed

section \<open>The health file\<close>

lemma kHex_chars: "set kHex \<subseteq> {c. 0x20 \<le> (of_char c :: nat)}"
proof -
  have "list_all (\<lambda>c. 0x20 \<le> (of_char c :: nat)) kHex"
    by code_simp
  then show ?thesis
    by (auto simp: list_all_iff)
qed

lemma hex4_set: "set (hex4 n) \<subseteq> set kHex"
proof -
  have "length kHex = 16"
    by code_simp
  then show ?thesis
    by (auto simp: hex4_def)
qed

lemma escape_char_printable: "x \<in> set (escape_char c) \<Longrightarrow> 0x20 \<le> (of_char x :: nat)"
  using hex4_set[of "of_char c"] kHex_chars by (auto simp: escape_char_def split: if_splits)

lemma JsonEscape_printable: "x \<in> set (JsonEscape s) \<Longrightarrow> 0x20 \<le> (of_char x :: nat)"
  by (auto simp: JsonEscape_def dest: escape_char_printable)

lemma string_of_nat_printable: "x \<in> set (string_of_nat n) \<Longrightarrow> 0x20 \<le> (of_char x :: nat)"
proof (induction n rule: string_of_nat.induct)
  case (1 n)
  have "(of_char (char_of (48 + d)) :: nat) = 48 + d" if "d < 10" for d :: nat
    using that by (simp add: of_char_of)
  then show ?case
    using 1 by (auto simp: string_of_nat.simps[of n] split: if_splits)
qed

lemma string_of_int_printable: "x \<in> set (string_of_int i) \<Longrightarrow> 0x20 \<le> (of_char x :: nat)"
  by (auto simp: string_of_int_def dest: string_of_nat_printable split: if_splits)

lemma health_body_line:
  "\<exists>line. health_body healthy subsystem reason detail frame pid = line @ [CHR 0x0A] \<and>
     list_all (\<lambda>c. 0x20 \<le> (of_char c :: nat)) line"
proof -
  let ?body = "health_body healthy subsystem reason detail frame pid"
  have "list_all (\<lambda>c. 0x20 \<le> (of_char c :: nat)) (butlast ?body)"
    by (auto simp: list_all_iff health_body_def jq_def butlast_append
        dest: JsonEscape_printable string_of_nat_printable string_of_int_printable)
  moreover have "?body = butlast ?body @ [CHR 0x0A]"
    by (simp add: health_body_def butlast_append)
  ultimately show ?thesis
    by blast
qed

text \<open>
  The health file is one line, replaced atomically.  Whatever the stream and rename
  calls return, an observer of the path sees either its previous content or one complete
  record, a single line without control characters; the function returns true exactly when
  the new record is in place, and no other file than the temporary one is touched.
\<close>

theorem WriteHealthFile_atomic:
  "(case WriteHealthFile sc path healthy subsystem reason detail frame pid fs of (ok, tr) \<Rightarrow>
     \<exists>line. list_all (\<lambda>c. 0x20 \<le> (of_char c :: nat)) line \<and>
       list_all (\<lambda>g. g path = fs path \<or> g path = Some (line @ [CHR 0x0A])) tr \<and>
       list_all (\<lambda>g. \<forall>p. p = path \<or> p = path @ ''.tmp'' \<or> g p = fs p) tr \<and>
       (if ok then last tr = fs(path := Some (line @ [CHR 0x0A]), (path @ ''.tmp'') := None)
        else last tr path = fs path))"
  using health_body_line[of healthy subsystem reason detail frame pid]
  by (auto simp: WriteHealthFile_def Let_def)

end
