(* ===== verification/Coordinator_Client.thy ===== *)
theory Coordinator_Client
  imports Command_Queue "HOL-Library.Sublist"
begin

text \<open>
  The outbound side of the gateway (grpc/CoordinatorClient.h, grpc/CoordinatorClient.cpp):
  heartbeats, the queue of state updates with its push worker, and the reader of the
  coordinator's command channel.  The RPC library is a parameter: the results of the calls
  are arguments of the steps that make them.  An update is an abstract value.  The lemmas
  show what the push queue keeps, drops and sends, that the command counters account for
  every batch, and the schedule of the reconnects.
\<close>

unbundle bit_operations_syntax

section \<open>Model\<close>

record 'u CoordinatorClient =
  cc_connected :: bool
  cc_ok_count :: u64
  cc_err_count :: u64
  cc_push_stream_open :: bool
  cc_push_writer :: bool
  cc_pushed_count :: u64
  cc_push_stopping :: bool
  cc_push_queue :: "'u list"
  cc_push_dropped_count :: u64
  cc_cmd_stopping :: bool
  cc_cmd_batches_received :: u64
  cc_cmd_batches_accepted :: u64
  cc_cmd_batches_rejected_invalid :: u64
  cc_cmd_batches_rejected_full :: u64
  cc_cmd_commands_received :: u64

definition kMaxQueuedPushUpdates :: nat where
  "kMaxQueuedPushUpdates = 256"

definition CoordinatorClient_new :: "'u CoordinatorClient" where
  "CoordinatorClient_new = \<lparr> cc_connected = False, cc_ok_count = 0, cc_err_count = 0,
     cc_push_stream_open = False, cc_push_writer = False, cc_pushed_count = 0, cc_push_stopping = False,
     cc_push_queue = [], cc_push_dropped_count = 0, cc_cmd_stopping = False, cc_cmd_batches_received = 0,
     cc_cmd_batches_accepted = 0, cc_cmd_batches_rejected_invalid = 0, cc_cmd_batches_rejected_full = 0,
     cc_cmd_commands_received = 0 \<rparr>"

text \<open>The rate limit of the error logs: one and the powers of two.\<close>

definition log_now :: "u64 \<Rightarrow> bool" where
  "log_now n \<longleftrightarrow> n = 1 \<or> n AND (n - 1) = 0"

text \<open>A heartbeat with the status of the call: the client, the result, and whether it logs.\<close>

definition SendHeartbeat :: "bool \<Rightarrow> 'u CoordinatorClient \<Rightarrow> 'u CoordinatorClient \<times> bool \<times> bool" where
  "SendHeartbeat status_ok c =
    (if status_ok
     then (c\<lparr>cc_connected := True, cc_ok_count := cc_ok_count c + 1\<rparr>, True, False)
     else let errs = cc_err_count c + 1 in
       (c\<lparr>cc_connected := False, cc_err_count := errs\<rparr>, False, log_now errs))"

text \<open>Opening the stream; \<open>has_writer\<close> is what the stub returns.\<close>

definition OpenPushStateStream :: "bool \<Rightarrow> 'u CoordinatorClient \<Rightarrow> 'u CoordinatorClient" where
  "OpenPushStateStream has_writer c =
    (if cc_push_stream_open c then c
     else if \<not> has_writer then c\<lparr>cc_push_writer := False\<rparr>
     else c\<lparr>cc_push_writer := True, cc_push_stream_open := True\<rparr>)"

definition ClosePushStateStream :: "'u CoordinatorClient \<Rightarrow> 'u CoordinatorClient" where
  "ClosePushStateStream c =
    (if \<not> cc_push_stream_open c then c
     else c\<lparr>cc_push_stream_open := False, cc_push_writer := False\<rparr>)"

text \<open>The engine thread's enqueue: the client, the result, and whether it logs.\<close>

definition PushStateUpdate :: "'u \<Rightarrow> 'u CoordinatorClient \<Rightarrow> 'u CoordinatorClient \<times> bool \<times> bool" where
  "PushStateUpdate update c =
    (if cc_push_stopping c then (c, False, False)
     else
       let full = kMaxQueuedPushUpdates \<le> length (cc_push_queue c);
           dropped = (if full then cc_push_dropped_count c + 1 else 0);
           c1 = (if full then c\<lparr>cc_push_queue := tl (cc_push_queue c), cc_push_dropped_count := cc_push_dropped_count c + 1\<rparr>
                 else c);
           c2 = c1\<lparr>cc_push_queue := cc_push_queue c1 @ [update]\<rparr>
       in (c2, dropped = 0, dropped \<noteq> 0 \<and> log_now dropped))"

text \<open>The destructor's signal to the push worker; the worker then closes the stream and ends.\<close>

definition stop_push :: "'u CoordinatorClient \<Rightarrow> 'u CoordinatorClient" where
  "stop_push c = ClosePushStateStream (c\<lparr>cc_push_stopping := True\<rparr>)"

text \<open>
  One iteration of the push worker once its wait is over: the updates it handed to the
  stream.  \<open>has_writer\<close> and \<open>write_ok\<close> are the results of the calls; \<open>stop_popped\<close> and \<open>stop_opened\<close> tell whether the two later
  tests find that the client is being destroyed.
\<close>

definition PushWorker_iteration ::
    "bool \<Rightarrow> bool \<Rightarrow> bool \<Rightarrow> bool \<Rightarrow> 'u CoordinatorClient \<Rightarrow> 'u CoordinatorClient \<times> 'u list" where
  "PushWorker_iteration stop_popped stop_opened has_writer write_ok c =
    (case cc_push_queue c of
       [] \<Rightarrow> (c, [])
     | update # rest \<Rightarrow>
        let c1 = c\<lparr>cc_push_queue := rest\<rparr> in
        if stop_popped then (stop_push c1, [])
        else let c2 = (if \<not> cc_push_stream_open c1 then OpenPushStateStream has_writer c1 else c1)
          in if \<not> cc_push_writer c2 then (c2, [])
             else if stop_opened then (stop_push c2, [])
             else if \<not> write_ok then (ClosePushStateStream c2, [])
             else (c2\<lparr>cc_pushed_count := cc_pushed_count c2 + 1\<rparr>, [update]))"

text \<open>One batch read from the command channel.\<close>

definition read_batch :: "string \<Rightarrow> CommandBatch \<Rightarrow> 'u CoordinatorClient \<times> CommandQueue \<Rightarrow> 'u CoordinatorClient \<times> CommandQueue" where
  "read_batch plugin_id batch cq =
    (case cq of (c, sink) \<Rightarrow>
       let c1 = c\<lparr>cc_cmd_batches_received := cc_cmd_batches_received c + 1\<rparr> in
       (case AdmitCommandBatch batch (plugin_id @ ''-cmd-ch'') sink of (sink', status, admitted) \<Rightarrow>
         (if status = kAccepted
          then c1\<lparr>cc_cmd_batches_accepted := cc_cmd_batches_accepted c1 + 1,
                  cc_cmd_commands_received := cc_cmd_commands_received c1 + of_nat admitted\<rparr>
          else if status = kQueueFull
          then c1\<lparr>cc_cmd_batches_rejected_full := cc_cmd_batches_rejected_full c1 + 1\<rparr>
          else c1\<lparr>cc_cmd_batches_rejected_invalid := cc_cmd_batches_rejected_invalid c1 + 1\<rparr>, sink')))"

datatype finish_status = Finish_ok | Finish_cancelled | Finish_error

text \<open>
  A connection attempt: no reader, or the batches read and the final status; and whether the
  client is stopping when the attempt is over.
\<close>

record attempt =
  at_reader :: "(CommandBatch list \<times> finish_status) option"
  at_stopping :: bool

definition next_backoff :: "u32 \<Rightarrow> u32" where
  "next_backoff backoff_ms = min (backoff_ms * 2) 5000"

text \<open>
  The reader loop over the attempts the coordinator grants: the client and queue after them
  and the delays slept between them.
\<close>

fun CommandReaderLoop ::
    "string \<Rightarrow> attempt list \<Rightarrow> u32 \<Rightarrow> 'u CoordinatorClient \<times> CommandQueue \<Rightarrow>
     ('u CoordinatorClient \<times> CommandQueue) \<times> u32 list" where
  "CommandReaderLoop plugin_id [] backoff_ms cq = (cq, [])"
| "CommandReaderLoop plugin_id (a # as) backoff_ms cq =
    (let cq1 = (case at_reader a of None \<Rightarrow> cq | Some (batches, fin) \<Rightarrow> fold (read_batch plugin_id) batches cq);
         cancelled = (case at_reader a of None \<Rightarrow> False | Some (batches, fin) \<Rightarrow> fin = Finish_cancelled) in
     if cancelled \<or> at_stopping a then (cq1, [])
     else case CommandReaderLoop plugin_id as (next_backoff backoff_ms) cq1 of
       (cq2, delays) \<Rightarrow> (cq2, backoff_ms # delays))"

section \<open>The push pipeline\<close>

datatype 'u push_op = P_push 'u | P_work bool bool bool bool | P_stop

text \<open>
  A history of enqueues and worker iterations with ghosts: what was enqueued, what was
  written to the stream, and how many popped updates reached no stream.
\<close>

fun push_apply ::
    "'u push_op \<Rightarrow> 'u CoordinatorClient \<times> 'u list \<times> 'u list \<times> nat \<Rightarrow> 'u CoordinatorClient \<times> 'u list \<times> 'u list \<times> nat" where
  "push_apply (P_push u) (c, pushed, written, lost) =
    (if cc_push_stopping c then (c, pushed, written, lost)
     else (fst (PushStateUpdate u c), pushed @ [u], written, lost))"
| "push_apply (P_work sp so w ok) (c, pushed, written, lost) =
    (if cc_push_stopping c then (c, pushed, written, lost)
     else case PushWorker_iteration sp so w ok c of (c', out) \<Rightarrow>
       (c', pushed, written @ out, lost + (length (cc_push_queue c) - length (cc_push_queue c') - length out)))"
| "push_apply P_stop (c, pushed, written, lost) = (stop_push c, pushed, written, lost)"

definition push_run :: "'u push_op list \<Rightarrow> 'u CoordinatorClient \<times> 'u list \<times> 'u list \<times> nat" where
  "push_run ops = fold push_apply ops (CoordinatorClient_new, [], [], 0)"

text \<open>What holds of every such history.\<close>

definition push_inv :: "'u CoordinatorClient \<times> 'u list \<times> 'u list \<times> nat \<Rightarrow> bool" where
  "push_inv s = (case s of (c, pushed, written, lost) \<Rightarrow>
     length (cc_push_queue c) \<le> 256 \<and>
     subseq (written @ cc_push_queue c) pushed \<and>
     (\<exists>early. pushed = early @ cc_push_queue c) \<and>
     cc_pushed_count c = of_nat (length written) \<and>
     of_nat (length pushed) = cc_pushed_count c + of_nat lost + cc_push_dropped_count c + of_nat (length (cc_push_queue c)))"

lemma subseq_drop_mid:
  assumes "subseq (xs @ y # zs) ws"
  shows "subseq (xs @ zs) ws"
proof -
  have "subseq zs (y # zs)"
    by (rule list_emb_Cons) simp
  then have "subseq (xs @ zs) (xs @ y # zs)"
    by (rule list_emb_append_mono[OF subseq_order.order_refl])
  then show ?thesis
    using assms by (rule subseq_order.trans)
qed

lemma PushStateUpdate_fields:
  assumes "\<not> cc_push_stopping c"
  shows "cc_push_queue (fst (PushStateUpdate u c)) =
      (if 256 \<le> length (cc_push_queue c) then tl (cc_push_queue c) else cc_push_queue c) @ [u]"
    and "cc_push_dropped_count (fst (PushStateUpdate u c)) =
      cc_push_dropped_count c + (if 256 \<le> length (cc_push_queue c) then 1 else 0)"
    and "cc_pushed_count (fst (PushStateUpdate u c)) = cc_pushed_count c"
  using assms by (simp_all add: PushStateUpdate_def kMaxQueuedPushUpdates_def Let_def)

lemma PushWorker_fields:
  assumes "PushWorker_iteration sp so w ok c = (c', out)" "cc_push_queue c = x # q"
  shows "cc_push_queue c' = q" and "cc_push_dropped_count c' = cc_push_dropped_count c"
    and "out = [x] \<and> cc_pushed_count c' = cc_pushed_count c + 1 \<or> out = [] \<and> cc_pushed_count c' = cc_pushed_count c"
  using assms
  by (auto simp: PushWorker_iteration_def stop_push_def OpenPushStateStream_def ClosePushStateStream_def Let_def split: if_splits)

lemma push_inv_push:
  assumes inv: "push_inv (c, pushed, written, lost)" and run: "\<not> cc_push_stopping c"
  shows "push_inv (fst (PushStateUpdate u c), pushed @ [u], written, lost)"
proof -
  let ?q = "cc_push_queue c"
  obtain early where early: "pushed = early @ ?q"
    using inv by (auto simp: push_inv_def)
  show ?thesis
  proof (cases "256 \<le> length ?q")
    case True
    with inv obtain x q where q: "?q = x # q" "length q = 255"
      by (cases ?q) (auto simp: push_inv_def)
    have "subseq (written @ q) pushed"
      by (rule subseq_drop_mid[of _ x]) (use inv q in \<open>simp add: push_inv_def\<close>)
    then have "subseq ((written @ q) @ [u]) (pushed @ [u])"
      by (rule list_emb_append_mono) simp
    then show ?thesis
      using inv q early by (simp add: push_inv_def PushStateUpdate_fields[OF run] algebra_simps)
  next
    case False
    have "subseq ((written @ ?q) @ [u]) (pushed @ [u])"
      by (rule list_emb_append_mono) (use inv in \<open>simp_all add: push_inv_def\<close>)
    then show ?thesis
      using inv False early by (simp add: push_inv_def PushStateUpdate_fields[OF run] algebra_simps)
  qed
qed

lemma push_inv_work:
  assumes inv: "push_inv (c, pushed, written, lost)" and out: "PushWorker_iteration sp so w ok c = (c', out)"
  shows "push_inv (c', pushed, written @ out, lost + (length (cc_push_queue c) - length (cc_push_queue c') - length out))"
proof (cases "cc_push_queue c")
  case Nil
  then have "c' = c" "out = []"
    using out by (simp_all add: PushWorker_iteration_def)
  then show ?thesis using inv by simp
next
  case (Cons x q)
  note fields = PushWorker_fields[OF out Cons]
  have "subseq (written @ q) pushed" "\<exists>early. pushed = early @ q" "subseq (written @ x # q) pushed"
    using inv Cons subseq_drop_mid[of written x q pushed] by (auto simp: push_inv_def)
  then show ?thesis
    using inv Cons fields(3) by (auto simp: push_inv_def fields(1,2) algebra_simps)
qed

lemma push_apply_inv: "push_inv s \<Longrightarrow> push_inv (push_apply op s)"
proof (induction op s rule: push_apply.induct)
  case (1 u c pushed written lost)
  then show ?case by (simp add: push_inv_push)
next
  case (2 sp so w ok c pushed written lost)
  then show ?case
    by (cases "PushWorker_iteration sp so w ok c") (auto dest: push_inv_work)
next
  case (3 c pushed written lost)
  then show ?case by (simp add: push_inv_def stop_push_def ClosePushStateStream_def)
qed

lemma push_fold_inv: "push_inv s \<Longrightarrow> push_inv (fold push_apply ops s)"
proof (induction ops arbitrary: s)
  case (Cons op ops)
  then show ?case using push_apply_inv[of s op] by simp
qed simp

lemma push_run_inv: "push_inv (push_run ops)"
  unfolding push_run_def by (rule push_fold_inv) (simp add: push_inv_def CoordinatorClient_new_def)

text \<open>
  C27: The coordinator's push queue is bounded, drops the oldest, and never reorders.  After
  any history of enqueues, worker iterations with any results of the stream calls, and the
  stop, the queue holds at most 256 updates and they are the last ones enqueued, what was
  written followed by what is queued is a subsequence of what was enqueued, the sent counter
  counts the writes, and every enqueued update is written, queued, counted as dropped, or
  was popped while the stream could not take it.
\<close>

theorem push_pipeline:
  "(case push_run ops of (c, pushed, written, lost) \<Rightarrow>
     length (cc_push_queue c) \<le> 256 \<and> suffix (cc_push_queue c) pushed \<and>
     subseq (written @ cc_push_queue c) pushed \<and>
     cc_pushed_count c = of_nat (length written) \<and>
     of_nat (length pushed) =
       cc_pushed_count c + of_nat lost + cc_push_dropped_count c + of_nat (length (cc_push_queue c)))"
  using push_run_inv[of ops] by (auto simp: push_inv_def suffix_def)

section \<open>The command channel\<close>

text \<open>
  The batches among \<open>bs\<close> that are admitted when read in order, each into the queue the
  earlier ones left.
\<close>

fun admitted_batches :: "string \<Rightarrow> CommandBatch list \<Rightarrow> CommandQueue \<Rightarrow> CommandBatch list" where
  "admitted_batches sid [] q = []"
| "admitted_batches sid (b # bs) q =
    (case AdmitCommandBatch b sid q of (q', status, n) \<Rightarrow>
       (if status = kAccepted then b # admitted_batches sid bs q' else admitted_batches sid bs q'))"

text \<open>The accounting of the reader's counters.\<close>

definition accounted :: "'u CoordinatorClient \<Rightarrow> bool" where
  "accounted c \<longleftrightarrow> cc_cmd_batches_received c =
     cc_cmd_batches_accepted c + cc_cmd_batches_rejected_invalid c + cc_cmd_batches_rejected_full c"

lemma read_batch_accounted: "accounted c \<Longrightarrow> accounted (fst (read_batch plugin_id b (c, q)))"
  by (simp add: read_batch_def accounted_def Let_def split: prod.split)

lemma read_batch_queue:
  assumes "AdmitCommandBatch b (plugin_id @ ''-cmd-ch'') q = (q', status, n)"
  shows "snd (read_batch plugin_id b (c, q)) = q'"
    and "cc_cmd_batches_received (fst (read_batch plugin_id b (c, q))) = cc_cmd_batches_received c + 1"
    and "cc_cmd_commands_received (fst (read_batch plugin_id b (c, q))) = cc_cmd_commands_received c + of_nat n"
    and "cq_queue q' = cq_queue q @ (if status = kAccepted then batch_children b (plugin_id @ ''-cmd-ch'') else [])"
    and "n = (if status = kAccepted then length (cb_commands b) else 0)"
  using assms AdmitCommandBatch_cases[OF assms]
  by (auto simp: read_batch_def Let_def CommandQueue_TryPushBatch_def store_depth_def split: if_splits)

text \<open>
  The command channel accounts for every batch it reads.  Reading any list of batches
  appends to the engine's queue exactly the commands of the admitted ones, in order and
  with their batch's identity, counts every batch once as accepted, invalid or refused by a
  full queue, and counts the commands that were queued.
\<close>

theorem read_batches_account:
  fixes c :: "'u CoordinatorClient"
  assumes "accounted c"
  shows "(case fold (read_batch plugin_id) bs (c, q) of (c', q') \<Rightarrow>
      let ok = admitted_batches (plugin_id @ ''-cmd-ch'') bs q in
      cq_queue q' = cq_queue q @ concat (map (\<lambda>b. batch_children b (plugin_id @ ''-cmd-ch'')) ok) \<and>
      cc_cmd_commands_received c' = cc_cmd_commands_received c + of_nat (sum_list (map (length \<circ> cb_commands) ok)) \<and>
      cc_cmd_batches_received c' = cc_cmd_batches_received c + of_nat (length bs) \<and> accounted c')"
  using assms
proof (induction bs arbitrary: c q)
  case (Cons b bs)
  obtain q1 status n where admit: "AdmitCommandBatch b (plugin_id @ ''-cmd-ch'') q = (q1, status, n)"
    by (metis prod_cases3)
  obtain c1 where c1: "read_batch plugin_id b (c, q) = (c1, q1)"
    using read_batch_queue(1)[OF admit, of c] by (cases "read_batch plugin_id b (c, q)") auto
  then have "accounted c1"
    using read_batch_accounted[OF Cons.prems, of plugin_id b q] by simp
  then show ?case
    using Cons.IH[of c1 q1] read_batch_queue(2,3)[OF admit, of c] read_batch_queue(4,5)[OF admit] c1
    by (auto simp: admit Let_def algebra_simps split: prod.splits)
qed simp

theorem read_batches_account_witness:
  "(case fold (read_batch ''p'') [sample_batch, sample_batch] (CoordinatorClient_new, CommandQueue_new None 1) of (c', q') \<Rightarrow>
     length (cq_queue q') = 1 \<and> cc_cmd_batches_received c' = 2 \<and> accounted (c' :: nat CoordinatorClient))"
proof -
  have "accounted (CoordinatorClient_new :: nat CoordinatorClient)"
    by (simp add: accounted_def CoordinatorClient_new_def)
  moreover have "admitted_batches (''p'' @ ''-cmd-ch'') [sample_batch, sample_batch] (CommandQueue_new None 1) = [sample_batch]"
    by code_simp
  ultimately show ?thesis
    using read_batches_account[of "CoordinatorClient_new :: nat CoordinatorClient" "''p''" "[sample_batch, sample_batch]"
        "CommandQueue_new None 1"]
    by (auto simp: Let_def batch_children_def sample_batch_def CommandQueue_new_def CoordinatorClient_new_def
        split: prod.splits)
qed

lemma next_backoff_nat:
  assumes "unat b \<le> 5000"
  shows "unat (next_backoff b) = min 5000 (2 * unat b)"
proof -
  have "unat (b * 2) = 2 * unat b"
    using assms by (simp add: unat_word_ariths)
  then show ?thesis
    by (simp add: next_backoff_def min_def word_le_nat_alt)
qed

lemma min_doubling: "min (m :: nat) (2 ^ k * min m (2 * u)) = min m (2 ^ Suc k * u)"
proof (cases "m \<le> 2 * u")
  case True
  have grow: "x \<le> 2 ^ k * x" for x :: nat
    by simp
  note True
  also have "2 * u \<le> 2 ^ k * (2 * u)"
    by (rule grow)
  also have "\<dots> = 2 ^ Suc k * u"
    by simp
  finally show ?thesis using True grow[of m] by (simp add: min_absorb1)
qed (simp add: min_def mult.assoc mult.left_commute)

lemma delays_schedule:
  assumes "unat b \<le> 5000"
  shows "\<exists>n \<le> length as. map unat (snd (CommandReaderLoop plugin_id as b cq)) =
    map (\<lambda>k. min 5000 (2 ^ k * unat b)) [0..<n]"
  using assms
proof (induction as arbitrary: b cq)
  case (Cons a as)
  let ?stop = "(case at_reader a of None \<Rightarrow> False | Some (batches, fin) \<Rightarrow> fin = Finish_cancelled) \<or> at_stopping a"
  show ?case
  proof (cases ?stop)
    case True
    then show ?thesis by (intro exI[of _ 0]) (simp add: Let_def)
  next
    case False
    define cq1 where "cq1 = (case at_reader a of None \<Rightarrow> cq | Some (batches, fin) \<Rightarrow> fold (read_batch plugin_id) batches cq)"
    obtain n where n: "n \<le> length as" "map unat (snd (CommandReaderLoop plugin_id as (next_backoff b) cq1)) =
        map (\<lambda>k. min 5000 (2 ^ k * unat (next_backoff b))) [0..<n]"
      using Cons.IH[of "next_backoff b" cq1] Cons.prems next_backoff_nat by auto
    have "map unat (snd (CommandReaderLoop plugin_id (a # as) b cq)) =
        unat b # map (\<lambda>k. min 5000 (2 ^ k * unat (next_backoff b))) [0..<n]"
      using n(2) False by (auto simp: Let_def cq1_def split: prod.splits)
    also have "\<dots> = map (\<lambda>k. min 5000 (2 ^ k * unat b)) [0..<Suc n]"
      using Cons.prems by (simp add: map_upt_Suc next_backoff_nat min_doubling del: upt_Suc power_Suc)
    finally show ?thesis
      using n(1) by (intro exI[of _ "Suc n"]) simp
  qed
qed simp

text \<open>
  Reconnects back off exponentially up to five seconds.  Whatever the coordinator does,
  the delays the reader sleeps between its attempts are 200 ms doubled each time and capped
  at 5000 ms, with at most one delay per attempt.
\<close>

theorem CommandReaderLoop_backoff:
  "\<exists>n. n \<le> length as \<and> map unat (snd (CommandReaderLoop plugin_id as 200 cq)) =
     map (\<lambda>k. min 5000 (200 * 2 ^ k)) [0..<n]"
  using delays_schedule[of 200 as plugin_id cq] by (simp add: mult.commute)

end
