(* ===== verification/State_Stream.thy ===== *)
theory State_Stream
  imports Ring_Buffer Delta_Bus
begin

text \<open>
  The state stream of one observer (\<open>StreamStateCallData\<close> in grpc/HighBarService.cpp) against
  the engine thread that publishes updates (\<open>FlushDelta\<close>, \<open>EmitKeepAlive\<close> and
  \<open>BroadcastSnapshot\<close> in module/GrpcGatewayModule.cpp: first the ring, then the bus).  The pump
  thread is a step function over its program points; the threads interleave freely.
  Protobuf parsing is a parameter that yields the sequence number of a payload.  The
  interface of the history ring is the locale \<open>replay_log\<close>, interpreted on the ring buffer.
  The lemmas show that what a stream sends is gap-free and strictly increasing whatever the
  interleaving, and complete whenever the engine is idle and the queue is drained.
\<close>

section \<open>The replay interface\<close>

locale replay_log =
  fixes ok :: "'l \<Rightarrow> bool"
    and head :: "'l \<Rightarrow> nat"
    and append1 :: "'p \<Rightarrow> 'l \<Rightarrow> 'l \<Rightarrow> bool"
    and replay :: "u64 \<Rightarrow> 'l \<Rightarrow> (nat \<times> 'q) list option"
  assumes append_ok: "ok l \<Longrightarrow> append1 p l l' \<Longrightarrow> ok l' \<and> head l' = Suc (head l)"
    and replay_seqs: "ok l \<Longrightarrow> replay f l = Some es \<Longrightarrow>
      unat f \<le> head l \<and> map fst es = [Suc (unat f)..<Suc (head l)]"
begin

lemma replay_length: "ok l \<Longrightarrow> replay f l = Some es \<Longrightarrow> length es = head l - unat f"
  using replay_seqs[of l f es] by (metis diff_Suc_Suc length_map length_upt)

lemma replay_nth:
  assumes "ok l" "replay f l = Some es" "i < length es"
  shows "fst (es ! i) = unat f + Suc i"
proof -
  have "map fst es ! i = [Suc (unat f)..<Suc (head l)] ! i"
    using replay_seqs[OF assms(1,2)] by simp
  then show ?thesis
    using assms(3) replay_length[OF assms(1,2)] by (simp del: upt_Suc)
qed

lemma replay_then_append:
  assumes "ok l" "replay f l = Some es" "append1 p l l'"
  shows "map fst es @ [head l'] = [Suc (unat f)..<Suc (head l')]"
  using replay_seqs[OF assms(1,2)] append_ok[OF assms(1,3)] by simp

end

definition ring_sound :: "RingBuffer \<Rightarrow> bool" where
  "ring_sound rb \<longleftrightarrow> ring_wf rb \<and> ring_contig rb \<and> rb_head_seq rb < - 1"

definition ring_append :: "string \<Rightarrow> RingBuffer \<Rightarrow> RingBuffer \<Rightarrow> bool" where
  "ring_append p rb rb' \<longleftrightarrow> RingBuffer_Push (rb_head_seq rb + 1) p rb = Inr rb' \<and> rb_head_seq rb' < - 1"

definition ring_replay :: "u64 \<Rightarrow> RingBuffer \<Rightarrow> (nat \<times> string option) list option" where
  "ring_replay f rb = map_option (map (\<lambda>e. (unat (entry_seq e), entry_payload e))) (RingBuffer_GetFromSeq f rb)"

lemma filter_above_upt: "filter (\<lambda>n. k < n) [a..<b] = [max a (Suc k)..<b]"
  by (induction b) (auto simp: max_def)

lemma contig_seqs_above:
  assumes c: "ring_contig rb" and lo: "unat (rb_head_seq rb) \<le> unat f + rb_filled rb"
  shows "map (unat \<circ> entry_seq) (filter (\<lambda>e. f < entry_seq e) (ring_list rb)) =
    [Suc (unat f)..<Suc (unat (rb_head_seq rb))]"
proof -
  have "map (unat \<circ> entry_seq) (filter (\<lambda>e. f < entry_seq e) (ring_list rb)) =
      filter (\<lambda>n. unat f < n) (map (unat \<circ> entry_seq) (ring_list rb))"
    by (simp add: filter_map comp_def word_less_nat_alt)
  also have "\<dots> = filter (\<lambda>n. unat f < n) [unat (rb_head_seq rb) + 1 - rb_filled rb ..< unat (rb_head_seq rb) + 1]"
    using c by (simp add: ring_contig_def)
  also have "\<dots> = [Suc (unat f)..<Suc (unat (rb_head_seq rb))]"
    using lo by (simp add: filter_above_upt max_absorb2 del: upt_Suc)
  finally show ?thesis .
qed

lemma ring_replay_seqs:
  assumes "ring_sound rb" "ring_replay f rb = Some es"
  shows "unat f \<le> unat (rb_head_seq rb) \<and> map fst es = [Suc (unat f)..<Suc (unat (rb_head_seq rb))]"
proof -
  have s: "ring_wf rb" "ring_contig rb" "rb_head_seq rb < - 1"
    using assms(1) by (simp_all add: ring_sound_def)
  have f: "\<not> rb_head_seq rb < f" "unat (rb_head_seq rb) \<le> unat f + rb_filled rb"
      "es = map (\<lambda>e. (unat (entry_seq e), entry_payload e)) (filter (\<lambda>e. f < entry_seq e) (ring_list rb))"
    using assms(2) by (auto simp: ring_replay_def GetFromSeq_contig[OF s] split: if_splits)
  then show ?thesis
    using contig_seqs_above[OF s(2) f(2)] by (simp add: comp_def word_le_nat_alt not_less)
qed

interpretation ring_log: replay_log ring_sound "\<lambda>rb. unat (rb_head_seq rb)" ring_append ring_replay
proof
  show "ring_sound l' \<and> unat (rb_head_seq l') = Suc (unat (rb_head_seq l))"
    if "ring_sound l" "ring_append p l l'" for l p l'
    using that RingBuffer_Push_wf[of l _ p l'] Push_contig[of l p l'] unat_plus_one[of "rb_head_seq l" "- 1"]
    by (auto simp: ring_sound_def ring_append_def)
qed (rule ring_replay_seqs)

section \<open>The pump and its environment\<close>

datatype rpc_code = RPC_OK | RPC_CANCELLED | RPC_INVALID_ARGUMENT | RPC_ALREADY_EXISTS
  | RPC_RESOURCE_EXHAUSTED | RPC_FAILED_PRECONDITION | RPC_INTERNAL | RPC_UNAVAILABLE
  | RPC_PERMISSION_DENIED

text \<open>Program points of \<open>PumpLoop\<close>; a write in flight carries the sequence number it sends.\<close>

datatype pump_pc =
    P_created
  | P_start
  | P_need_snapshot
  | P_baseline u64
  | P_replay "RingEntry list"
  | P_live
  | P_write u64
  | P_done rpc_code

record stream_system =
  ss_ring :: RingBuffer
  ss_unpublished :: "string option"
  ss_bus :: DeltaBus
  ss_slot :: nat
  ss_resume :: u64
  ss_pc :: pump_pc
  ss_last_sent :: u64
  ss_sent :: "u64 list"
  ss_stop :: bool

text \<open>The status of a stream whose slot is evicted and drained.\<close>

definition eviction_status :: "EvictionReason \<Rightarrow> rpc_code" where
  "eviction_status r = (case r of kSlowConsumer \<Rightarrow> RPC_RESOURCE_EXHAUSTED | kFault \<Rightarrow> RPC_UNAVAILABLE | _ \<Rightarrow> RPC_OK)"

text \<open>A write of the update with number \<open>n\<close> and its completion.\<close>

definition complete_write :: "bool \<Rightarrow> u64 \<Rightarrow> pump_pc \<Rightarrow> stream_system \<Rightarrow> stream_system" where
  "complete_write write_ok n next s =
    (if write_ok \<and> \<not> ss_stop s
     then s\<lparr>ss_sent := ss_sent s @ [n], ss_last_sent := n, ss_pc := next\<rparr>
     else s\<lparr>ss_pc := P_done RPC_CANCELLED\<rparr>)"

text \<open>
  One step of the pump; none while it waits in \<open>BlockingPop\<close> or has finished.  \<open>parse\<close> is the
  protobuf parser and \<open>write_ok\<close> the completion of a write.
\<close>

definition PumpLoop_step :: "(string \<Rightarrow> u64 option) \<Rightarrow> bool \<Rightarrow> stream_system \<Rightarrow> stream_system option" where
  "PumpLoop_step parse write_ok s =
    (case ss_pc s of
       P_created \<Rightarrow>
         (case DeltaBus_Subscribe (ss_bus s) of (bus, a) \<Rightarrow>
            Some (s\<lparr>ss_bus := bus, ss_slot := a, ss_last_sent := ss_resume s, ss_pc := P_start\<rparr>))
     | P_start \<Rightarrow>
         (case (if 0 < ss_resume s then RingBuffer_GetFromSeq (ss_resume s) (ss_ring s) else None) of
            Some es \<Rightarrow> Some (s\<lparr>ss_pc := P_replay es\<rparr>)
          | None \<Rightarrow> Some (s\<lparr>ss_pc := P_need_snapshot\<rparr>))
     | P_need_snapshot \<Rightarrow> Some (s\<lparr>ss_pc := P_baseline (RingBuffer_HeadSeq (ss_ring s))\<rparr>)
     | P_baseline h \<Rightarrow> Some (complete_write write_ok h P_live s)
     | P_replay [] \<Rightarrow> Some (s\<lparr>ss_pc := P_live\<rparr>)
     | P_replay (e # es) \<Rightarrow>
         (case Option.bind (entry_payload e) parse of
            None \<Rightarrow> Some (s\<lparr>ss_pc := P_done RPC_INTERNAL\<rparr>)
          | Some n \<Rightarrow> Some (complete_write write_ok n (P_replay es) s))
     | P_live \<Rightarrow>
         (if ss_stop s then Some (s\<lparr>ss_pc := P_done RPC_OK\<rparr>)
          else case bus_heap (ss_bus s) (ss_slot s) of
            None \<Rightarrow> None
          | Some sl \<Rightarrow>
             (case SubscriberSlot_BlockingPop sl of
                None \<Rightarrow> None
              | Some (sl', None) \<Rightarrow> Some (s\<lparr>ss_pc := P_done (eviction_status (slot_eviction sl'))\<rparr>)
              | Some (sl', Some p) \<Rightarrow>
                 (let s' = s\<lparr>ss_bus := (ss_bus s)\<lparr>bus_heap := (bus_heap (ss_bus s))(ss_slot s := Some sl')\<rparr>\<rparr> in
                  (case parse p of
                     None \<Rightarrow> Some (s'\<lparr>ss_pc := P_done RPC_INTERNAL\<rparr>)
                   | Some n \<Rightarrow> Some (if n \<le> ss_last_sent s then s' else s'\<lparr>ss_pc := P_write n\<rparr>)))))
     | P_write n \<Rightarrow> Some (complete_write write_ok n P_live s)
     | P_done st \<Rightarrow> None)"

text \<open>
  The threads.  The engine numbers its updates consecutively, pushes each to the ring under the
  state mutex and publishes it after releasing the mutex; other streams come and go; a mass
  eviction or the end of the call may happen at any time, and so may an exception in the pump, which ends the
  stream with an internal error.  Fewer than $2^{64} - 2$ updates
  are ever published.
\<close>

inductive stream_step :: "(string \<Rightarrow> u64 option) \<Rightarrow> stream_system \<Rightarrow> stream_system \<Rightarrow> bool"
  for parse :: "string \<Rightarrow> u64 option" where
  engine_push: "ss_unpublished s = None \<Longrightarrow> ring_append p (ss_ring s) ring' \<Longrightarrow>
    parse p = Some (rb_head_seq (ss_ring s) + 1) \<Longrightarrow>
    stream_step parse s (s\<lparr>ss_ring := ring', ss_unpublished := Some p\<rparr>)"
| engine_publish: "ss_unpublished s = Some p \<Longrightarrow>
    stream_step parse s (s\<lparr>ss_bus := DeltaBus_Publish p (ss_bus s), ss_unpublished := None\<rparr>)"
| other_subscribe: "stream_step parse s (s\<lparr>ss_bus := fst (DeltaBus_Subscribe (ss_bus s))\<rparr>)"
| other_close: "ss_pc s = P_created \<or> b \<noteq> ss_slot s \<Longrightarrow>
    stream_step parse s (s\<lparr>ss_bus := release_slot b (DeltaBus_Unsubscribe (Some b) (ss_bus s))\<rparr>)"
| evict_all: "r \<noteq> kNone \<Longrightarrow> stream_step parse s (s\<lparr>ss_bus := DeltaBus_EvictAll r (ss_bus s)\<rparr>)"
| stop: "stream_step parse s (s\<lparr>ss_stop := True\<rparr>)"
| pump: "PumpLoop_step parse write_ok s = Some s' \<Longrightarrow> stream_step parse s s'"
| pump_throws: "ss_pc s \<noteq> P_created \<Longrightarrow> stream_step parse s (s\<lparr>ss_pc := P_done RPC_INTERNAL\<rparr>)"

section \<open>What the bus does to one slot\<close>

definition bus_ok :: "DeltaBus \<Rightarrow> bool" where
  "bus_ok bus \<longleftrightarrow> bus_wf bus \<and> (\<forall>a \<in> set (bus_slots bus). bus_heap bus a \<noteq> None)"

text \<open>A slot somebody owns; as long as it is not evicted it is registered.\<close>

definition owned :: "DeltaBus \<Rightarrow> nat \<Rightarrow> SubscriberSlot \<Rightarrow> bool" where
  "owned bus a sl \<longleftrightarrow> bus_heap bus a = Some sl \<and> (slot_eviction sl = kNone \<longrightarrow> a \<in> set (bus_slots bus))"

lemma alive_filter: "bus_ok bus \<Longrightarrow> filter (\<lambda>a. bus_heap bus a \<noteq> None) (bus_slots bus) = bus_slots bus"
  by (auto simp: bus_ok_def filter_id_conv)

lemma deliver_evicted: "slot_eviction sl \<noteq> kNone \<Longrightarrow> deliver p sl = sl"
  by (simp add: deliver_def)

lemma publish_slot:
  assumes "bus_ok bus"
  shows "bus_ok (DeltaBus_Publish p bus)"
    and "owned bus a sl \<Longrightarrow> owned (DeltaBus_Publish p bus) a (deliver p sl)"
proof -
  let ?bus = "DeltaBus_Publish p bus"
  have "distinct (bus_slots bus)"
    using assms by (simp add: bus_ok_def bus_wf_def)
  then have eq: "DeltaBus_Publish p bus =
    bus \<lparr> bus_slots := bus_slots bus,
          bus_heap := (\<lambda>a. if a \<in> set (bus_slots bus) then map_option (deliver p) (bus_heap bus a)
                           else bus_heap bus a),
          bus_counters := (count_dropped ^^ length (filter (\<lambda>a. slot_overflows (bus_heap bus a)) (bus_slots bus)))
                            (bus_counters bus) \<rparr>"
    using Publish_eq[of bus p] alive_filter[OF assms] by (simp only:)
  have bus': "bus_slots ?bus = bus_slots bus" "bus_next ?bus = bus_next bus"
      "bus_heap ?bus = (\<lambda>a. if a \<in> set (bus_slots bus) then map_option (deliver p) (bus_heap bus a) else bus_heap bus a)"
    unfolding eq by simp_all
  show "bus_ok ?bus"
    using assms by (simp add: bus_ok_def bus_wf_def bus')
  show "owned ?bus a (deliver p sl)" if "owned bus a sl"
  proof (cases "slot_eviction sl = kNone")
    case True
    then show ?thesis using that by (simp add: owned_def bus')
  next
    case False
    then show ?thesis using that by (simp add: owned_def bus' deliver_evicted)
  qed
qed

lemma subscribe_slot:
  assumes "bus_ok bus" "DeltaBus_Subscribe bus = (bus', b)"
  shows "bus_ok bus'" and "owned bus' b (SubscriberSlot_new kDefaultCapacity)"
    and "owned bus a sl \<Longrightarrow> owned bus' a sl"
proof -
  have wf: "bus_wf bus" and alive: "\<forall>a \<in> set (bus_slots bus). bus_heap bus a \<noteq> None"
    using assms(1) by (simp_all add: bus_ok_def)
  have bus': "bus_slots bus' = bus_slots bus @ [bus_next bus]" "bus_next bus' = bus_next bus + 1" "b = bus_next bus"
      "bus_heap bus' = (bus_heap bus)(bus_next bus := Some (SubscriberSlot_new kDefaultCapacity))"
    using assms(2) by (auto simp: DeltaBus_Subscribe_def)
  show "bus_ok bus'"
    using wf alive by (auto simp: bus_ok_def bus_wf_def bus' intro: less_SucI)
  show "owned bus' b (SubscriberSlot_new kDefaultCapacity)"
    by (simp add: owned_def bus')
  show "owned bus' a sl" if "owned bus a sl"
    using that wf by (cases "a = bus_next bus") (auto simp: owned_def bus' bus_wf_def)
qed

lemma close_slot:
  assumes "bus_ok bus"
  shows "bus_ok (release_slot b (DeltaBus_Unsubscribe (Some b) bus))"
    and "owned bus a sl \<Longrightarrow> a \<noteq> b \<Longrightarrow> owned (release_slot b (DeltaBus_Unsubscribe (Some b) bus)) a sl"
proof -
  have wf: "bus_wf bus" and alive: "\<forall>a \<in> set (bus_slots bus). bus_heap bus a \<noteq> None"
    using assms(1) by (simp_all add: bus_ok_def)
  let ?bus = "release_slot b (DeltaBus_Unsubscribe (Some b) bus)"
  have bus': "bus_slots ?bus = filter (\<lambda>x. x \<noteq> b) (bus_slots bus)" "bus_next ?bus = bus_next bus"
      "bus_heap ?bus = (bus_heap bus)(b := None)"
    by (simp_all add: Unsubscribe_eq[OF alive] release_slot_def evict_at_def)
  show "bus_ok ?bus"
    using wf alive by (auto simp: bus_ok_def bus_wf_def bus')
  show "owned ?bus a sl" if "owned bus a sl" "a \<noteq> b"
    using that by (simp add: owned_def bus')
qed

lemma evict_all_slot:
  assumes "bus_ok bus" "r \<noteq> kNone"
  shows "bus_ok (DeltaBus_EvictAll r bus)"
    and "owned bus a sl \<Longrightarrow> \<exists>sl'. owned (DeltaBus_EvictAll r bus) a sl' \<and> slot_eviction sl' \<noteq> kNone \<and>
      slot_queue sl' = slot_queue sl"
proof -
  let ?bus = "DeltaBus_EvictAll r bus"
  have bus': "bus_slots ?bus = []" "bus_next ?bus = bus_next bus"
      "bus_heap ?bus = (\<lambda>a. if a \<in> set (bus_slots bus) then map_option (SubscriberSlot_Evict r) (bus_heap bus a)
         else bus_heap bus a)"
    using assms(1) by (auto simp: DeltaBus_EvictAll_def Let_def foldl_evict_at bus_ok_def fun_eq_iff)
  show "bus_ok ?bus"
    using assms(1) by (auto simp: bus_ok_def bus_wf_def bus')
  show "\<exists>sl'. owned ?bus a sl' \<and> slot_eviction sl' \<noteq> kNone \<and> slot_queue sl' = slot_queue sl" if "owned bus a sl"
  proof (cases "a \<in> set (bus_slots bus)")
    case True
    then show ?thesis
      using that assms(2)
      by (intro exI[of _ "SubscriberSlot_Evict r sl"]) (simp add: owned_def bus' SubscriberSlot_Evict_def)
  next
    case False
    then show ?thesis
      using that by (intro exI[of _ sl]) (simp add: owned_def bus')
  qed
qed

lemma pop_slot:
  assumes "bus_ok bus" "owned bus a sl" "slot_eviction sl' = slot_eviction sl"
  shows "bus_ok (bus\<lparr>bus_heap := (bus_heap bus)(a := Some sl')\<rparr>)"
    and "owned (bus\<lparr>bus_heap := (bus_heap bus)(a := Some sl')\<rparr>) a sl'"
  using assms by (auto simp: bus_ok_def bus_wf_def owned_def)

section \<open>The invariant\<close>

definition pseq :: "(string \<Rightarrow> u64 option) \<Rightarrow> string \<Rightarrow> nat option" where
  "pseq parse p = map_option unat (parse p)"

definition head_nat :: "stream_system \<Rightarrow> nat" where
  "head_nat s = unat (rb_head_seq (ss_ring s))"

text \<open>The number of the last update the bus has seen.\<close>

definition published :: "stream_system \<Rightarrow> nat" where
  "published s = head_nat s - (case ss_unpublished s of None \<Rightarrow> 0 | Some p \<Rightarrow> 1)"

definition engine_ok :: "(string \<Rightarrow> u64 option) \<Rightarrow> stream_system \<Rightarrow> bool" where
  "engine_ok parse s \<longleftrightarrow> ring_sound (ss_ring s) \<and> bus_ok (ss_bus s) \<and>
     (\<forall>e \<in> set (ring_list (ss_ring s)). Option.bind (entry_payload e) parse = Some (entry_seq e)) \<and>
     (\<forall>p. ss_unpublished s = Some p \<longrightarrow> pseq parse p = Some (head_nat s) \<and> 0 < head_nat s)"

text \<open>
  The slot holds exactly the updates above \<open>lo\<close>, up to the last published one while the slot is not
  evicted.
\<close>

definition slot_ok :: "(string \<Rightarrow> u64 option) \<Rightarrow> stream_system \<Rightarrow> nat \<Rightarrow> bool" where
  "slot_ok parse s lo \<longleftrightarrow> (\<exists>sl hi. owned (ss_bus s) (ss_slot s) sl \<and> lo \<le> hi \<and> hi \<le> published s \<and>
     (slot_eviction sl = kNone \<longrightarrow> hi = published s) \<and>
     map (pseq parse) (slot_queue sl) = map Some [Suc lo..<Suc hi])"

definition sent_upto :: "stream_system \<Rightarrow> nat \<Rightarrow> bool" where
  "sent_upto s n \<longleftrightarrow> (\<exists>b. map unat (ss_sent s) = [b..<Suc n])"

definition pump_ok :: "(string \<Rightarrow> u64 option) \<Rightarrow> stream_system \<Rightarrow> nat \<Rightarrow> bool" where
  "pump_ok parse s lo \<longleftrightarrow>
    (let last = unat (ss_last_sent s) in
     case ss_pc s of
       P_created \<Rightarrow> False
     | P_start \<Rightarrow> ss_sent s = [] \<and> ss_last_sent s = ss_resume s
     | P_need_snapshot \<Rightarrow> ss_sent s = []
     | P_baseline h \<Rightarrow> ss_sent s = [] \<and> lo \<le> unat h \<and> unat h \<le> head_nat s
     | P_replay es \<Rightarrow> sent_upto s last \<and> (\<exists>e. lo \<le> e \<and> e \<le> head_nat s \<and> last \<le> e \<and>
         map (\<lambda>x. map_option unat (Option.bind (entry_payload x) parse)) es = map Some [Suc last..<Suc e])
     | P_live \<Rightarrow> sent_upto s last \<and> lo \<le> last \<and> last \<le> head_nat s
     | P_write n \<Rightarrow> sent_upto s last \<and> unat n = Suc last \<and> lo = Suc last \<and> lo \<le> head_nat s
     | P_done st \<Rightarrow> (\<exists>n. sent_upto s n))"

definition stream_inv :: "(string \<Rightarrow> u64 option) \<Rightarrow> stream_system \<Rightarrow> bool" where
  "stream_inv parse s \<longleftrightarrow> engine_ok parse s \<and>
     (if ss_pc s = P_created then ss_sent s = [] else \<exists>lo. slot_ok parse s lo \<and> pump_ok parse s lo)"

lemma published_le: "published s \<le> head_nat s"
  by (simp add: published_def)

lemma set_keep_last: "set (keep_last n xs) \<subseteq> set xs"
  by (simp add: keep_last_def set_drop_subset)

lemma pump_ok_mono:
  assumes "pump_ok parse s lo" "head_nat s \<le> head_nat s'" "ss_pc s' = ss_pc s" "ss_sent s' = ss_sent s"
    "ss_last_sent s' = ss_last_sent s" "ss_resume s' = ss_resume s"
  shows "pump_ok parse s' lo"
  using assms by (cases "ss_pc s") (auto simp: pump_ok_def sent_upto_def Let_def intro: order_trans)

lemma slot_ok_bus:
  assumes "slot_ok parse s lo" "ss_slot s' = ss_slot s" "published s' = published s"
    and "\<And>sl. owned (ss_bus s) (ss_slot s) sl \<Longrightarrow> \<exists>sl'. owned (ss_bus s') (ss_slot s) sl' \<and>
      slot_queue sl' = slot_queue sl \<and> (slot_eviction sl' = kNone \<longrightarrow> slot_eviction sl = kNone)"
  shows "slot_ok parse s' lo"
  using assms by (fastforce simp: slot_ok_def)

lemma stream_inv_frame:
  assumes "stream_inv parse s" "engine_ok parse s'" "ss_pc s' = ss_pc s" "ss_sent s' = ss_sent s"
    and "\<And>lo. ss_pc s \<noteq> P_created \<Longrightarrow> slot_ok parse s lo \<Longrightarrow> pump_ok parse s lo \<Longrightarrow>
      slot_ok parse s' lo \<and> pump_ok parse s' lo"
  shows "stream_inv parse s'"
proof (cases "ss_pc s = P_created")
  case True
  then show ?thesis using assms(1-4) by (simp add: stream_inv_def)
next
  case False
  then obtain lo where "slot_ok parse s lo" "pump_ok parse s lo"
    using assms(1) by (auto simp: stream_inv_def)
  then have "slot_ok parse s' lo \<and> pump_ok parse s' lo"
    using assms(5) False by blast
  then show ?thesis
    using False assms(2,3) by (auto simp: stream_inv_def)
qed

lemma inv_engine_push:
  assumes inv: "stream_inv parse s" and idle: "ss_unpublished s = None"
    and push: "ring_append p (ss_ring s) ring'" and seq: "parse p = Some (rb_head_seq (ss_ring s) + 1)"
  shows "stream_inv parse (s\<lparr>ss_ring := ring', ss_unpublished := Some p\<rparr>)" (is "stream_inv parse ?s'")
proof -
  have eng: "engine_ok parse s"
    using inv by (simp add: stream_inv_def)
  then have sound: "ring_sound (ss_ring s)"
    by (simp add: engine_ok_def)
  have ring': "ring_sound ring'" "unat (rb_head_seq ring') = Suc (head_nat s)"
    using ring_log.append_ok[OF sound push] by (simp_all add: head_nat_def)
  have pub: "published ?s' = published s" and head: "head_nat ?s' = Suc (head_nat s)"
    using idle ring' by (simp_all add: published_def head_nat_def)
  have new: "rb_head_seq ring' = rb_head_seq (ss_ring s) + 1"
      "ring_list ring' = keep_last (rb_capacity (ss_ring s)) (ring_list (ss_ring s) @
        [\<lparr>entry_seq = rb_head_seq (ss_ring s) + 1, entry_payload = Some p\<rparr>])"
    using push sound RingBuffer_Push_wf[of "ss_ring s" _ p ring'] RingBuffer_Push_refines[of "ss_ring s" _ p ring']
    by (auto simp: ring_append_def ring_sound_def)
  have "Option.bind (entry_payload e) parse = Some (entry_seq e)" if "e \<in> set (ring_list ring')" for e
  proof -
    have "e \<in> set (ring_list (ss_ring s)) \<or>
        e = \<lparr>entry_seq = rb_head_seq (ss_ring s) + 1, entry_payload = Some p\<rparr>"
      using that set_keep_last unfolding new(2) by fastforce
    then show ?thesis
      using eng seq by (auto simp: engine_ok_def)
  qed
  moreover have "pseq parse p = Some (head_nat ?s')"
    using seq new(1) by (simp add: pseq_def head_nat_def)
  ultimately have "engine_ok parse ?s'"
    using eng ring' head by (simp add: engine_ok_def)
  moreover have "slot_ok parse ?s' lo \<and> pump_ok parse ?s' lo" if "slot_ok parse s lo" "pump_ok parse s lo" for lo
  proof
    show "slot_ok parse ?s' lo"
      by (rule slot_ok_bus[OF that(1)]) (auto simp: pub)
    show "pump_ok parse ?s' lo"
      by (rule pump_ok_mono[OF that(2)]) (simp_all add: head)
  qed
  ultimately show ?thesis
    by (intro stream_inv_frame[OF inv]) simp_all
qed

lemma inv_engine_publish:
  assumes inv: "stream_inv parse s" and pending: "ss_unpublished s = Some p"
  shows "stream_inv parse (s\<lparr>ss_bus := DeltaBus_Publish p (ss_bus s), ss_unpublished := None\<rparr>)"
    (is "stream_inv parse ?s'")
proof -
  have eng: "engine_ok parse s"
    using inv by (simp add: stream_inv_def)
  then have bus: "bus_ok (ss_bus s)" and p: "pseq parse p = Some (head_nat s)" "0 < head_nat s"
    using pending by (simp_all add: engine_ok_def)
  have pub: "published ?s' = Suc (published s)" "head_nat s = Suc (published s)"
    using pending p(2) by (simp_all add: published_def head_nat_def)
  have "engine_ok parse ?s'"
    using eng publish_slot(1)[OF bus] by (simp add: engine_ok_def head_nat_def)
  moreover have "slot_ok parse ?s' lo \<and> pump_ok parse ?s' lo" if ok: "slot_ok parse s lo" "pump_ok parse s lo" for lo
  proof
    obtain sl hi where sl: "owned (ss_bus s) (ss_slot s) sl" "lo \<le> hi" "hi \<le> published s"
        "slot_eviction sl = kNone \<longrightarrow> hi = published s" "map (pseq parse) (slot_queue sl) = map Some [Suc lo..<Suc hi]"
      using ok(1) by (auto simp: slot_ok_def)
    have own: "owned (ss_bus ?s') (ss_slot ?s') (deliver p sl)"
      using publish_slot(2)[OF bus sl(1)] by simp
    show "slot_ok parse ?s' lo"
    proof (cases "slot_eviction sl = kNone \<and> length (slot_queue sl) < slot_capacity sl")
      case True
      then have "map (pseq parse) (slot_queue (deliver p sl)) = map Some [Suc lo..<Suc (Suc hi)]"
        using sl(2,4,5) p(1) pub(2) by (simp add: deliver_def)
      then show ?thesis
        using own sl(2,4) True pub(1) unfolding slot_ok_def by (intro exI[of _ "deliver p sl"] exI[of _ "Suc hi"]) simp
    next
      case False
      then have "slot_queue (deliver p sl) = slot_queue sl" "slot_eviction (deliver p sl) \<noteq> kNone"
        by (auto simp: deliver_def)
      then show ?thesis
        using own sl(2,3,5) pub(1) unfolding slot_ok_def by (intro exI[of _ "deliver p sl"] exI[of _ hi]) simp
    qed
    show "pump_ok parse ?s' lo"
      by (rule pump_ok_mono[OF ok(2)]) (simp_all add: head_nat_def)
  qed
  ultimately show ?thesis
    by (intro stream_inv_frame[OF inv]) simp_all
qed

text \<open>Steps of others: the bus changes, the queue of the slot does not.\<close>

lemma inv_bus:
  assumes inv: "stream_inv parse s" and bus: "bus_ok bus'"
    and own: "\<And>sl. ss_pc s \<noteq> P_created \<Longrightarrow> owned (ss_bus s) (ss_slot s) sl \<Longrightarrow>
      \<exists>sl'. owned bus' (ss_slot s) sl' \<and> slot_queue sl' = slot_queue sl \<and>
        (slot_eviction sl' = kNone \<longrightarrow> slot_eviction sl = kNone)"
  shows "stream_inv parse (s\<lparr>ss_bus := bus'\<rparr>)" (is "stream_inv parse ?s'")
proof -
  have same: "published ?s' = published s" "head_nat ?s' = head_nat s"
    by (simp_all add: published_def head_nat_def)
  have "slot_ok parse ?s' lo \<and> pump_ok parse ?s' lo"
    if "slot_ok parse s lo" "pump_ok parse s lo" "ss_pc s \<noteq> P_created" for lo
    using slot_ok_bus[OF that(1), of ?s'] pump_ok_mono[OF that(2), of ?s'] own[OF that(3)] same by simp
  moreover have "engine_ok parse ?s'"
    using inv bus same by (simp add: stream_inv_def engine_ok_def)
  ultimately show ?thesis
    by (intro stream_inv_frame[OF inv]) simp_all
qed

section \<open>The pump keeps the invariant\<close>

lemma sent_upto_Nil: "ss_sent s = [] \<Longrightarrow> sent_upto s n"
  by (auto simp: sent_upto_def intro: exI[of _ "Suc n"])

lemma sent_upto_snoc:
  assumes "sent_upto s k" "unat n = Suc k" "ss_sent s' = ss_sent s @ [n]"
  shows "sent_upto s' (unat n)"
proof -
  obtain b where b: "map unat (ss_sent s) = [b..<Suc k]"
    using assms(1) by (auto simp: sent_upto_def)
  show ?thesis
  proof (cases "b \<le> Suc k")
    case True
    then have "map unat (ss_sent s') = [b..<Suc (unat n)]"
      using b assms(2,3) by simp
    then show ?thesis unfolding sent_upto_def by (rule exI)
  next
    case False
    then have "map unat (ss_sent s') = [unat n..<Suc (unat n)]"
      using b assms(3) by simp
    then show ?thesis unfolding sent_upto_def by (rule exI)
  qed
qed

text \<open>Steps that change neither the engine's state nor the bus.\<close>

lemma same_env:
  assumes "ss_ring s' = ss_ring s" "ss_unpublished s' = ss_unpublished s" "ss_bus s' = ss_bus s" "ss_slot s' = ss_slot s"
  shows "engine_ok parse s' = engine_ok parse s" and "slot_ok parse s' lo = slot_ok parse s lo"
    and "head_nat s' = head_nat s"
  using assms by (simp_all add: engine_ok_def slot_ok_def published_def head_nat_def)

lemma inv_complete_write:
  assumes "engine_ok parse s" "slot_ok parse s lo" "sent_upto s k" "next \<noteq> P_created"
    and "pump_ok parse (s\<lparr>ss_sent := ss_sent s @ [n], ss_last_sent := n, ss_pc := next\<rparr>) lo"
  shows "stream_inv parse (complete_write write_ok n next s)"
proof (cases "write_ok \<and> \<not> ss_stop s")
  case True
  let ?s' = "s\<lparr>ss_sent := ss_sent s @ [n], ss_last_sent := n, ss_pc := next\<rparr>"
  have "engine_ok parse ?s'" "slot_ok parse ?s' lo"
    using assms(1,2) same_env[of ?s' s] by simp_all
  then show ?thesis
    using True assms(4,5) by (auto simp: complete_write_def stream_inv_def)
next
  case False
  let ?s' = "s\<lparr>ss_pc := P_done RPC_CANCELLED\<rparr>"
  have "engine_ok parse ?s'" "slot_ok parse ?s' lo" "sent_upto ?s' k"
    using assms(1-3) same_env[of ?s' s] by (simp_all add: sent_upto_def)
  moreover have "complete_write write_ok n next s = ?s'"
    using False by (auto simp: complete_write_def)
  ultimately show ?thesis
    by (auto simp: stream_inv_def pump_ok_def Let_def)
qed

lemma inv_pc:
  assumes "engine_ok parse s" "slot_ok parse s lo" "pc \<noteq> P_created" "pump_ok parse (s\<lparr>ss_pc := pc\<rparr>) lo"
  shows "stream_inv parse (s\<lparr>ss_pc := pc\<rparr>)"
  using assms same_env[of "s\<lparr>ss_pc := pc\<rparr>" s] by (auto simp: stream_inv_def)

lemma inv_replay_start:
  assumes "engine_ok parse s" "slot_ok parse s lo" "ss_sent s = []" "ss_last_sent s = ss_resume s"
    and es: "RingBuffer_GetFromSeq (ss_resume s) (ss_ring s) = Some es"
  shows "pump_ok parse (s\<lparr>ss_pc := P_replay es\<rparr>) lo"
proof -
  have sound: "ring_sound (ss_ring s)"
    using assms(1) by (simp add: engine_ok_def)
  have replay: "ring_replay (ss_resume s) (ss_ring s) = Some (map (\<lambda>e. (unat (entry_seq e), entry_payload e)) es)"
    using es by (simp add: ring_replay_def)
  have seqs: "unat (ss_resume s) \<le> head_nat s" "map (unat \<circ> entry_seq) es = [Suc (unat (ss_resume s))..<Suc (head_nat s)]"
    using ring_log.replay_seqs[OF sound replay] by (simp_all add: head_nat_def comp_def)
  have "set es \<subseteq> set (ring_list (ss_ring s))"
    using es sound by (auto simp: GetFromSeq_contig ring_sound_def split: if_splits)
  then have "map (\<lambda>x. map_option unat (Option.bind (entry_payload x) parse)) es = map Some (map (unat \<circ> entry_seq) es)"
    using assms(1) by (auto simp: engine_ok_def)
  also have "\<dots> = map Some [Suc (unat (ss_resume s))..<Suc (head_nat s)]"
    by (simp only: seqs(2))
  finally have replayed: "map (\<lambda>x. map_option unat (Option.bind (entry_payload x) parse)) es =
      map Some [Suc (unat (ss_resume s))..<Suc (head_nat s)]" .
  have "lo \<le> head_nat s"
    using assms(2) published_le[of s] by (auto simp: slot_ok_def)
  moreover have "head_nat (s\<lparr>ss_pc := P_replay es\<rparr>) = head_nat s"
    by (simp add: head_nat_def)
  ultimately show ?thesis
    using replayed seqs(1) assms(3,4) sent_upto_Nil[of "s\<lparr>ss_pc := P_replay es\<rparr>"]
    by (auto simp: pump_ok_def Let_def simp del: upt_Suc)
qed

lemma inv_replay_step:
  assumes "engine_ok parse s" "slot_ok parse s lo" "pump_ok parse s lo" "ss_pc s = P_replay es"
    and step: "PumpLoop_step parse write_ok s = Some s'"
  shows "stream_inv parse s'"
proof (cases es)
  case Nil
  then have "s' = s\<lparr>ss_pc := P_live\<rparr>"
    using step assms(4) by (simp add: PumpLoop_step_def)
  moreover have "pump_ok parse (s\<lparr>ss_pc := P_live\<rparr>) lo"
    using assms(3,4) Nil by (auto simp: pump_ok_def Let_def sent_upto_def head_nat_def split: if_splits)
  ultimately show ?thesis
    using inv_pc[OF assms(1,2)] by simp
next
  case (Cons e es')
  let ?last = "unat (ss_last_sent s)"
  obtain hi where hi: "sent_upto s ?last" "lo \<le> hi" "hi \<le> head_nat s" "?last \<le> hi"
      "map (\<lambda>x. map_option unat (Option.bind (entry_payload x) parse)) es = map Some [Suc ?last..<Suc hi]"
    using assms(3,4) by (auto simp: pump_ok_def Let_def)
  then have lt: "?last < hi"
    using Cons by (cases "?last < hi") auto
  then have rest: "map_option unat (Option.bind (entry_payload e) parse) = Some (Suc ?last)"
      "map (\<lambda>x. map_option unat (Option.bind (entry_payload x) parse)) es' = map Some [Suc (Suc ?last)..<Suc hi]"
    using hi(5) Cons by (simp_all add: upt_conv_Cons del: upt_Suc)
  then obtain n where n: "Option.bind (entry_payload e) parse = Some n" "unat n = Suc ?last"
    by auto
  let ?s' = "s\<lparr>ss_sent := ss_sent s @ [n], ss_last_sent := n, ss_pc := P_replay es'\<rparr>"
  have "sent_upto ?s' (unat n)"
    by (rule sent_upto_snoc[OF hi(1) n(2)]) simp
  then have "pump_ok parse ?s' lo"
    using rest(2) hi(2,3) lt n(2) by (auto simp: pump_ok_def Let_def head_nat_def simp del: upt_Suc)
  then have "stream_inv parse (complete_write write_ok n (P_replay es') s)"
    using inv_complete_write[OF assms(1,2) hi(1)] by simp
  then show ?thesis
    using step assms(4) Cons n(1) by (simp add: PumpLoop_step_def)
qed

lemma inv_live_step:
  assumes "engine_ok parse s" "slot_ok parse s lo" "pump_ok parse s lo" "ss_pc s = P_live"
    and step: "PumpLoop_step parse write_ok s = Some s'"
  shows "stream_inv parse s'"
proof -
  have live: "sent_upto s (unat (ss_last_sent s))" "lo \<le> unat (ss_last_sent s)" "unat (ss_last_sent s) \<le> head_nat s"
    using assms(3,4) by (simp_all add: pump_ok_def Let_def)
  obtain sl hi where sl: "owned (ss_bus s) (ss_slot s) sl" "lo \<le> hi" "hi \<le> published s"
      "slot_eviction sl = kNone \<longrightarrow> hi = published s" "map (pseq parse) (slot_queue sl) = map Some [Suc lo..<Suc hi]"
    using assms(2) by (auto simp: slot_ok_def)
  have heap: "bus_heap (ss_bus s) (ss_slot s) = Some sl"
    using sl(1) by (simp add: owned_def)
  have finished: "pump_ok parse (s\<lparr>ss_pc := P_done st\<rparr>) lo" for st
  proof -
    have "sent_upto (s\<lparr>ss_pc := P_done st\<rparr>) (unat (ss_last_sent s))"
      using live(1) by (simp add: sent_upto_def)
    then show ?thesis by (auto simp: pump_ok_def Let_def)
  qed
  show ?thesis
  proof (cases "ss_stop s \<or> slot_queue sl = []")
    case True
    then obtain st where "s' = s\<lparr>ss_pc := P_done st\<rparr>"
      using step assms(4) heap
      by (auto simp: PumpLoop_step_def SubscriberSlot_BlockingPop_def pop_ready_slot_def pop_ready_def split: if_splits)
    then show ?thesis
      using inv_pc[OF assms(1,2) _ finished] by simp
  next
    case False
    then obtain p ps where q: "slot_queue sl = p # ps"
      by (cases "slot_queue sl") auto
    then have lt: "lo < hi"
      using sl(5) by (cases "lo < hi") auto
    then have rest: "pseq parse p = Some (Suc lo)" "map (pseq parse) ps = map Some [Suc (Suc lo)..<Suc hi]"
      using sl(5) q by (simp_all add: upt_conv_Cons del: upt_Suc)
    then obtain n where n: "parse p = Some n" "unat n = Suc lo"
      by (auto simp: pseq_def)
    let ?sl = "sl\<lparr>slot_queue := ps\<rparr>"
    let ?t = "s\<lparr>ss_bus := (ss_bus s)\<lparr>bus_heap := (bus_heap (ss_bus s))(ss_slot s := Some ?sl)\<rparr>\<rparr>"
    have s': "s' = (if n \<le> ss_last_sent s then ?t else ?t\<lparr>ss_pc := P_write n\<rparr>)"
      using step assms(4) heap q n(1) False
      by (simp add: PumpLoop_step_def SubscriberSlot_BlockingPop_def pop_ready_slot_def pop_ready_def Let_def)
    have bus: "bus_ok (ss_bus ?t)" "owned (ss_bus ?t) (ss_slot ?t) ?sl"
      using pop_slot[OF _ sl(1), of ?sl] assms(1) by (simp_all add: engine_ok_def)
    have same: "head_nat ?t = head_nat s" "published ?t = published s"
      by (simp_all add: published_def head_nat_def)
    have eng: "engine_ok parse ?t"
      using assms(1) bus(1) same by (simp add: engine_ok_def)
    have slot: "slot_ok parse ?t (Suc lo)"
      unfolding slot_ok_def using bus(2) lt sl(3,4) rest(2) same
      by (intro exI[of _ ?sl] exI[of _ hi]) (simp del: upt_Suc)
    show ?thesis
    proof (cases "n \<le> ss_last_sent s")
      case True
      then have "pump_ok parse ?t (Suc lo)"
        using live n(2) assms(4) same by (simp add: pump_ok_def Let_def sent_upto_def word_le_nat_alt)
      then show ?thesis
        using s' True eng slot assms(4) by (auto simp: stream_inv_def)
    next
      case False
      then have "unat (ss_last_sent s) = lo"
        using live(2) n(2) by (simp add: word_le_nat_alt)
      then have "pump_ok parse (?t\<lparr>ss_pc := P_write n\<rparr>) (Suc lo)"
        using live(1) n(2) lt sl(3) published_le[of s] by (simp add: pump_ok_def Let_def sent_upto_def head_nat_def)
      then show ?thesis
        using s' False inv_pc[OF eng slot, of "P_write n"] by simp
    qed
  qed
qed

lemma inv_pump:
  assumes inv: "stream_inv parse s" and step: "PumpLoop_step parse write_ok s = Some s'"
  shows "stream_inv parse s'"
proof (cases "ss_pc s = P_created")
  case True
  obtain bus a where sub: "DeltaBus_Subscribe (ss_bus s) = (bus, a)"
    by (cases "DeltaBus_Subscribe (ss_bus s)")
  then have s': "s' = s\<lparr>ss_bus := bus, ss_slot := a, ss_last_sent := ss_resume s, ss_pc := P_start\<rparr>"
    using step True by (simp add: PumpLoop_step_def)
  have eng: "engine_ok parse s" and "ss_sent s = []"
    using inv True by (simp_all add: stream_inv_def)
  then have bus: "bus_ok bus" "owned bus a (SubscriberSlot_new kDefaultCapacity)"
    using subscribe_slot(1,2)[OF _ sub] by (simp_all add: engine_ok_def)
  have "engine_ok parse s'"
    using eng bus(1) by (simp add: s' engine_ok_def head_nat_def)
  moreover have "slot_ok parse s' (published s')"
    unfolding slot_ok_def using bus(2)
    by (intro exI[of _ "SubscriberSlot_new kDefaultCapacity"] exI[of _ "published s'"]) (simp add: s' SubscriberSlot_new_def)
  moreover have "pump_ok parse s' (published s')"
    using \<open>ss_sent s = []\<close> by (simp add: s' pump_ok_def)
  ultimately show ?thesis
    by (auto simp: stream_inv_def s')
next
  case False
  then obtain lo where eng: "engine_ok parse s" and slot: "slot_ok parse s lo" and pump: "pump_ok parse s lo"
    using inv by (auto simp: stream_inv_def)
  have lo: "lo \<le> head_nat s"
    using slot published_le[of s] by (auto simp: slot_ok_def)
  show ?thesis
  proof (cases "ss_pc s")
    case P_start
    then have start: "ss_sent s = []" "ss_last_sent s = ss_resume s"
      using pump by (simp_all add: pump_ok_def Let_def)
    show ?thesis
    proof (cases "if 0 < ss_resume s then RingBuffer_GetFromSeq (ss_resume s) (ss_ring s) else None")
      case None
      then have "s' = s\<lparr>ss_pc := P_need_snapshot\<rparr>"
        using step P_start by (simp add: PumpLoop_step_def)
      then show ?thesis
        using inv_pc[OF eng slot, of P_need_snapshot] start by (simp add: pump_ok_def)
    next
      case (Some es)
      then have "RingBuffer_GetFromSeq (ss_resume s) (ss_ring s) = Some es" "s' = s\<lparr>ss_pc := P_replay es\<rparr>"
        using step P_start by (auto simp: PumpLoop_step_def split: if_splits)
      then show ?thesis
        using inv_pc[OF eng slot _ inv_replay_start[OF eng slot start]] by simp
    qed
  next
    case P_need_snapshot
    then have "s' = s\<lparr>ss_pc := P_baseline (rb_head_seq (ss_ring s))\<rparr>" "ss_sent s = []"
      using step pump by (simp_all add: PumpLoop_step_def RingBuffer_HeadSeq_def pump_ok_def)
    then show ?thesis
      using inv_pc[OF eng slot, of "P_baseline (rb_head_seq (ss_ring s))"] lo by (simp add: pump_ok_def head_nat_def)
  next
    case (P_baseline h)
    then have h: "ss_sent s = []" "lo \<le> unat h" "unat h \<le> head_nat s"
      using pump by (simp_all add: pump_ok_def)
    let ?t = "s\<lparr>ss_sent := ss_sent s @ [h], ss_last_sent := h, ss_pc := P_live\<rparr>"
    have "map unat (ss_sent ?t) = [unat h..<Suc (unat h)]"
      using h(1) by simp
    then have "sent_upto ?t (unat h)"
      unfolding sent_upto_def by (rule exI)
    then have "pump_ok parse ?t lo"
      using h by (simp add: pump_ok_def Let_def head_nat_def)
    then show ?thesis
      using inv_complete_write[OF eng slot sent_upto_Nil[OF h(1)], of P_live h write_ok] step P_baseline
      by (auto simp: PumpLoop_step_def)
  next
    case (P_replay es)
    then show ?thesis using inv_replay_step[OF eng slot pump _ step] by simp
  next
    case P_live
    then show ?thesis using inv_live_step[OF eng slot pump _ step] by simp
  next
    case (P_write n)
    then have n: "sent_upto s (unat (ss_last_sent s))" "unat n = Suc (unat (ss_last_sent s))" "lo = unat n" "lo \<le> head_nat s"
      using pump by (simp_all add: pump_ok_def Let_def)
    let ?t = "s\<lparr>ss_sent := ss_sent s @ [n], ss_last_sent := n, ss_pc := P_live\<rparr>"
    have "sent_upto ?t (unat n)"
      by (rule sent_upto_snoc[OF n(1,2)]) simp
    then have "pump_ok parse ?t lo"
      using n by (simp add: pump_ok_def Let_def head_nat_def)
    then show ?thesis
      using inv_complete_write[OF eng slot n(1), of P_live n write_ok] step P_write
      by (auto simp: PumpLoop_step_def)
  qed (use step False in \<open>simp_all add: PumpLoop_step_def\<close>)
qed

lemma inv_stop: "stream_inv parse s \<Longrightarrow> stream_inv parse (s\<lparr>ss_stop := True\<rparr>)"
proof (rule stream_inv_frame)
  show "engine_ok parse (s\<lparr>ss_stop := True\<rparr>)" if "stream_inv parse s"
    using that same_env[of "s\<lparr>ss_stop := True\<rparr>" s] by (simp add: stream_inv_def)
  show "slot_ok parse (s\<lparr>ss_stop := True\<rparr>) lo \<and> pump_ok parse (s\<lparr>ss_stop := True\<rparr>) lo"
    if "slot_ok parse s lo" "pump_ok parse s lo" for lo
    using that same_env[of "s\<lparr>ss_stop := True\<rparr>" s] pump_ok_mono[OF that(2), of "s\<lparr>ss_stop := True\<rparr>"] by simp
qed simp_all

lemma inv_throws:
  assumes "stream_inv parse s" "ss_pc s \<noteq> P_created"
  shows "stream_inv parse (s\<lparr>ss_pc := P_done RPC_INTERNAL\<rparr>)"
proof -
  obtain lo where lo: "engine_ok parse s" "slot_ok parse s lo" "pump_ok parse s lo"
    using assms by (auto simp: stream_inv_def)
  have "\<exists>n. sent_upto s n"
    using lo(3) sent_upto_Nil[of s] by (cases "ss_pc s") (auto simp: pump_ok_def Let_def)
  then obtain n where "sent_upto (s\<lparr>ss_pc := P_done RPC_INTERNAL\<rparr>) n"
    by (auto simp: sent_upto_def simp del: upt_Suc)
  then have "pump_ok parse (s\<lparr>ss_pc := P_done RPC_INTERNAL\<rparr>) lo"
    by (auto simp: pump_ok_def)
  then show ?thesis using inv_pc[OF lo(1,2)] by simp
qed

lemma stream_step_inv: "stream_step parse s t \<Longrightarrow> stream_inv parse s \<Longrightarrow> stream_inv parse t"
proof (induction rule: stream_step.induct)
  case (engine_push s p ring')
  then show ?case by (simp add: inv_engine_push)
next
  case (engine_publish s p)
  then show ?case by (simp add: inv_engine_publish)
next
  case (other_subscribe s)
  then have "bus_ok (ss_bus s)" by (simp add: stream_inv_def engine_ok_def)
  from subscribe_slot(1,3)[OF this, of "fst (DeltaBus_Subscribe (ss_bus s))" "snd (DeltaBus_Subscribe (ss_bus s))"]
  show ?case by (intro inv_bus[OF other_subscribe]) auto
next
  case (other_close s b)
  then have "bus_ok (ss_bus s)" by (simp add: stream_inv_def engine_ok_def)
  note closed = close_slot[OF this]
  show ?case
  proof (rule inv_bus[OF other_close(2) closed(1)])
    fix sl assume "ss_pc s \<noteq> P_created" "owned (ss_bus s) (ss_slot s) sl"
    then have "owned (release_slot b (DeltaBus_Unsubscribe (Some b) (ss_bus s))) (ss_slot s) sl"
      using closed(2) other_close(1) by metis
    then show "\<exists>sl'. owned (release_slot b (DeltaBus_Unsubscribe (Some b) (ss_bus s))) (ss_slot s) sl' \<and>
        slot_queue sl' = slot_queue sl \<and> (slot_eviction sl' = kNone \<longrightarrow> slot_eviction sl = kNone)"
      by blast
  qed
next
  case (evict_all r s)
  then have "bus_ok (ss_bus s)" by (simp add: stream_inv_def engine_ok_def)
  from evict_all_slot[OF this evict_all(1)] show ?case
    by (intro inv_bus[OF evict_all(2)]) blast+
next
  case (stop s)
  then show ?case by (rule inv_stop)
next
  case (pump write_ok s s')
  then show ?case using inv_pump by blast
next
  case (pump_throws s)
  then show ?case using inv_throws by blast
qed

section \<open>Every run\<close>

text \<open>A gateway that has published nothing and a stream that has not subscribed yet.\<close>

definition stream_start :: "RingBuffer \<Rightarrow> DeltaBus \<Rightarrow> u64 \<Rightarrow> stream_system" where
  "stream_start ring bus resume = \<lparr> ss_ring = ring, ss_unpublished = None, ss_bus = bus, ss_slot = 0,
     ss_resume = resume, ss_pc = P_created, ss_last_sent = 0, ss_sent = [], ss_stop = False \<rparr>"

definition stream_init :: "stream_system \<Rightarrow> bool" where
  "stream_init s \<longleftrightarrow> (\<exists>n ring counters resume. RingBuffer_new n = Inr ring \<and>
     s = stream_start ring (DeltaBus_new counters) resume)"

lemma stream_init_inv: "stream_init s \<Longrightarrow> stream_inv parse s"
proof -
  have "(0::u64) < - 1" by code_simp
  then show "stream_init s \<Longrightarrow> stream_inv parse s"
    by (auto simp: stream_init_def stream_start_def stream_inv_def engine_ok_def ring_sound_def bus_ok_def
        bus_wf_def DeltaBus_new_def dest!: RingBuffer_new_wf)
qed

lemma reachable_stream_inv: "reachable stream_init (stream_step parse) s \<Longrightarrow> stream_inv parse s"
  using reachable_invariant[of stream_init "stream_step parse" s "stream_inv parse"]
    stream_init_inv stream_step_inv by blast

lemma reach_pump:
  assumes "reachable stream_init (stream_step parse) s" "\<not> Option.is_none (PumpLoop_step parse True s)"
  shows "reachable stream_init (stream_step parse) (the (PumpLoop_step parse True s))"
proof -
  obtain t where "PumpLoop_step parse True s = Some t"
    using assms(2) by (auto simp: Option.is_none_def)
  then show ?thesis
    using reach_step[OF assms(1) stream_step.pump] by simp
qed

lemma inv_consecutive: "stream_inv parse s \<Longrightarrow> \<exists>a b. map unat (ss_sent s) = [a..<b]"
proof -
  assume "stream_inv parse s"
  then have "ss_sent s = [] \<or> (\<exists>n. sent_upto s n)"
    by (cases "ss_pc s") (auto simp: stream_inv_def pump_ok_def Let_def)
  moreover have "\<exists>a b. map unat (ss_sent s) = [a..<b]" if "ss_sent s = []"
    using that by (intro exI[of _ 0]) simp
  ultimately show ?thesis
    by (auto simp: sent_upto_def simp del: upt_Suc)
qed

lemma inv_caught_up:
  assumes inv: "stream_inv parse s" and live: "ss_pc s = P_live" and idle: "ss_unpublished s = None"
    and slot: "bus_heap (ss_bus s) (ss_slot s) = Some sl" "slot_queue sl = []" "slot_eviction sl = kNone"
  shows "ss_last_sent s = rb_head_seq (ss_ring s)"
proof -
  obtain lo where lo: "slot_ok parse s lo" "pump_ok parse s lo"
    using inv live by (auto simp: stream_inv_def)
  have "lo = published s"
    using lo(1) slot by (auto simp: slot_ok_def owned_def split: if_splits)
  then have "unat (ss_last_sent s) = head_nat s"
    using lo(2) live idle by (simp add: pump_ok_def published_def Let_def)
  then show ?thesis
    by (simp add: head_nat_def word_unat_eq_iff)
qed

text \<open>A run: an observer connects to a gateway that then publishes one update.\<close>

definition sample_parse :: "string \<Rightarrow> u64 option" where
  "sample_parse p = Some (of_nat (length p))"

definition sample_pump :: "stream_system \<Rightarrow> stream_system" where
  "sample_pump s = the (PumpLoop_step sample_parse True s)"

definition sample_ring :: RingBuffer where
  "sample_ring = projr (RingBuffer_new 2)"

definition sample_baseline :: stream_system where
  "sample_baseline = sample_pump (sample_pump (sample_pump (sample_pump (stream_start sample_ring (DeltaBus_new None) 0))))"

definition sample_pushed :: stream_system where
  "sample_pushed = sample_baseline
     \<lparr>ss_ring := RingBuffer_store (ss_ring sample_baseline) \<lparr>entry_seq = 1, entry_payload = Some ''a''\<rparr>,
      ss_unpublished := Some ''a''\<rparr>"

definition sample_published :: stream_system where
  "sample_published = sample_pushed\<lparr>ss_bus := DeltaBus_Publish ''a'' (ss_bus sample_pushed), ss_unpublished := None\<rparr>"

definition sample_sent :: stream_system where
  "sample_sent = sample_pump (sample_pump sample_published)"

lemma sample_pump_reach:
  assumes "reachable stream_init (stream_step sample_parse) s" "\<not> Option.is_none (PumpLoop_step sample_parse True s)"
  shows "reachable stream_init (stream_step sample_parse) (sample_pump s)"
  using reach_pump[OF assms] by (simp add: sample_pump_def)

lemma sample_baseline_reach: "reachable stream_init (stream_step sample_parse) sample_baseline"
proof -
  have "RingBuffer_new 2 = Inr sample_ring"
    by (simp add: sample_ring_def RingBuffer_new_def)
  then have start: "reachable stream_init (stream_step sample_parse) (stream_start sample_ring (DeltaBus_new None) 0)"
    unfolding stream_init_def by (intro reach_init) blast
  show ?thesis
    unfolding sample_baseline_def by (intro sample_pump_reach start) code_simp+
qed

lemma sample_sent_reach: "reachable stream_init (stream_step sample_parse) sample_sent"
proof -
  have "ring_append ''a'' (ss_ring sample_baseline) (ss_ring sample_pushed)"
    unfolding ring_append_def by code_simp
  moreover have "ss_unpublished sample_baseline = None"
      "sample_parse ''a'' = Some (rb_head_seq (ss_ring sample_baseline) + 1)"
    by code_simp+
  ultimately have "stream_step sample_parse sample_baseline sample_pushed"
    using engine_push[of sample_baseline "''a''" "ss_ring sample_pushed" sample_parse] by (simp add: sample_pushed_def)
  moreover have "stream_step sample_parse sample_pushed sample_published"
    unfolding sample_published_def by (rule engine_publish) (simp add: sample_pushed_def)
  ultimately have pub: "reachable stream_init (stream_step sample_parse) sample_published"
    using sample_baseline_reach by (blast intro: reach_step)
  show ?thesis
    unfolding sample_sent_def by (intro sample_pump_reach pub) code_simp+
qed

text \<open>
  C2: whatever the interleaving of the engine, the other streams, mass evictions and the pump, the
  sequence numbers a state stream has sent are consecutive (so strictly increasing, with no
  gap and no duplicate, across the switch from snapshot or replay to live updates); and once
  the engine is between two publications, the pump waits and its slot is neither evicted nor backed up, the
  last number sent is the head of the history.
\<close>

theorem StreamState_gap_free:
  assumes "reachable stream_init (stream_step parse) s"
  shows "(\<exists>a b. map unat (ss_sent s) = [a..<b]) \<and>
    (ss_pc s = P_live \<and> ss_unpublished s = None \<and>
       (\<exists>sl. bus_heap (ss_bus s) (ss_slot s) = Some sl \<and> slot_queue sl = [] \<and> slot_eviction sl = kNone) \<longrightarrow>
     ss_last_sent s = rb_head_seq (ss_ring s))"
  using inv_consecutive[OF reachable_stream_inv[OF assms]] inv_caught_up[OF reachable_stream_inv[OF assms]]
  by blast

theorem StreamState_gap_free_witness:
  "ss_sent sample_sent = [0, 1] \<and> ss_last_sent sample_sent = rb_head_seq (ss_ring sample_sent)"
proof -
  have s: "ss_sent sample_sent = [0, 1]" "ss_pc sample_sent = P_live" "ss_unpublished sample_sent = None"
    "map_option (\<lambda>sl. (slot_queue sl, slot_eviction sl)) (bus_heap (ss_bus sample_sent) (ss_slot sample_sent)) = Some ([], kNone)"
    by code_simp+
  then show ?thesis
    using StreamState_gap_free[OF sample_sent_reach] by auto
qed

end
