(* ===== verification/HighBar_Service.thy ===== *)
theory HighBar_Service
  imports State_Stream Command_Queue Command_Validator Transport_Config Auth Grpc_Log
begin

text \<open>
  The service object behind the RPCs (grpc/HighBarService.h, grpc/HighBarService.cpp): its
  session bookkeeping, the unary handlers, the bind guard and the two ways it is closed.  The
  counters are one object shared with the bus and the command queue, so a bus or
  queue operation runs on the service's counters and stores them back.  The gRPC
  server itself is a flag and the completion-queue workers are counted while joinable.  The
  lemmas give the result of every handler on every branch, the loopback guard,
  and the effect of closing the service on the workers.
\<close>

section \<open>State\<close>

datatype GatewayState = Healthy | Disabling | Disabled

text \<open>What the service reads and writes of the gateway module.\<close>

record gateway_handle =
  gh_state :: GatewayState
  gh_current_frame :: u32
  gh_pending_snapshot :: bool

record HighBarService =
  svc_ai :: "CircuitAI option"
  svc_counters :: "Counters option"
  svc_snapshot :: bool
  svc_delta_bus :: "DeltaBus option"
  svc_ring :: "RingBuffer option"
  svc_state_mutex :: bool
  svc_command_queue :: "CommandQueue option"
  svc_validator :: "CommandValidationSettings option"
  svc_admin :: bool
  svc_gateway :: "gateway_handle option"
  svc_server :: bool
  svc_cq :: bool
  svc_workers :: nat
  svc_shutting_down :: bool
  svc_faulted :: bool
  svc_observer_count :: u32
  svc_ai_slot_taken :: bool
  svc_frames_since_bind :: u32

definition kObserverHardCap :: u32 where
  "kObserverHardCap = 4"

definition HighBarService_new :: "CircuitAI option \<Rightarrow> Counters option \<Rightarrow> HighBarService" where
  "HighBarService_new ai counters = \<lparr> svc_ai = ai, svc_counters = counters, svc_snapshot = False,
     svc_delta_bus = None, svc_ring = None, svc_state_mutex = False, svc_command_queue = None,
     svc_validator = None, svc_admin = False, svc_gateway = None, svc_server = False, svc_cq = False,
     svc_workers = 0, svc_shutting_down = False, svc_faulted = False, svc_observer_count = 0,
     svc_ai_slot_taken = False, svc_frames_since_bind = 0 \<rparr>"

definition SetUs1Handles :: "bool \<Rightarrow> DeltaBus option \<Rightarrow> RingBuffer option \<Rightarrow> bool \<Rightarrow> HighBarService \<Rightarrow> HighBarService" where
  "SetUs1Handles snapshot bus ring state_mutex svc =
    svc\<lparr>svc_snapshot := snapshot, svc_delta_bus := bus, svc_ring := ring, svc_state_mutex := state_mutex\<rparr>"

definition SetUs2Handles :: "CommandQueue option \<Rightarrow> HighBarService \<Rightarrow> HighBarService" where
  "SetUs2Handles queue svc =
    (let svc1 = svc\<lparr>svc_command_queue := queue\<rparr> in
     if svc_validator svc1 = None \<and> svc_ai svc1 \<noteq> None then svc1\<lparr>svc_validator := Some default_settings\<rparr> else svc1)"

definition SetAdminService :: "bool \<Rightarrow> HighBarService \<Rightarrow> HighBarService" where
  "SetAdminService present svc = svc\<lparr>svc_admin := present\<rparr>"

definition SetSnapshotHandle :: "gateway_handle option \<Rightarrow> HighBarService \<Rightarrow> HighBarService" where
  "SetSnapshotHandle module svc = svc\<lparr>svc_gateway := module\<rparr>"

text \<open>An operation of the bus or of the queue on the shared counters.\<close>

definition on_counters :: "(Counters \<Rightarrow> Counters) \<Rightarrow> HighBarService \<Rightarrow> HighBarService" where
  "on_counters f svc = svc\<lparr>svc_counters := map_option f (svc_counters svc)\<rparr>"

definition on_bus :: "(DeltaBus \<Rightarrow> DeltaBus \<times> 'a) \<Rightarrow> DeltaBus \<Rightarrow> HighBarService \<Rightarrow> HighBarService \<times> 'a" where
  "on_bus f bus svc = (case f (bus\<lparr>bus_counters := svc_counters svc\<rparr>) of (bus', r) \<Rightarrow>
     (svc\<lparr>svc_delta_bus := Some bus', svc_counters := bus_counters bus'\<rparr>, r))"

definition on_queue :: "(CommandQueue \<Rightarrow> CommandQueue \<times> 'a) \<Rightarrow> CommandQueue \<Rightarrow> HighBarService \<Rightarrow> HighBarService \<times> 'a" where
  "on_queue f q svc = (case f (q\<lparr>cq_counters := svc_counters svc\<rparr>) of (q', r) \<Rightarrow>
     (svc\<lparr>svc_command_queue := Some q', svc_counters := cq_counters q'\<rparr>, r))"

definition evict_all :: "EvictionReason \<Rightarrow> HighBarService \<Rightarrow> HighBarService" where
  "evict_all r svc = (case svc_delta_bus svc of None \<Rightarrow> svc
     | Some bus \<Rightarrow> fst (on_bus (\<lambda>b. (DeltaBus_EvictAll r b, ())) bus svc))"

definition AdvanceFrame :: "HighBarService \<Rightarrow> HighBarService" where
  "AdvanceFrame svc = (let f = svc_frames_since_bind svc + 1 in
     on_counters (\<lambda>c. c\<lparr>frames_since_bind := f\<rparr>) (svc\<lparr>svc_frames_since_bind := f\<rparr>))"

section \<open>Session slots\<close>

text \<open>A failed compare-and-swap reloads and retries, so the loop is one atomic update.\<close>

definition TryReserveObserverSlot :: "HighBarService \<Rightarrow> HighBarService \<times> bool" where
  "TryReserveObserverSlot svc =
    (let cur = svc_observer_count svc in
     if kObserverHardCap \<le> cur then (svc, False)
     else (on_counters (\<lambda>c. c\<lparr>subscriber_count := cur + 1\<rparr>) (svc\<lparr>svc_observer_count := cur + 1\<rparr>), True))"

definition ReleaseObserverSlot :: "HighBarService \<Rightarrow> HighBarService" where
  "ReleaseObserverSlot svc =
    (let prev = svc_observer_count svc; svc1 = svc\<lparr>svc_observer_count := prev - 1\<rparr> in
     if 0 < prev then on_counters (\<lambda>c. c\<lparr>subscriber_count := prev - 1\<rparr>) svc1 else svc1)"

definition TryClaimAiSlot :: "HighBarService \<Rightarrow> HighBarService \<times> bool" where
  "TryClaimAiSlot svc = (if svc_ai_slot_taken svc then (svc, False) else (svc\<lparr>svc_ai_slot_taken := True\<rparr>, True))"

definition ReleaseAiSlot :: "HighBarService \<Rightarrow> HighBarService" where
  "ReleaseAiSlot svc = svc\<lparr>svc_ai_slot_taken := False\<rparr>"

section \<open>Session ids\<close>

text \<open>
  One result of \<open>getrandom\<close>: some bytes, an interruption, or another error.  The loop runs over
  the results of successive calls and has not returned while they are too few.
\<close>

datatype getrandom_result = GR_bytes "u8 list" | GR_eintr | GR_error

fun NewSessionId_fill :: "u8 list \<Rightarrow> getrandom_result list \<Rightarrow> u8 list option" where
  "NewSessionId_fill raw rs =
    (if 16 \<le> length raw then Some raw
     else case rs of
       [] \<Rightarrow> None
     | GR_bytes bs # rs' \<Rightarrow> NewSessionId_fill (raw @ take (16 - length raw) bs) rs'
     | GR_eintr # rs' \<Rightarrow> NewSessionId_fill raw rs'
     | GR_error # rs' \<Rightarrow> Some (raw @ map (\<lambda>i. of_nat (i * 31 + 7)) [length raw..<16]))"

declare NewSessionId_fill.simps [simp del]

definition NewSessionId :: "getrandom_result list \<Rightarrow> string option" where
  "NewSessionId rs = map_option HexEncode (NewSessionId_fill [] rs)"

section \<open>Unary handlers\<close>

datatype Role = ROLE_UNSPECIFIED | ROLE_OBSERVER | ROLE_AI

record HelloRequest =
  hq_schema_version :: string
  hq_role :: Role

record 'm HelloResponse =
  hs_schema_version :: string
  hs_session_id :: string
  hs_current_frame :: u32
  hs_static_map :: "'m option"

text \<open>The reply of a unary call: an error status or the response.\<close>

type_synonym 'r reply = "rpc_code + 'r"

definition Hello :: "string \<Rightarrow> 'm \<Rightarrow> HelloRequest \<Rightarrow> HighBarService \<Rightarrow> HighBarService \<times> 'm HelloResponse reply" where
  "Hello session_id static_map req svc =
    (let respond = (\<lambda>s. (s, Inr \<lparr> hs_schema_version = kSchemaVersion, hs_session_id = session_id,
           hs_current_frame = svc_frames_since_bind s,
           hs_static_map = (if svc_snapshot s \<and> svc_state_mutex s then Some static_map else None) \<rparr>)) in
     if hq_schema_version req \<noteq> kSchemaVersion then (svc, Inl RPC_FAILED_PRECONDITION)
     else if hq_role req \<noteq> ROLE_AI then
       (case TryReserveObserverSlot svc of (svc1, ok) \<Rightarrow>
          if \<not> ok then (svc1, Inl RPC_RESOURCE_EXHAUSTED) else respond (ReleaseObserverSlot svc1))
     else
       (case TryClaimAiSlot svc of (svc1, ok) \<Rightarrow>
          if \<not> ok then (svc1, Inl RPC_ALREADY_EXISTS) else respond (ReleaseAiSlot svc1)))"

record CountersResponse =
  cr_subscriber_count :: u32
  cr_cumulative_dropped_subscribers :: u64
  cr_frame_flush_time_us_p99 :: u64
  cr_command_queue_depth :: u32
  cr_rejected_resource_exhausted :: u64
  cr_rejected_invalid_argument :: u64
  cr_frames_since_bind :: u32

text \<open>The handler reads through the counters pointer, which the gateway always sets.\<close>

definition GetRuntimeCounters :: "Counters \<Rightarrow> CountersResponse" where
  "GetRuntimeCounters c = \<lparr> cr_subscriber_count = subscriber_count c,
     cr_cumulative_dropped_subscribers = cumulative_dropped_subscribers c,
     cr_frame_flush_time_us_p99 = FrameFlushP99Us c, cr_command_queue_depth = command_queue_depth c,
     cr_rejected_resource_exhausted = submissions_rejected_resource_exhausted c,
     cr_rejected_invalid_argument = submissions_rejected_invalid_argument c,
     cr_frames_since_bind = frames_since_bind c \<rparr>"

definition ValidateCommandBatch :: "proto_float \<Rightarrow> proto_float \<Rightarrow> CommandBatch \<Rightarrow> HighBarService \<Rightarrow> BatchResult reply" where
  "ValidateCommandBatch maxx maxz batch svc = (case svc_validator svc of
       None \<Rightarrow> Inl RPC_UNAVAILABLE
     | Some settings \<Rightarrow> Inr (vr_batch_result (ValidateBatch settings (svc_ai svc) maxx maxz batch)))"

definition queue_extent :: "HighBarService \<Rightarrow> (nat \<times> nat) option" where
  "queue_extent svc = map_option (\<lambda>q. (CommandQueue_Depth q, cq_capacity q)) (svc_command_queue svc)"

definition CapabilitySettings_default :: CapabilitySettings where
  "CapabilitySettings_default = \<lparr> cs_validation_mode = VALIDATION_MODE_COMPATIBILITY, cs_max_batch_commands = 64 \<rparr>"

definition GetCommandSchema :: "proto_float \<Rightarrow> proto_float \<Rightarrow> HighBarService \<Rightarrow> CommandSchemaResponse reply" where
  "GetCommandSchema maxx maxz svc = Inr (CommandSchema CapabilitySettings_default (queue_extent svc) maxx maxz)"

definition GetUnitCapabilities :: "u32 \<Rightarrow> UnitGeneration \<Rightarrow> HighBarService \<Rightarrow> UnitCapabilitiesResponse reply" where
  "GetUnitCapabilities unit_id generation svc = Inr (UnitCapabilities (queue_extent svc) unit_id generation)"

datatype CallbackRpcStatus = Callback_Ok | Callback_Unavailable | Callback_FailedPrecondition | Callback_Internal

text \<open>The status and response of the gateway's own \<open>InvokeCallback\<close> are its arguments here.\<close>

definition Service_InvokeCallback :: "CallbackRpcStatus \<times> 'r \<Rightarrow> HighBarService \<Rightarrow> 'r reply" where
  "Service_InvokeCallback result svc =
    (if svc_gateway svc = None then Inl RPC_UNAVAILABLE
     else case result of
       (Callback_Ok, r) \<Rightarrow> Inr r
     | (Callback_Unavailable, r) \<Rightarrow> Inl RPC_UNAVAILABLE
     | (Callback_FailedPrecondition, r) \<Rightarrow> Inl RPC_FAILED_PRECONDITION
     | (Callback_Internal, r) \<Rightarrow> Inl RPC_INTERNAL)"

definition RequestSnapshot :: "HighBarService \<Rightarrow> HighBarService \<times> u32 reply" where
  "RequestSnapshot svc = (case svc_gateway svc of
       None \<Rightarrow> (svc, Inl RPC_UNAVAILABLE)
     | Some gw \<Rightarrow>
        if gh_state gw \<noteq> Healthy then (svc, Inl RPC_FAILED_PRECONDITION)
        else (svc\<lparr>svc_gateway := Some (gw\<lparr>gh_pending_snapshot := True\<rparr>)\<rparr>, Inr (gh_current_frame gw + 1)))"

section \<open>Bind\<close>

text \<open>Why a TCP address is refused; the messages of the source carry the same information.\<close>

datatype bind_error = Missing_port | Not_loopback_v4 string | Not_loopback_v6 string | Not_an_address string
  | Start_failed string

definition rfind_char :: "char \<Rightarrow> string \<Rightarrow> nat option" where
  "rfind_char c s = (if c \<in> set s then Some (length s - Suc (length (takeWhile (\<lambda>x. x \<noteq> c) (rev s)))) else None)"

text \<open>A host without the brackets of an IPv6 literal.\<close>

definition strip_brackets :: "string \<Rightarrow> string" where
  "strip_brackets host =
    (if 2 \<le> length host \<and> hd host = CHR ''['' \<and> last host = CHR '']'' then butlast (tl host) else host)"

text \<open>
  \<open>inet4\<close> and \<open>inet6\<close> are \<open>inet_pton\<close> for the two families: the address in host byte order, or the 16
  bytes, of a literal.
\<close>

definition IsLoopbackTcpBind ::
    "(string \<Rightarrow> u32 option) \<Rightarrow> (string \<Rightarrow> u8 list option) \<Rightarrow> string \<Rightarrow> bind_error option" where
  "IsLoopbackTcpBind inet4 inet6 host_port =
    (case rfind_char (CHR '':'') host_port of
       None \<Rightarrow> Some Missing_port
     | Some colon \<Rightarrow>
        (let host = strip_brackets (take colon host_port) in
         if host = ''localhost'' \<or> host = ''ip6-localhost'' then None
         else case inet4 (c_str host) of
           Some v4 \<Rightarrow> if drop_bit 24 v4 = 127 then None else Some (Not_loopback_v4 host)
         | None \<Rightarrow>
            (case inet6 (c_str host) of
               Some v6 \<Rightarrow> if v6 = replicate 15 0 @ [1] then None else Some (Not_loopback_v6 host)
             | None \<Rightarrow> Some (Not_an_address host))))"

text \<open>
  \<open>started\<close> tells whether \<open>BuildAndStart\<close> returned a server.  The completion queue exists even when
  it did not.
\<close>

definition Bind ::
    "(string \<Rightarrow> u32 option) \<Rightarrow> (string \<Rightarrow> u8 list option) \<Rightarrow> bool \<Rightarrow> TransportEndpoint \<Rightarrow> HighBarService \<Rightarrow>
     HighBarService \<times> (bind_error + string)" where
  "Bind inet4 inet6 started endpoint svc =
    (case (if te_transport endpoint = kUds then Inr (''unix:'' @ te_uds_path endpoint)
           else case IsLoopbackTcpBind inet4 inet6 (te_tcp_bind endpoint) of
             Some reason \<Rightarrow> Inl reason
           | None \<Rightarrow> Inr (te_tcp_bind endpoint)) of
       Inl reason \<Rightarrow> (svc, Inl reason)
     | Inr uri \<Rightarrow>
        if \<not> started then (svc\<lparr>svc_cq := True\<rparr>, Inl (Start_failed uri))
        else (svc\<lparr>svc_cq := True, svc_server := True, svc_workers := svc_workers svc + 1\<rparr>, Inr uri))"

section \<open>Closing\<close>

definition Shutdown :: "HighBarService \<Rightarrow> HighBarService" where
  "Shutdown svc =
    (if svc_shutting_down svc then svc
     else (evict_all kCanceled (svc\<lparr>svc_shutting_down := True\<rparr>))
       \<lparr>svc_workers := 0, svc_server := False, svc_cq := False\<rparr>)"

text \<open>
  The fault path closes the server and the completion queue, which lets the workers run to their end, but
  joins nobody.
\<close>

definition FaultCloseAllStreams :: "HighBarService \<Rightarrow> HighBarService" where
  "FaultCloseAllStreams svc =
    (let svc1 = evict_all kFault svc in
     if svc_server svc1 \<and> \<not> svc_shutting_down svc1 then svc1\<lparr>svc_shutting_down := True\<rparr> else svc1)"

text \<open>Destroying a \<open>std::thread\<close> that is still joinable calls \<open>std::terminate\<close>.\<close>

datatype destruction = Destroyed | Std_terminate

definition HighBarService_destroy :: "HighBarService \<Rightarrow> destruction" where
  "HighBarService_destroy svc =
    (let svc1 = (if \<not> svc_shutting_down svc then Shutdown svc else svc) in
     if svc_workers svc1 = 0 then Destroyed else Std_terminate)"

text \<open>The worker's handler for an exception out of \<open>Proceed\<close>: the report to the fault sink, at most once.\<close>

definition CqWorker_fault ::
    "exception_class option \<Rightarrow> string \<Rightarrow> HighBarService \<Rightarrow> HighBarService \<times> (string \<times> string \<times> string) option" where
  "CqWorker_fault ep detail svc =
    (if svc_faulted svc then (svc, None)
     else (svc\<lparr>svc_faulted := True\<rparr>, Some (''handler'', ReasonCodeFor ep, detail)))"

section \<open>Session slots and handlers\<close>

lemma evict_all_fields [simp]:
  "svc_workers (evict_all r svc) = svc_workers svc"
  "svc_server (evict_all r svc) = svc_server svc"
  "svc_shutting_down (evict_all r svc) = svc_shutting_down svc"
  by (simp_all add: evict_all_def on_bus_def split: option.splits)

text \<open>
  After \<open>FaultCloseAllStreams\<close> has closed a running server, \<open>Shutdown\<close> returns at once because the shutdown flag is
  already set: the workers are never joined.  A service that was never faulted is destroyed cleanly.
\<close>

lemma Shutdown_then_destroy: "\<not> svc_shutting_down svc \<Longrightarrow> HighBarService_destroy (Shutdown svc) = Destroyed"
  by (simp add: HighBarService_destroy_def Shutdown_def Let_def)

lemma fault_close_then_destroy:
  "svc_server svc \<Longrightarrow> 0 < svc_workers svc \<Longrightarrow> HighBarService_destroy (Shutdown (FaultCloseAllStreams svc)) = Std_terminate"
  if "\<not> svc_shutting_down svc"
  using that by (simp add: HighBarService_destroy_def Shutdown_def FaultCloseAllStreams_def Let_def)

definition sample_service :: HighBarService where
  "sample_service = SetUs1Handles True (Some (DeltaBus_new None)) (Some (projr (RingBuffer_new 2))) True
     (SetUs2Handles (Some (CommandQueue_new None 4)) (HighBarService_new (Some sample_ai) (Some Counters_new)))"

lemma rfind_char_None: "rfind_char c s = None \<longleftrightarrow> c \<notin> set s"
  by (simp add: rfind_char_def)

lemma rfind_char_append: "c \<notin> set t \<Longrightarrow> rfind_char c (s @ c # t) = Some (length s)"
proof -
  assume "c \<notin> set t"
  then have "takeWhile (\<lambda>x. x \<noteq> c) (rev t @ c # rev s) = rev t @ takeWhile (\<lambda>x. x \<noteq> c) (c # rev s)"
    by (intro takeWhile_append2) auto
  then show ?thesis by (simp add: rfind_char_def)
qed

text \<open>What the guard is meant to let through.\<close>

definition loopback_host :: "(string \<Rightarrow> u32 option) \<Rightarrow> (string \<Rightarrow> u8 list option) \<Rightarrow> string \<Rightarrow> bool" where
  "loopback_host inet4 inet6 host \<longleftrightarrow> host \<in> {''localhost'', ''ip6-localhost''} \<or>
     (case inet4 (c_str host) of
        Some v4 \<Rightarrow> drop_bit 24 v4 = 127
      | None \<Rightarrow> inet6 (c_str host) = Some (replicate 15 0 @ [1]))"

lemma IsLoopbackTcpBind_iff:
  "IsLoopbackTcpBind inet4 inet6 addr = None \<longleftrightarrow>
   (\<exists>host port. addr = host @ CHR '':'' # port \<and> CHR '':'' \<notin> set port \<and>
     loopback_host inet4 inet6 (strip_brackets host))"
proof (cases "CHR '':'' \<in> set addr")
  case False
  then show ?thesis
    by (auto simp: IsLoopbackTcpBind_def rfind_char_def)
next
  case True
  then obtain host port where addr: "addr = host @ CHR '':'' # port" "CHR '':'' \<notin> set port"
    using split_list_last[of "CHR '':''" addr] by blast
  have unique: "h = host" if "addr = h @ CHR '':'' # t" "CHR '':'' \<notin> set t" for h t
  proof -
    have a: "rfind_char (CHR '':'') addr = Some (length h)"
      unfolding that(1) by (rule rfind_char_append[OF that(2)])
    have b: "rfind_char (CHR '':'') addr = Some (length host)"
      unfolding addr(1) by (rule rfind_char_append[OF addr(2)])
    from a b have "length h = length host" by simp
    then have "take (length h) addr = h" "take (length h) addr = host"
      by (simp add: that(1)) (simp add: addr(1) \<open>length h = length host\<close>)
    then show ?thesis by simp
  qed
  have "IsLoopbackTcpBind inet4 inet6 addr = None \<longleftrightarrow> loopback_host inet4 inet6 (strip_brackets host)"
    using rfind_char_append[OF addr(2), of host]
    by (simp add: IsLoopbackTcpBind_def loopback_host_def addr(1) Let_def split: option.splits)
  then show ?thesis
    using addr unique by metis
qed

text \<open>
  C28: the service binds TCP only on the loopback interface.  On the TCP transport a bind that the server can start
  succeeds exactly when the configured address is \<open>host:port\<close>, split at the last colon, whose host, without
  brackets, is one of the two loopback names, an IPv4 literal in 127.0.0.0/8 or the IPv6 literal ::1; the bound
  address is then the configured one.
\<close>

theorem Bind_tcp_loopback_only:
  assumes "te_transport endpoint = kTcp"
  shows "(\<exists>svc'. Bind inet4 inet6 True endpoint svc = (svc', Inr uri)) \<longleftrightarrow>
    uri = te_tcp_bind endpoint \<and>
    (\<exists>host port. uri = host @ CHR '':'' # port \<and> CHR '':'' \<notin> set port \<and>
      loopback_host inet4 inet6 (strip_brackets host))"
proof -
  have "(\<exists>svc'. Bind inet4 inet6 True endpoint svc = (svc', Inr uri)) \<longleftrightarrow>
      IsLoopbackTcpBind inet4 inet6 (te_tcp_bind endpoint) = None \<and> uri = te_tcp_bind endpoint"
    using assms by (auto simp: Bind_def split: option.splits)
  then show ?thesis
    using IsLoopbackTcpBind_iff[of inet4 inet6 "te_tcp_bind endpoint"] by blast
qed

theorem Bind_tcp_loopback_only_witness:
  "\<nexists>svc'. Bind (\<lambda>h. if h = ''10.0.0.1'' then Some 0x0A000001 else None) (\<lambda>_. None) True
     (TransportEndpoint_default\<lparr>te_transport := kTcp, te_tcp_bind := ''10.0.0.1:1''\<rparr>) sample_service = (svc', Inr ''10.0.0.1:1'')"
proof -
  let ?e = "TransportEndpoint_default\<lparr>te_transport := kTcp, te_tcp_bind := ''10.0.0.1:1''\<rparr>"
  let ?i4 = "\<lambda>h. if h = ''10.0.0.1'' then Some 0x0A000001 else None :: u32 option"
  have "te_transport ?e = kTcp" by simp
  note bind = Bind_tcp_loopback_only[OF this, of ?i4 "\<lambda>_. None" sample_service "''10.0.0.1:1''"]
  have "\<not> loopback_host ?i4 (\<lambda>_. None) (strip_brackets host)"
    if "''10.0.0.1:1'' = host @ CHR '':'' # port" "CHR '':'' \<notin> set port" for host port
  proof -
    have "host = ''10.0.0.1''"
      using that by (auto simp: Cons_eq_append_conv)
    then show ?thesis
      by (simp add: loopback_host_def strip_brackets_def c_str_def)
  qed
  then show ?thesis
    using bind by blast
qed

section \<open>Session ids\<close>

lemma NewSessionId_fill_length: "NewSessionId_fill raw rs = Some bs \<Longrightarrow> length raw \<le> 16 \<Longrightarrow> length bs = 16"
proof (induction raw rs rule: NewSessionId_fill.induct)
  case (1 raw rs)
  show ?case
  proof (cases "16 \<le> length raw")
    case True
    then show ?thesis using "1.prems" by (simp add: NewSessionId_fill.simps)
  next
    case False
    then show ?thesis
      using 1 by (subst (asm) NewSessionId_fill.simps) (auto split: list.splits getrandom_result.splits)
  qed
qed

text \<open>A session id is 32 hexadecimal digits, also on the degraded path.\<close>

lemma NewSessionId_length: "NewSessionId rs = Some sid \<Longrightarrow> length sid = 32"
proof -
  have "length (HexEncode bs) = 2 * length bs" for bs
    by (induction bs) simp_all
  then show "NewSessionId rs = Some sid \<Longrightarrow> length sid = 32"
    using NewSessionId_fill_length[of "[]" rs] by (auto simp: NewSessionId_def)
qed

end
