(* ===== verification/Submit_Commands.thy ===== *)
theory Submit_Commands
  imports HighBar_Service
begin

text \<open>
  The command stream of the AI client (\<open>SubmitCommandsCallData\<close> in grpc/HighBarService.cpp): it
  claims the AI slot, reads batches in a loop, validates and enqueues each, and ends with an
  acknowledgement or an error.  The lemmas follow one stream against the draining engine thread:
  accepted sequence numbers increase strictly, exactly the accepted batches reach the
  queue, whole and in order, and the first refusal ends the stream.
\<close>

section \<open>Model\<close>

datatype submit_stage = Sub_created | Sub_reading | Sub_finishing

record CommandAck =
  ack_last_accepted_batch_seq :: u64
  ack_batches_accepted :: u64
  ack_batches_rejected_invalid :: u64
  ack_batches_rejected_full :: u64
  ack_results :: "BatchResult list"

text \<open>What goes on the wire at the end: the acknowledgement, or a status without a message.\<close>

datatype submit_reply = Reply_ack CommandAck | Reply_error rpc_code

record SubmitCommandsCallData =
  sub_stage :: submit_stage
  sub_claimed :: bool
  sub_session_id :: string
  sub_last_accepted :: u64
  sub_last_seen :: u64
  sub_accepted :: u64
  sub_rejected_invalid :: u64
  sub_rejected_full :: u64
  sub_results :: "BatchResult list"
  sub_reply :: "submit_reply option"

definition SubmitCommandsCallData_new :: SubmitCommandsCallData where
  "SubmitCommandsCallData_new = \<lparr> sub_stage = Sub_created, sub_claimed = False, sub_session_id = [],
     sub_last_accepted = 0, sub_last_seen = 0, sub_accepted = 0, sub_rejected_invalid = 0,
     sub_rejected_full = 0, sub_results = [], sub_reply = None \<rparr>"

definition SubmitCommandsCallData_destroy :: "SubmitCommandsCallData \<Rightarrow> HighBarService \<Rightarrow> HighBarService" where
  "SubmitCommandsCallData_destroy cd svc = (if sub_claimed cd then ReleaseAiSlot svc else svc)"

definition Submit_Finish :: "rpc_code \<Rightarrow> SubmitCommandsCallData \<Rightarrow> SubmitCommandsCallData" where
  "Submit_Finish status cd = cd\<lparr>sub_stage := Sub_finishing, sub_reply := Some
     (if status = RPC_OK
      then Reply_ack \<lparr> ack_last_accepted_batch_seq = 0, ack_batches_accepted = 0,
        ack_batches_rejected_invalid = 0, ack_batches_rejected_full = 0, ack_results = [] \<rparr>
      else Reply_error status)\<rparr>"

definition HandleCreated ::
    "string \<Rightarrow> HighBarService \<Rightarrow> SubmitCommandsCallData \<Rightarrow> HighBarService \<times> SubmitCommandsCallData" where
  "HandleCreated session_id svc cd =
    (if svc_command_queue svc = None \<or> svc_validator svc = None then (svc, Submit_Finish RPC_UNAVAILABLE cd)
     else case TryClaimAiSlot svc of (svc1, ok) \<Rightarrow>
       if \<not> ok then (svc1, Submit_Finish RPC_ALREADY_EXISTS cd)
       else (svc1, cd\<lparr>sub_claimed := True, sub_session_id := session_id, sub_stage := Sub_reading\<rparr>))"

definition stale_result :: "CommandBatch \<Rightarrow> BatchResult" where
  "stale_result batch = BatchResult_default
     \<lparr> br_batch_seq := cb_batch_seq batch, br_client_command_id := client_id_or_zero batch,
       br_status := COMMAND_BATCH_REJECTED_STALE, br_mode := VALIDATION_MODE_STRICT,
       br_issues := [FillBatchIssue batch STALE_OR_DUPLICATE_BATCH_SEQ 0 ''batch_seq'' RETRY_AFTER_NEXT_SNAPSHOT] \<rparr>"

definition queue_full_result :: "CommandBatch \<Rightarrow> BatchResult \<Rightarrow> BatchResult" where
  "queue_full_result batch r = r
     \<lparr> br_status := COMMAND_BATCH_REJECTED_QUEUE_FULL, br_accepted_command_count := 0,
       br_issues := br_issues r @ [FillBatchIssue batch QUEUE_FULL 0 ''commands'' RETRY_AFTER_QUEUE_DRAINS] \<rparr>"

definition count_invalid :: "HighBarService \<Rightarrow> HighBarService" where
  "count_invalid = on_counters (\<lambda>c. c\<lparr>submissions_rejected_invalid_argument := submissions_rejected_invalid_argument c + 1\<rparr>)"

definition count_exhausted :: "HighBarService \<Rightarrow> HighBarService" where
  "count_exhausted = on_counters (\<lambda>c. c\<lparr>submissions_rejected_resource_exhausted := submissions_rejected_resource_exhausted c + 1\<rparr>)"

text \<open>
  A completed read: a batch, or none at the end of the client's stream.  The validator and the queue
  are the ones \<open>HandleCreated\<close> found wired.
\<close>

definition HandleReadDone ::
    "proto_float \<Rightarrow> proto_float \<Rightarrow> CommandValidationSettings \<Rightarrow> CommandQueue \<Rightarrow> CommandBatch option \<Rightarrow>
     HighBarService \<Rightarrow> SubmitCommandsCallData \<Rightarrow> HighBarService \<times> SubmitCommandsCallData" where
  "HandleReadDone maxx maxz settings q incoming svc cd =
    (case incoming of
       None \<Rightarrow> (svc, cd\<lparr>sub_stage := Sub_finishing, sub_reply := Some (Reply_ack
         \<lparr> ack_last_accepted_batch_seq = sub_last_accepted cd, ack_batches_accepted = sub_accepted cd,
           ack_batches_rejected_invalid = sub_rejected_invalid cd, ack_batches_rejected_full = sub_rejected_full cd,
           ack_results = sub_results cd \<rparr>)\<rparr>)
     | Some batch \<Rightarrow>
        if cb_batch_seq batch \<le> sub_last_seen cd
          then (count_invalid svc, Submit_Finish RPC_INVALID_ARGUMENT
            (cd\<lparr>sub_rejected_invalid := sub_rejected_invalid cd + 1, sub_results := sub_results cd @ [stale_result batch]\<rparr>))
        else let r = ValidateBatch settings (svc_ai svc) maxx maxz batch in
        if \<not> vr_ok r
          then (count_invalid svc, Submit_Finish RPC_INVALID_ARGUMENT
            (cd\<lparr>sub_rejected_invalid := sub_rejected_invalid cd + 1, sub_results := sub_results cd @ [vr_batch_result r]\<rparr>))
        else case on_queue (CommandQueue_TryPushBatch (batch_children batch (sub_session_id cd))) q svc of (svc1, ok) \<Rightarrow>
          if \<not> ok
            then (count_exhausted svc1, Submit_Finish RPC_RESOURCE_EXHAUSTED
              (cd\<lparr>sub_rejected_full := sub_rejected_full cd + 1,
                 sub_results := sub_results cd @ [queue_full_result batch (vr_batch_result r)]\<rparr>))
          else (svc1, cd\<lparr>sub_accepted := sub_accepted cd + 1, sub_last_accepted := cb_batch_seq batch,
                  sub_last_seen := cb_batch_seq batch, sub_results := sub_results cd @ [vr_batch_result r]\<rparr>))"

section \<open>One stream against the engine\<close>

text \<open>The events of one stream: a batch is read, or the engine drains up to a number of commands.\<close>

datatype submit_event = Ev_batch CommandBatch | Ev_drain nat

text \<open>The accepted batches and the drained commands of a run.\<close>

fun submit_run ::
    "proto_float \<Rightarrow> proto_float \<Rightarrow> CommandValidationSettings \<Rightarrow> submit_event list \<Rightarrow> HighBarService \<Rightarrow> SubmitCommandsCallData \<Rightarrow>
     HighBarService \<times> SubmitCommandsCallData \<times> CommandBatch list \<times> QueuedCommand list" where
  "submit_run maxx maxz settings [] svc cd = (svc, cd, [], [])"
| "submit_run maxx maxz settings (Ev_batch b # es) svc cd =
    (case svc_command_queue svc of
       None \<Rightarrow> (svc, cd, [], [])
     | Some q \<Rightarrow>
        if sub_stage cd \<noteq> Sub_reading then submit_run maxx maxz settings es svc cd
        else case HandleReadDone maxx maxz settings q (Some b) svc cd of (svc1, cd1) \<Rightarrow>
          (case submit_run maxx maxz settings es svc1 cd1 of (svc2, cd2, acc, out) \<Rightarrow>
             (svc2, cd2, (if sub_stage cd1 = Sub_reading then b # acc else acc), out)))"
| "submit_run maxx maxz settings (Ev_drain n # es) svc cd =
    (case svc_command_queue svc of
       None \<Rightarrow> (svc, cd, [], [])
     | Some q \<Rightarrow>
        (case on_queue (CommandQueue_Drain (Some []) n) q svc of (svc1, taken, m) \<Rightarrow>
          (case submit_run maxx maxz settings es svc1 cd of (svc2, cd2, acc, out) \<Rightarrow>
             (svc2, cd2, acc, the taken @ out))))"

section \<open>One read\<close>

lemma on_queue_eq:
  "on_queue f q svc = (svc\<lparr>svc_command_queue := Some (fst (f (q\<lparr>cq_counters := svc_counters svc\<rparr>))),
     svc_counters := cq_counters (fst (f (q\<lparr>cq_counters := svc_counters svc\<rparr>)))\<rparr>, snd (f (q\<lparr>cq_counters := svc_counters svc\<rparr>)))"
  by (simp add: on_queue_def split: prod.splits)

lemma count_fields [simp]:
  "svc_command_queue (count_invalid svc) = svc_command_queue svc"
  "svc_command_queue (count_exhausted svc) = svc_command_queue svc"
  "svc_ai (count_invalid svc) = svc_ai svc"
  "svc_ai (count_exhausted svc) = svc_ai svc"
  "svc_ai_slot_taken (count_invalid svc) = svc_ai_slot_taken svc"
  "svc_ai_slot_taken (count_exhausted svc) = svc_ai_slot_taken svc"
  "svc_observer_count (count_invalid svc) = svc_observer_count svc"
  "svc_observer_count (count_exhausted svc) = svc_observer_count svc"
  by (simp_all add: count_invalid_def count_exhausted_def on_counters_def)

text \<open>The conditions under which a batch is accepted.\<close>

definition submit_accepts ::
    "proto_float \<Rightarrow> proto_float \<Rightarrow> CommandValidationSettings \<Rightarrow> CommandQueue \<Rightarrow> HighBarService \<Rightarrow>
     SubmitCommandsCallData \<Rightarrow> CommandBatch \<Rightarrow> bool" where
  "submit_accepts maxx maxz settings q svc cd b \<longleftrightarrow> sub_last_seen cd < cb_batch_seq b \<and>
     vr_ok (ValidateBatch settings (svc_ai svc) maxx maxz b) \<and>
     length (cb_commands b) \<le> cq_capacity q - length (cq_queue q)"

lemma TryPushBatch_children:
  "CommandQueue_TryPushBatch (batch_children b sid) q =
    (if length (cb_commands b) \<le> cq_capacity q - length (cq_queue q)
     then (store_depth (q\<lparr>cq_queue := cq_queue q @ batch_children b sid\<rparr>), True) else (q, False))"
  by (auto simp: CommandQueue_TryPushBatch_def batch_children_def)

lemma HandleReadDone_accept:
  assumes "submit_accepts maxx maxz settings q svc cd b"
    and "HandleReadDone maxx maxz settings q (Some b) svc cd = (svc', cd')"
  shows "cd' = cd\<lparr>sub_accepted := sub_accepted cd + 1, sub_last_accepted := cb_batch_seq b, sub_last_seen := cb_batch_seq b,
      sub_results := sub_results cd @ [vr_batch_result (ValidateBatch settings (svc_ai svc) maxx maxz b)]\<rparr> \<and>
    svc_ai svc' = svc_ai svc \<and> (\<exists>q'. svc_command_queue svc' = Some q' \<and> cq_capacity q' = cq_capacity q \<and>
      cq_queue q' = cq_queue q @ batch_children b (sub_session_id cd))"
proof -
  have "\<not> cb_batch_seq b \<le> sub_last_seen cd" "vr_ok (ValidateBatch settings (svc_ai svc) maxx maxz b)"
      "length (cb_commands b) \<le> cq_capacity q - length (cq_queue q)"
    using assms by (simp_all add: submit_accepts_def not_le)
  then show ?thesis
    using assms(2) by (auto simp: HandleReadDone_def on_queue_eq TryPushBatch_children store_depth_def Let_def)
qed

lemma HandleReadDone_refuse:
  assumes "\<not> submit_accepts maxx maxz settings q svc cd b" "svc_command_queue svc = Some q"
  shows "HandleReadDone maxx maxz settings q (Some b) svc cd = (svc', cd') \<Longrightarrow>
    sub_stage cd' = Sub_finishing \<and> sub_session_id cd' = sub_session_id cd \<and>
    sub_accepted cd' = sub_accepted cd \<and> sub_last_accepted cd' = sub_last_accepted cd \<and>
    svc_ai svc' = svc_ai svc \<and> (\<exists>st. st \<noteq> RPC_OK \<and> sub_reply cd' = Some (Reply_error st)) \<and>
    (\<exists>q'. svc_command_queue svc' = Some q' \<and> cq_capacity q' = cq_capacity q \<and> cq_queue q' = cq_queue q)"
  using assms
  by (auto simp: submit_accepts_def HandleReadDone_def on_queue_eq TryPushBatch_children Submit_Finish_def
      Let_def split: if_splits)

lemma submit_run_finished:
  assumes "sub_stage cd \<noteq> Sub_reading"
  shows "submit_run maxx maxz settings es svc cd = (svc', cd', acc, out) \<Longrightarrow> cd' = cd \<and> acc = []"
  using assms
proof (induction es arbitrary: svc svc' out)
  case (Cons e es)
  then show ?case
    by (cases e) (auto split: option.splits prod.splits)
qed simp

fun batches_of :: "submit_event list \<Rightarrow> CommandBatch list" where
  "batches_of [] = []"
| "batches_of (Ev_batch b # es) = b # batches_of es"
| "batches_of (Ev_drain n # es) = batches_of es"

text \<open>What a run has done, relative to the state it started from.\<close>

definition submit_done ::
    "proto_float \<Rightarrow> proto_float \<Rightarrow> CommandValidationSettings \<Rightarrow> submit_event list \<Rightarrow> CommandQueue \<Rightarrow> HighBarService \<Rightarrow>
     SubmitCommandsCallData \<Rightarrow> HighBarService \<times> SubmitCommandsCallData \<times> CommandBatch list \<times> QueuedCommand list \<Rightarrow> bool" where
  "submit_done maxx maxz settings es q svc cd r \<longleftrightarrow> (case r of (svc', cd', acc, out) \<Rightarrow>
     sorted_wrt (<) (sub_last_seen cd # map cb_batch_seq acc) \<and>
     (\<forall>b \<in> set acc. vr_ok (ValidateBatch settings (svc_ai svc) maxx maxz b)) \<and>
     sub_accepted cd' = sub_accepted cd + of_nat (length acc) \<and>
     sub_last_accepted cd' = last (sub_last_accepted cd # map cb_batch_seq acc) \<and>
     (\<exists>rest. batches_of es = acc @ rest \<and>
        (if rest = [] then sub_stage cd' = Sub_reading
         else sub_stage cd' = Sub_finishing \<and> (\<exists>st. st \<noteq> RPC_OK \<and> sub_reply cd' = Some (Reply_error st)))) \<and>
     (\<exists>q'. svc_command_queue svc' = Some q' \<and>
        cq_queue q @ concat (map (\<lambda>b. batch_children b (sub_session_id cd)) acc) = out @ cq_queue q'))"

lemma drain_queue:
  "on_queue (CommandQueue_Drain (Some []) n) q svc = (svc', taken, m) \<Longrightarrow>
   svc_ai svc' = svc_ai svc \<and> (\<exists>q'. svc_command_queue svc' = Some q' \<and> cq_queue q = the taken @ cq_queue q')"
  by (auto simp: on_queue_eq CommandQueue_Drain_def store_depth_def Let_def)

lemma submit_run_queue:
  assumes "svc_command_queue svc = Some q" "submit_run maxx maxz settings es svc cd = (svc', cd', acc, out)"
    "sub_stage cd \<noteq> Sub_reading"
  shows "\<exists>q'. svc_command_queue svc' = Some q' \<and> cq_queue q = out @ cq_queue q'"
  using assms
proof (induction es arbitrary: svc q out)
  case (Cons e es)
  show ?case
  proof (cases e)
    case (Ev_batch b)
    then show ?thesis using Cons by simp
  next
    case (Ev_drain n)
    obtain svc1 taken m where d: "on_queue (CommandQueue_Drain (Some []) n) q svc = (svc1, taken, m)"
      by (cases "on_queue (CommandQueue_Drain (Some []) n) q svc")
    then obtain q1 where q1: "svc_command_queue svc1 = Some q1" "cq_queue q = the taken @ cq_queue q1"
      using drain_queue by blast
    obtain out' where out': "submit_run maxx maxz settings es svc1 cd = (svc', cd', acc, out')" "out = the taken @ out'"
      using Cons.prems(1,2) d by (auto simp: Ev_drain split: prod.splits)
    show ?thesis
      using Cons.IH[OF q1(1) out'(1) Cons.prems(3)] q1(2) out'(2) by auto
  qed
qed simp

lemma submit_run_done:
  assumes "svc_command_queue svc = Some q" "sub_stage cd = Sub_reading"
  shows "submit_done maxx maxz settings es q svc cd (submit_run maxx maxz settings es svc cd)"
  using assms
proof (induction es arbitrary: svc q cd)
  case Nil
  then show ?case by (simp add: submit_done_def)
next
  case (Cons e es)
  show ?case
  proof (cases e)
    case (Ev_drain n)
    obtain svc1 taken m where d: "on_queue (CommandQueue_Drain (Some []) n) q svc = (svc1, taken, m)"
      by (cases "on_queue (CommandQueue_Drain (Some []) n) q svc")
    then obtain q1 where q1: "svc_ai svc1 = svc_ai svc" "svc_command_queue svc1 = Some q1" "cq_queue q = the taken @ cq_queue q1"
      using drain_queue by blast
    show ?thesis
      using Cons.IH[OF q1(2) Cons.prems(2)] q1(1,3) Cons.prems(1) d
      by (auto simp: submit_done_def Ev_drain split: prod.splits)
  next
    case (Ev_batch b)
    obtain svc1 cd1 where h: "HandleReadDone maxx maxz settings q (Some b) svc cd = (svc1, cd1)"
      by (cases "HandleReadDone maxx maxz settings q (Some b) svc cd")
    obtain svc2 cd2 acc out where rest: "submit_run maxx maxz settings es svc1 cd1 = (svc2, cd2, acc, out)"
      by (cases "submit_run maxx maxz settings es svc1 cd1")
    have run: "submit_run maxx maxz settings (e # es) svc cd =
        (svc2, cd2, (if sub_stage cd1 = Sub_reading then b # acc else acc), out)"
      using Cons.prems h rest by (simp add: Ev_batch)
    show ?thesis
    proof (cases "submit_accepts maxx maxz settings q svc cd b")
      case True
      note a = HandleReadDone_accept[OF True h]
      obtain q1 where q1: "svc_command_queue svc1 = Some q1" "cq_queue q1 = cq_queue q @ batch_children b (sub_session_id cd)"
        using a by blast
      have "sub_stage cd1 = Sub_reading"
        using a Cons.prems(2) by simp
      then show ?thesis
        using Cons.IH[OF q1(1), of cd1] a q1(2) True unfolding run rest
        by (auto simp: submit_done_def Ev_batch submit_accepts_def add.assoc intro: less_trans)
    next
      case False
      note r = HandleReadDone_refuse[OF False Cons.prems(1) h]
      have "cd2 = cd1" "acc = []"
        using submit_run_finished[OF _ rest] r by simp_all
      moreover obtain q' where "svc_command_queue svc2 = Some q'" "cq_queue q = out @ cq_queue q'"
        using submit_run_queue[OF _ rest] r by auto
      ultimately show ?thesis
        using r unfolding run by (auto simp: submit_done_def Ev_batch)
    qed
  qed
qed

text \<open>
  C3: a command stream delivers exactly what it accepts.  Over any interleaving of batches with drains by the engine,
  a stream that has just claimed the AI slot accepts a prefix of the batches sent: each passes validation and their
  sequence numbers are positive and strictly increasing.  The commands handed to the engine followed by those
  still queued are the initial queue followed by all commands of the accepted batches, in order and
  nothing else.  The counters of the acknowledgement agree with the prefix, and if some batch was
  not accepted the stream is over with an error status.
\<close>

theorem SubmitCommands_delivers_accepted:
  assumes "HandleCreated sid svc0 SubmitCommandsCallData_new = (svc, cd)" "sub_stage cd = Sub_reading"
    and "submit_run maxx maxz settings es svc cd = (svc', cd', acc, out)"
  shows "\<exists>q q' rest. svc_command_queue svc0 = Some q \<and> svc_command_queue svc' = Some q' \<and>
    batches_of es = acc @ rest \<and>
    sorted_wrt (<) (0 # map cb_batch_seq acc) \<and>
    (\<forall>b \<in> set acc. vr_ok (ValidateBatch settings (svc_ai svc0) maxx maxz b)) \<and>
    out @ cq_queue q' = cq_queue q @ concat (map (\<lambda>b. batch_children b sid) acc) \<and>
    sub_accepted cd' = of_nat (length acc) \<and> sub_last_accepted cd' = last (0 # map cb_batch_seq acc) \<and>
    (if rest = [] then sub_stage cd' = Sub_reading
     else \<exists>st. st \<noteq> RPC_OK \<and> sub_reply cd' = Some (Reply_error st))"
proof -
  have cd: "cd = SubmitCommandsCallData_new\<lparr>sub_claimed := True, sub_session_id := sid, sub_stage := Sub_reading\<rparr>"
      "svc = svc0\<lparr>svc_ai_slot_taken := True\<rparr>" "svc_command_queue svc0 \<noteq> None"
    using assms(1,2)
    by (auto simp: HandleCreated_def TryClaimAiSlot_def Submit_Finish_def SubmitCommandsCallData_new_def split: if_splits)
  then obtain q where q: "svc_command_queue svc0 = Some q" "svc_command_queue svc = Some q"
    by auto
  from submit_run_done[OF q(2) assms(2), of maxx maxz settings es] show ?thesis
    unfolding assms(3) submit_done_def using q(1)
    by (auto simp: cd SubmitCommandsCallData_new_def split: if_splits)
qed

theorem SubmitCommands_delivers_accepted_witness:
  "\<exists>svc' cd' out. submit_run (Fin 64 0) (Fin 64 0) default_settings
       [Ev_batch (sample_moves [sample_move 7 4]), Ev_drain 0, Ev_batch (sample_moves [sample_move 7 4])]
       (fst (HandleCreated ''s'' sample_service SubmitCommandsCallData_new))
       (snd (HandleCreated ''s'' sample_service SubmitCommandsCallData_new)) =
     (svc', cd', [sample_moves [sample_move 7 4]], out) \<and> sub_last_accepted cd' = 3 \<and>
     (\<exists>st. st \<noteq> RPC_OK \<and> sub_reply cd' = Some (Reply_error st))"
proof -
  let ?b = "sample_moves [sample_move 7 4]"
  let ?h = "HandleCreated ''s'' sample_service SubmitCommandsCallData_new"
  let ?es = "[Ev_batch ?b, Ev_drain 0, Ev_batch ?b]"
  let ?r = "submit_run (Fin 64 0) (Fin 64 0) default_settings ?es (fst ?h) (snd ?h)"
  obtain svc' cd' acc out where r: "?r = (svc', cd', acc, out)" by (cases ?r)
  have "map cb_batch_seq (fst (snd (snd ?r))) = [3]"
    by code_simp
  then have acc: "length acc = 1" using r by (metis fst_conv snd_conv length_map length_Cons list.size(3) One_nat_def)
  have "sub_stage (snd ?h) = Sub_reading" by code_simp
  from SubmitCommands_delivers_accepted[OF surjective_pairing this r] acc r show ?thesis
    by (auto simp: length_Suc_conv sample_moves_def)
qed

end
