(* ===== verification/Service_Calls.thy ===== *)
theory Service_Calls
  imports Submit_Commands
begin

text \<open>
  The life of the streaming calls (\<open>StreamStateCallData::Proceed\<close> and the two call destructors in
  grpc/HighBarService.cpp) and the server as a whole: a service, the list of its call objects, and the
  steps of the completion-queue worker, which runs one \<open>Proceed\<close> at a time, of the pump threads, and of the
  engine thread.  The invariant ties the session counters of the service to the calls that are alive:
  at most four observer streams and one command stream, and no slot held by a dead call.
\<close>

section \<open>Model\<close>

datatype stream_stage = St_created | St_streaming | St_finishing

record StreamStateCallData =
  st_stage :: stream_stage
  st_reserved :: bool
  st_slot :: "nat option"
  st_resume :: u64
  st_status :: "rpc_code option"

definition StreamStateCallData_new :: StreamStateCallData where
  "StreamStateCallData_new = \<lparr> st_stage = St_created, st_reserved = False, st_slot = None, st_resume = 0, st_status = None \<rparr>"

definition stream_finish :: "rpc_code \<Rightarrow> StreamStateCallData \<Rightarrow> StreamStateCallData" where
  "stream_finish status cd = cd\<lparr>st_stage := St_finishing, st_status := Some status\<rparr>"

definition StreamState_accept ::
    "u64 \<Rightarrow> HighBarService \<Rightarrow> StreamStateCallData \<Rightarrow> HighBarService \<times> StreamStateCallData" where
  "StreamState_accept resume_from_seq svc cd =
    (case TryReserveObserverSlot svc of (svc1, ok) \<Rightarrow>
       if \<not> ok then (svc1, stream_finish RPC_RESOURCE_EXHAUSTED cd)
       else let cd1 = cd\<lparr>st_reserved := True\<rparr> in
       (case svc_delta_bus svc1 of
          None \<Rightarrow> (svc1, stream_finish RPC_UNAVAILABLE cd1)
        | Some bus \<Rightarrow>
           if \<not> svc_snapshot svc1 \<or> \<not> svc_state_mutex svc1 \<or> svc_ring svc1 = None
             then (svc1, stream_finish RPC_UNAVAILABLE cd1)
           else case on_bus DeltaBus_Subscribe bus svc1 of (svc2, slot) \<Rightarrow>
             (svc2, cd1\<lparr>st_slot := Some slot, st_resume := resume_from_seq, st_stage := St_streaming\<rparr>)))"

text \<open>The destructor; the last reference to the slot goes with the call.\<close>

definition StreamStateCallData_destroy :: "StreamStateCallData \<Rightarrow> HighBarService \<Rightarrow> HighBarService" where
  "StreamStateCallData_destroy cd svc =
    (let svc1 = (case (st_slot cd, svc_delta_bus svc) of
         (Some a, Some bus) \<Rightarrow> fst (on_bus (\<lambda>b. (release_slot a (DeltaBus_Unsubscribe (Some a) b), ())) bus svc)
       | _ \<Rightarrow> svc) in
     if st_reserved cd then ReleaseObserverSlot svc1 else svc1)"

datatype call = Stream_call StreamStateCallData | Submit_call SubmitCommandsCallData | Freed_call

text \<open>
  \<open>Proceed\<close> of a stream: the service, what becomes of the call object, and the replacement that waits for the
  next client.  A completion while streaming only wakes the pump.
\<close>

definition StreamState_Proceed ::
    "bool \<Rightarrow> u64 \<Rightarrow> HighBarService \<Rightarrow> StreamStateCallData \<Rightarrow> HighBarService \<times> call \<times> call list" where
  "StreamState_Proceed ok resume_from_seq svc cd =
    (case st_stage cd of
       St_created \<Rightarrow>
        if \<not> ok then (StreamStateCallData_destroy cd svc, Freed_call, [])
        else (case StreamState_accept resume_from_seq svc cd of (svc1, cd1) \<Rightarrow>
          (svc1, Stream_call cd1, [Stream_call StreamStateCallData_new]))
     | St_streaming \<Rightarrow> (svc, Stream_call cd, [])
     | St_finishing \<Rightarrow> (StreamStateCallData_destroy cd svc, Freed_call, []))"

definition SubmitCommands_Proceed ::
    "proto_float \<Rightarrow> proto_float \<Rightarrow> bool \<Rightarrow> string \<Rightarrow> CommandBatch \<Rightarrow> HighBarService \<Rightarrow> SubmitCommandsCallData \<Rightarrow>
     HighBarService \<times> call \<times> call list" where
  "SubmitCommands_Proceed maxx maxz ok session_id incoming svc cd =
    (case sub_stage cd of
       Sub_created \<Rightarrow>
        if \<not> ok then (SubmitCommandsCallData_destroy cd svc, Freed_call, [])
        else (case HandleCreated session_id svc cd of (svc1, cd1) \<Rightarrow>
          (svc1, Submit_call cd1, [Submit_call SubmitCommandsCallData_new]))
     | Sub_reading \<Rightarrow>
        (case (svc_validator svc, svc_command_queue svc) of
           (Some settings, Some q) \<Rightarrow>
             (case HandleReadDone maxx maxz settings q (if ok then Some incoming else None) svc cd of (svc1, cd1) \<Rightarrow>
               (svc1, Submit_call cd1, []))
         | _ \<Rightarrow> (svc, Submit_call cd, []))
     | Sub_finishing \<Rightarrow> (SubmitCommandsCallData_destroy cd svc, Freed_call, []))"

record server =
  sv_service :: HighBarService
  sv_calls :: "call list"

text \<open>
  The steps: the worker runs \<open>Proceed\<close> of a call or a unary handler, a pump finishes its stream, the engine
  publishes, drains, advances the frame or faults, and the service shuts down.
\<close>

inductive server_step :: "server \<Rightarrow> server \<Rightarrow> bool" where
  stream_proceed: "i < length (sv_calls s) \<Longrightarrow> sv_calls s ! i = Stream_call cd \<Longrightarrow>
    StreamState_Proceed ok resume (sv_service s) cd = (svc', c', new) \<Longrightarrow>
    server_step s \<lparr>sv_service = svc', sv_calls = (sv_calls s)[i := c'] @ new\<rparr>"
| submit_proceed: "i < length (sv_calls s) \<Longrightarrow> sv_calls s ! i = Submit_call cd' \<Longrightarrow>
    SubmitCommands_Proceed maxx maxz ok sid incoming (sv_service s) cd' = (svc', c', new) \<Longrightarrow>
    server_step s \<lparr>sv_service = svc', sv_calls = (sv_calls s)[i := c'] @ new\<rparr>"
| pump_finish: "i < length (sv_calls s) \<Longrightarrow> sv_calls s ! i = Stream_call cd \<Longrightarrow> st_stage cd = St_streaming \<Longrightarrow>
    server_step s (s\<lparr>sv_calls := (sv_calls s)[i := Stream_call (stream_finish status cd)]\<rparr>)"
| hello: "Hello sid (static_map :: string) req (sv_service s) = (svc', reply) \<Longrightarrow> server_step s (s\<lparr>sv_service := svc'\<rparr>)"
| request_snapshot: "server_step s (s\<lparr>sv_service := fst (RequestSnapshot (sv_service s))\<rparr>)"
| frame: "server_step s (s\<lparr>sv_service := AdvanceFrame (sv_service s)\<rparr>)"
| publish: "svc_delta_bus (sv_service s) = Some bus \<Longrightarrow>
    server_step s (s\<lparr>sv_service := fst (on_bus (\<lambda>b. (DeltaBus_Publish payload b, ())) bus (sv_service s))\<rparr>)"
| drain: "svc_command_queue (sv_service s) = Some q \<Longrightarrow>
    server_step s (s\<lparr>sv_service := fst (on_queue (CommandQueue_Drain (Some []) n) q (sv_service s))\<rparr>)"
| fault_close: "server_step s (s\<lparr>sv_service := FaultCloseAllStreams (sv_service s)\<rparr>)"
| shutdown: "server_step s (s\<lparr>sv_service := Shutdown (sv_service s)\<rparr>)"

text \<open>Right after \<open>Bind\<close>: one waiting call of each streaming kind.\<close>

definition server_init :: "server \<Rightarrow> bool" where
  "server_init s \<longleftrightarrow> svc_observer_count (sv_service s) = 0 \<and> \<not> svc_ai_slot_taken (sv_service s) \<and>
     sv_calls s = [Stream_call StreamStateCallData_new, Submit_call SubmitCommandsCallData_new]"

section \<open>Sessions\<close>

definition holds_observer :: "call \<Rightarrow> bool" where
  "holds_observer c = (case c of Stream_call cd \<Rightarrow> st_reserved cd | _ \<Rightarrow> False)"

definition holds_ai :: "call \<Rightarrow> bool" where
  "holds_ai c = (case c of Submit_call cd \<Rightarrow> sub_claimed cd | _ \<Rightarrow> False)"

definition held :: "(call \<Rightarrow> bool) \<Rightarrow> call list \<Rightarrow> nat" where
  "held P cs = length (filter P cs)"

definition call_wf :: "call \<Rightarrow> bool" where
  "call_wf c = (case c of
       Stream_call cd \<Rightarrow> (st_stage cd = St_created \<longrightarrow> \<not> st_reserved cd \<and> st_slot cd = None)
     | Submit_call cd \<Rightarrow> (sub_stage cd = Sub_created \<longrightarrow> \<not> sub_claimed cd) \<and> (sub_stage cd = Sub_reading \<longrightarrow> sub_claimed cd)
     | Freed_call \<Rightarrow> True)"

definition sessions_ok :: "server \<Rightarrow> bool" where
  "sessions_ok s \<longleftrightarrow> (\<forall>c \<in> set (sv_calls s). call_wf c) \<and>
     held holds_observer (sv_calls s) \<le> 4 \<and>
     svc_observer_count (sv_service s) = of_nat (held holds_observer (sv_calls s)) \<and>
     held holds_ai (sv_calls s) = (if svc_ai_slot_taken (sv_service s) then 1 else 0)"

lemma held_append [simp]: "held P (xs @ ys) = held P xs + held P ys"
  by (simp add: held_def)

lemma held_update:
  "i < length cs \<Longrightarrow> held P (cs[i := c]) + (if P (cs ! i) then 1 else 0) = held P cs + (if P c then 1 else 0)"
proof (induction cs arbitrary: i)
  case (Cons x xs)
  then show ?case by (cases i) (auto simp: held_def)
qed simp

lemma held_ge_one: "i < length cs \<Longrightarrow> P (cs ! i) \<Longrightarrow> 1 \<le> held P cs"
proof -
  assume "i < length cs" "P (cs ! i)"
  then have "cs ! i \<in> set (filter P cs)" by simp
  then have "filter P cs \<noteq> []" by (metis list.set_cases list.distinct(1))
  then show ?thesis by (simp add: held_def Suc_leI)
qed

text \<open>The two session fields of the service, and the operations that leave them alone.\<close>

definition sessions :: "HighBarService \<Rightarrow> u32 \<times> bool" where
  "sessions svc = (svc_observer_count svc, svc_ai_slot_taken svc)"

lemma sessions_frame [simp]:
  "sessions (on_counters f svc) = sessions svc"
  "sessions (fst (on_bus g bus svc)) = sessions svc"
  "sessions (fst (on_queue h q svc)) = sessions svc"
  "sessions (count_invalid svc) = sessions svc"
  "sessions (count_exhausted svc) = sessions svc"
  "sessions (evict_all r svc) = sessions svc"
  by (simp_all add: sessions_def on_counters_def on_bus_def on_queue_def evict_all_def split: prod.splits option.splits)

lemma sessions_closing [simp]:
  "sessions (fst (RequestSnapshot svc)) = sessions svc"
  "sessions (AdvanceFrame svc) = sessions svc"
  "sessions (FaultCloseAllStreams svc) = sessions svc"
  "sessions (Shutdown svc) = sessions svc"
  using sessions_frame(6)[of kFault svc] sessions_frame(6)[of kCanceled "svc\<lparr>svc_shutting_down := True\<rparr>"]
  by (simp_all add: sessions_def RequestSnapshot_def AdvanceFrame_def on_counters_def FaultCloseAllStreams_def
      Shutdown_def Let_def split: option.splits)

lemma sessions_Hello:
  assumes "Hello sid static_map req svc = (svc', reply)"
  shows "sessions svc' = sessions svc"
  using assms
  by (auto simp: Hello_def sessions_def TryReserveObserverSlot_def ReleaseObserverSlot_def TryClaimAiSlot_def
      ReleaseAiSlot_def on_counters_def Let_def split: if_splits)

text \<open>How one \<open>Proceed\<close> may change who holds a session slot.\<close>

definition observer_change :: "call \<Rightarrow> HighBarService \<Rightarrow> call \<Rightarrow> HighBarService \<Rightarrow> bool" where
  "observer_change c svc c' svc' \<longleftrightarrow>
     (holds_observer c = holds_observer c' \<and> svc_observer_count svc' = svc_observer_count svc) \<or>
     (\<not> holds_observer c \<and> holds_observer c' \<and> svc_observer_count svc < 4 \<and> svc_observer_count svc' = svc_observer_count svc + 1) \<or>
     (holds_observer c \<and> \<not> holds_observer c' \<and> svc_observer_count svc' = svc_observer_count svc - 1)"

definition ai_change :: "call \<Rightarrow> HighBarService \<Rightarrow> call \<Rightarrow> HighBarService \<Rightarrow> bool" where
  "ai_change c svc c' svc' \<longleftrightarrow>
     (holds_ai c = holds_ai c' \<and> svc_ai_slot_taken svc' = svc_ai_slot_taken svc) \<or>
     (\<not> holds_ai c \<and> holds_ai c' \<and> \<not> svc_ai_slot_taken svc \<and> svc_ai_slot_taken svc') \<or>
     (holds_ai c \<and> \<not> holds_ai c' \<and> \<not> svc_ai_slot_taken svc')"

definition fresh_call :: "call \<Rightarrow> bool" where
  "fresh_call c \<longleftrightarrow> call_wf c \<and> \<not> holds_observer c \<and> \<not> holds_ai c"

lemma held_fresh: "\<forall>c \<in> set new. fresh_call c \<Longrightarrow> held holds_observer new = 0 \<and> held holds_ai new = 0"
  by (simp add: held_def fresh_call_def)

lemma observer_held:
  assumes "i < length cs" "observer_change (cs ! i) svc c' svc'"
    and "svc_observer_count svc = of_nat (held holds_observer cs)" "held holds_observer cs \<le> 4"
  shows "svc_observer_count svc' = of_nat (held holds_observer (cs[i := c'])) \<and> held holds_observer (cs[i := c']) \<le> 4"
proof -
  note upd = held_update[OF assms(1), of holds_observer c']
  have small: "unat (svc_observer_count svc) = held holds_observer cs"
    using assms(3,4) by (simp add: unat_of_nat take_bit_nat_eq_self)
  consider "holds_observer (cs ! i) = holds_observer c'" "svc_observer_count svc' = svc_observer_count svc"
    | "\<not> holds_observer (cs ! i)" "holds_observer c'" "svc_observer_count svc < 4"
      "svc_observer_count svc' = svc_observer_count svc + 1"
    | "holds_observer (cs ! i)" "\<not> holds_observer c'" "svc_observer_count svc' = svc_observer_count svc - 1"
    using assms(2) unfolding observer_change_def by blast
  then show ?thesis
  proof cases
    case 1
    then show ?thesis using upd assms(3,4) by (auto split: if_splits)
  next
    case 2
    then have "held holds_observer cs < 4"
      using small by (simp add: word_less_nat_alt)
    then show ?thesis using 2 upd assms(3) by simp
  next
    case 3
    then have "held holds_observer cs = Suc (held holds_observer (cs[i := c']))"
      using upd by simp
    then show ?thesis using 3 assms(3,4) by simp
  qed
qed

lemma ai_held:
  assumes "i < length cs" "ai_change (cs ! i) svc c' svc'"
    and "held holds_ai cs = (if svc_ai_slot_taken svc then 1 else 0)"
  shows "held holds_ai (cs[i := c']) = (if svc_ai_slot_taken svc' then 1 else 0)"
  using held_update[OF assms(1), of holds_ai c'] held_ge_one[OF assms(1), of holds_ai] assms(2,3)
  by (auto simp: ai_change_def split: if_splits)

lemma sessions_ok_replace:
  assumes ok: "sessions_ok s" and i: "i < length (sv_calls s)"
    and change: "observer_change (sv_calls s ! i) (sv_service s) c' svc'" "ai_change (sv_calls s ! i) (sv_service s) c' svc'"
    and wf: "call_wf c'" "\<forall>c \<in> set new. fresh_call c"
  shows "sessions_ok \<lparr>sv_service = svc', sv_calls = (sv_calls s)[i := c'] @ new\<rparr>"
proof -
  have "\<forall>c \<in> set ((sv_calls s)[i := c'] @ new). call_wf c"
    using ok wf set_update_subset_insert[of "sv_calls s" i c'] by (auto simp: sessions_ok_def fresh_call_def)
  then show ?thesis
    using observer_held[OF i change(1)] ai_held[OF i change(2)] ok held_fresh[OF wf(2)]
    by (simp add: sessions_ok_def)
qed

lemma StreamStateCallData_destroy_sessions:
  "svc_ai_slot_taken (StreamStateCallData_destroy cd svc) = svc_ai_slot_taken svc"
  "svc_observer_count (StreamStateCallData_destroy cd svc) =
     (if st_reserved cd then svc_observer_count svc - 1 else svc_observer_count svc)"
  by (auto simp: StreamStateCallData_destroy_def ReleaseObserverSlot_def on_counters_def on_bus_def Let_def
      split: option.splits)

lemma StreamState_accept_sessions:
  assumes "StreamState_accept resume svc cd = (svc', cd')" "\<not> st_reserved cd" "st_slot cd = None"
  shows "st_stage cd' \<noteq> St_created" "svc_ai_slot_taken svc' = svc_ai_slot_taken svc"
    "observer_change (Stream_call cd) svc (Stream_call cd') svc'"
  using assms
  by (auto simp: StreamState_accept_def TryReserveObserverSlot_def stream_finish_def on_counters_def on_bus_def
      observer_change_def holds_observer_def kObserverHardCap_def not_le Let_def split: if_splits option.splits prod.splits)

lemma StreamState_Proceed_change:
  assumes "call_wf (Stream_call cd)" "StreamState_Proceed ok resume svc cd = (svc', c', new)"
  shows "observer_change (Stream_call cd) svc c' svc'" "ai_change (Stream_call cd) svc c' svc'"
    "call_wf c'" "\<forall>c \<in> set new. fresh_call c"
proof -
  note [simp] = StreamState_Proceed_def call_wf_def holds_observer_def holds_ai_def ai_change_def fresh_call_def
    StreamStateCallData_destroy_sessions
  have freed: "observer_change (Stream_call cd) svc Freed_call (StreamStateCallData_destroy cd svc)"
    by (simp add: observer_change_def)
  have "observer_change (Stream_call cd) svc c' svc' \<and> ai_change (Stream_call cd) svc c' svc' \<and> call_wf c' \<and>
      (\<forall>c \<in> set new. fresh_call c)"
  proof (cases "st_stage cd")
    case St_created
    show ?thesis
    proof (cases ok)
      case True
      obtain svc1 cd1 where a: "StreamState_accept resume svc cd = (svc1, cd1)"
        by (cases "StreamState_accept resume svc cd")
      then show ?thesis
        using assms St_created True StreamState_accept_sessions[OF a]
        by (auto simp: StreamStateCallData_new_def)
    next
      case False
      then show ?thesis using assms St_created freed by auto
    qed
  next
    case St_streaming
    then show ?thesis using assms by (auto simp: observer_change_def)
  next
    case St_finishing
    then show ?thesis using assms freed by auto
  qed
  then show "observer_change (Stream_call cd) svc c' svc'" "ai_change (Stream_call cd) svc c' svc'"
    "call_wf c'" "\<forall>c \<in> set new. fresh_call c"
    by blast+
qed

lemma on_queue_sessions: "on_queue f q svc = (svc', r) \<Longrightarrow> sessions svc' = sessions svc"
  using sessions_frame(3)[of f q svc] by simp

lemma HandleReadDone_sessions:
  assumes "HandleReadDone maxx maxz settings q incoming svc cd = (svc', cd')" "sub_stage cd = Sub_reading"
  shows "sessions svc' = sessions svc" "sub_claimed cd' = sub_claimed cd" "sub_stage cd' \<noteq> Sub_created"
  using assms
  by (auto simp: HandleReadDone_def Submit_Finish_def Let_def dest: on_queue_sessions
      split: option.splits if_splits prod.splits)

lemma HandleCreated_sessions:
  assumes "HandleCreated sid svc cd = (svc', cd')" "\<not> sub_claimed cd"
  shows "ai_change (Submit_call cd) svc (Submit_call cd') svc'" "svc_observer_count svc' = svc_observer_count svc"
    "call_wf (Submit_call cd')"
  using assms
  by (auto simp: HandleCreated_def TryClaimAiSlot_def Submit_Finish_def ai_change_def holds_ai_def call_wf_def
      split: if_splits)

lemma SubmitCommands_Proceed_change:
  assumes "call_wf (Submit_call cd)" "SubmitCommands_Proceed maxx maxz ok sid incoming svc cd = (svc', c', new)"
  shows "observer_change (Submit_call cd) svc c' svc'" "ai_change (Submit_call cd) svc c' svc'"
    "call_wf c'" "\<forall>c \<in> set new. fresh_call c"
proof -
  note [simp] = SubmitCommands_Proceed_def observer_change_def holds_observer_def fresh_call_def
    SubmitCommandsCallData_destroy_def ReleaseAiSlot_def
  have "observer_change (Submit_call cd) svc c' svc' \<and> ai_change (Submit_call cd) svc c' svc' \<and> call_wf c' \<and>
      (\<forall>c \<in> set new. fresh_call c)"
  proof (cases "sub_stage cd")
    case Sub_created
    show ?thesis
    proof (cases ok)
      case True
      obtain svc1 cd1 where a: "HandleCreated sid svc cd = (svc1, cd1)"
        by (cases "HandleCreated sid svc cd")
      have "\<not> sub_claimed cd"
        using assms(1) Sub_created by (simp add: call_wf_def)
      from HandleCreated_sessions[OF a this] show ?thesis
        using assms(2) Sub_created True a
        by (auto simp: SubmitCommandsCallData_new_def call_wf_def holds_ai_def)
    next
      case False
      then show ?thesis
        using assms Sub_created by (auto simp: call_wf_def ai_change_def holds_ai_def)
    qed
  next
    case Sub_reading
    have "sessions svc' = sessions svc \<and> (\<exists>cd1. c' = Submit_call cd1 \<and> sub_claimed cd1 = sub_claimed cd \<and>
        sub_stage cd1 \<noteq> Sub_created) \<and> new = []"
      using assms(2) Sub_reading
      by (auto split: option.splits prod.splits dest: HandleReadDone_sessions[OF _ Sub_reading])
    then show ?thesis
      using assms(1) Sub_reading by (auto simp: sessions_def ai_change_def holds_ai_def call_wf_def)
  next
    case Sub_finishing
    then show ?thesis
      using assms by (cases "sub_claimed cd") (auto simp: ai_change_def holds_ai_def call_wf_def)
  qed
  then show "observer_change (Submit_call cd) svc c' svc'" "ai_change (Submit_call cd) svc c' svc'"
    "call_wf c'" "\<forall>c \<in> set new. fresh_call c"
    by blast+
qed

lemma sessions_ok_service:
  "sessions_ok s \<Longrightarrow> sessions svc' = sessions (sv_service s) \<Longrightarrow> sessions_ok (s\<lparr>sv_service := svc'\<rparr>)"
  by (simp add: sessions_ok_def sessions_def)

lemma server_step_sessions_ok: "server_step s t \<Longrightarrow> sessions_ok s \<Longrightarrow> sessions_ok t"
proof (induction rule: server_step.induct)
  case (stream_proceed i s cd ok resume svc' c' new)
  then have "call_wf (Stream_call cd)"
    by (metis nth_mem sessions_ok_def)
  from StreamState_Proceed_change[OF this stream_proceed(3)] show ?case
    using sessions_ok_replace[OF stream_proceed(4,1)] stream_proceed(2) by simp
next
  case (submit_proceed i s cd' maxx maxz ok sid incoming svc' c' new)
  then have "call_wf (Submit_call cd')"
    by (metis nth_mem sessions_ok_def)
  from SubmitCommands_Proceed_change[OF this submit_proceed(3)] show ?case
    using sessions_ok_replace[OF submit_proceed(4,1)] submit_proceed(2) by simp
next
  case (pump_finish i s cd status)
  then have "call_wf (Stream_call cd)"
    by (metis nth_mem sessions_ok_def)
  then have "sessions_ok \<lparr>sv_service = sv_service s, sv_calls = (sv_calls s)[i := Stream_call (stream_finish status cd)] @ []\<rparr>"
    using pump_finish
    by (intro sessions_ok_replace)
      (auto simp: observer_change_def ai_change_def holds_observer_def holds_ai_def call_wf_def stream_finish_def)
  then show ?case by (simp add: sessions_ok_def)
next
  case (hello sid static_map req s svc' reply)
  then show ?case using sessions_ok_service[OF hello(2) sessions_Hello[OF hello(1)]] by simp
qed (rule sessions_ok_service; simp)+

lemma server_init_sessions_ok: "server_init s \<Longrightarrow> sessions_ok s"
  by (auto simp: server_init_def sessions_ok_def held_def call_wf_def holds_observer_def holds_ai_def
      StreamStateCallData_new_def SubmitCommandsCallData_new_def)

lemma reachable_sessions_ok: "reachable server_init server_step s \<Longrightarrow> sessions_ok s"
  using reachable_invariant[of server_init server_step s sessions_ok] server_init_sessions_ok server_step_sessions_ok
  by blast

lemma held_zero_iff: "held P cs = 0 \<longleftrightarrow> (\<forall>c \<in> set cs. \<not> P c)"
  by (auto simp: held_def filter_empty_conv)

lemma held_distinct:
  assumes "i < length cs" "j < length cs" "i \<noteq> j" "P (cs ! i)" "P (cs ! j)"
  shows "2 \<le> held P cs"
proof -
  have "card {i, j} \<le> card {k. k < length cs \<and> P (cs ! k)}"
    by (rule card_mono) (use assms in auto)
  then show ?thesis
    using assms(3) by (simp add: held_def length_filter_conv_card)
qed

text \<open>
  C6: session limits hold in every run of the server.  At most four state streams hold an observer slot, and the
  observer counter is their number.  No two command streams are open at once: two distinct calls in the reading
  stage cannot exist.  The AI slot is taken exactly while some live call holds it, so a call that ended, in
  whatever way, never strands it.
\<close>

theorem session_limits:
  assumes "reachable server_init server_step s"
  shows "held holds_observer (sv_calls s) \<le> 4 \<and>
    unat (svc_observer_count (sv_service s)) = held holds_observer (sv_calls s) \<and>
    (svc_ai_slot_taken (sv_service s) \<longleftrightarrow> (\<exists>c \<in> set (sv_calls s). holds_ai c)) \<and>
    (\<forall>i j cd cd'. i < length (sv_calls s) \<and> j < length (sv_calls s) \<and>
       sv_calls s ! i = Submit_call cd \<and> sv_calls s ! j = Submit_call cd' \<and>
       sub_stage cd = Sub_reading \<and> sub_stage cd' = Sub_reading \<longrightarrow> i = j)"
proof -
  have ok: "sessions_ok s"
    using assms by (rule reachable_sessions_ok)
  then have n: "held holds_observer (sv_calls s) \<le> 4" "held holds_ai (sv_calls s) \<le> 1"
    by (auto simp: sessions_ok_def)
  have reading: "holds_ai (sv_calls s ! i)"
    if "i < length (sv_calls s)" "sv_calls s ! i = Submit_call cd" "sub_stage cd = Sub_reading" for i cd
    using ok that nth_mem[OF that(1)] by (auto simp: sessions_ok_def call_wf_def holds_ai_def)
  have "i = j" if "i < length (sv_calls s)" "j < length (sv_calls s)" "holds_ai (sv_calls s ! i)"
      "holds_ai (sv_calls s ! j)" for i j
    using held_distinct[of i "sv_calls s" j holds_ai] that n(2) by (cases "i = j") auto
  moreover have "svc_ai_slot_taken (sv_service s) \<longleftrightarrow> (\<exists>c \<in> set (sv_calls s). holds_ai c)"
    using ok held_zero_iff[of holds_ai "sv_calls s"] by (auto simp: sessions_ok_def split: if_splits)
  moreover have "unat (svc_observer_count (sv_service s)) = held holds_observer (sv_calls s)"
    using ok n(1) by (simp add: sessions_ok_def unat_of_nat take_bit_nat_eq_self)
  ultimately show ?thesis
    using n(1) reading by blast
qed

definition sample_server :: server where
  "sample_server = \<lparr>sv_service = sample_service,
     sv_calls = [Stream_call StreamStateCallData_new, Submit_call SubmitCommandsCallData_new]\<rparr>"

text \<open>One AI client has opened its command stream.\<close>

definition sample_server_ai :: server where
  "sample_server_ai = (case SubmitCommands_Proceed (Fin 64 0) (Fin 64 0) True ''s'' sample_batch sample_service
       SubmitCommandsCallData_new of (svc', c', new) \<Rightarrow>
     \<lparr>sv_service = svc', sv_calls = (sv_calls sample_server)[1 := c'] @ new\<rparr>)"

lemma sample_server_ai_reachable: "reachable server_init server_step sample_server_ai"
proof -
  have "server_init sample_server"
    by (simp add: server_init_def sample_server_def sample_service_def SetUs1Handles_def SetUs2Handles_def
        HighBarService_new_def Let_def)
  moreover have "server_step sample_server sample_server_ai"
  proof -
    obtain svc' c' new where p: "SubmitCommands_Proceed (Fin 64 0) (Fin 64 0) True ''s'' sample_batch
        (sv_service sample_server) SubmitCommandsCallData_new = (svc', c', new)"
      by (rule prod_cases3)
    then have "sample_server_ai = \<lparr>sv_service = svc', sv_calls = (sv_calls sample_server)[1 := c'] @ new\<rparr>"
      by (simp add: sample_server_ai_def sample_server_def)
    then show ?thesis
      using submit_proceed[OF _ _ p, of 1] by (simp add: sample_server_def)
  qed
  ultimately show ?thesis
    by (blast intro: reach_init reach_step)
qed

theorem session_limits_witness:
  "svc_ai_slot_taken (sv_service sample_server_ai) \<and> (\<exists>c \<in> set (sv_calls sample_server_ai). holds_ai c) \<and>
   held holds_observer (sv_calls sample_server_ai) = 0"
proof -
  have "svc_ai_slot_taken (sv_service sample_server_ai)" "svc_observer_count (sv_service sample_server_ai) = 0"
    by code_simp+
  then show ?thesis
    using session_limits[OF sample_server_ai_reachable] by simp
qed

text \<open>
  C35: the subscriber gauge over-counts.  When a state stream is accepted while \<open>n\<close> observers are connected, the
  service stores \<open>n + 1\<close> in the gauge and the bus then adds one more for the same subscriber, so \<open>GetRuntimeCounters\<close> reports
  \<open>n + 2\<close> subscribers although \<open>n + 1\<close> observer slots are taken.
\<close>

theorem subscriber_gauge_overcounts:
  assumes "StreamState_accept resume svc cd = (svc', cd')" "st_stage cd' = St_streaming"
    and "svc_counters svc = Some c"
  shows "svc_observer_count svc' = svc_observer_count svc + 1 \<and>
    (\<exists>c'. svc_counters svc' = Some c' \<and>
      cr_subscriber_count (GetRuntimeCounters c') = svc_observer_count svc + 2)"
  using assms
  by (auto simp: StreamState_accept_def TryReserveObserverSlot_def stream_finish_def on_counters_def on_bus_def
      DeltaBus_Subscribe_def add_subscribers_def GetRuntimeCounters_def Let_def split: if_splits option.splits)

theorem subscriber_gauge_overcounts_witness:
  "\<exists>c'. svc_counters (fst (StreamState_accept 0 sample_service StreamStateCallData_new)) = Some c' \<and>
     cr_subscriber_count (GetRuntimeCounters c') = 2"
proof -
  have "st_stage (snd (StreamState_accept 0 sample_service StreamStateCallData_new)) = St_streaming"
    by code_simp
  moreover have "svc_counters sample_service = Some Counters_new" "svc_observer_count sample_service = 0"
    by (simp_all add: sample_service_def SetUs1Handles_def SetUs2Handles_def HighBarService_new_def Let_def)
  ultimately show ?thesis
    using subscriber_gauge_overcounts[OF surjective_pairing, of 0 sample_service StreamStateCallData_new] by auto
qed

end
