(* ===== verification/Admin_Apply.thy ===== *)
theory Admin_Apply
  imports Command_Dispatch Admin_Controller
begin

text \<open>
  The engine side of an admin action (\<open>ApplyAdminAction\<close> in module/GrpcGatewayModule.cpp): the calls made and
  whether the action was dispatched.  An exception that leaves the function is none.  The lemmas show that
  granting resources or spawning units leaves the engine's cheat switch as it was, if the engine complies.
\<close>

section \<open>Model\<close>

text \<open>
  What the engine answers besides the objects of \<open>Engine\<close>: the team of the AI, whether the autohost took the
  datagrams, the replies of the two Lua states, the formatted speed, and lookups of units.
\<close>

record AdminEngine =
  ade_engine :: Engine
  ade_team_id :: int
  ade_autohost_ok :: bool
  ade_lua_ui :: string
  ade_lua_rules :: string
  ade_format :: "proto_float \<Rightarrow> string"
  ade_registered :: "int \<Rightarrow> bool"
  ade_unit_alive :: "int \<Rightarrow> bool option"

datatype admin_call = Engine_call EngineCall | Autohost_datagrams "string list" | Give_unit int int

definition GlobalSpeedLuaMessage :: "AdminEngine \<Rightarrow> proto_float \<Rightarrow> string" where
  "GlobalSpeedLuaMessage env speed = ''highbar_admin_speed:'' @ ade_format env speed"

definition GlobalSpeedAutohostCommands :: "AdminEngine \<Rightarrow> proto_float \<Rightarrow> string list" where
  "GlobalSpeedAutohostCommands env speed = (let s = ade_format env speed in
     [''/setmaxspeed '' @ s, ''/setminspeed '' @ s, ''/setmaxspeed '' @ s])"

text \<open>
  The \<open>try\<close> block around a cheat operation: switch cheats on when they are off, run the operation, switch them off
  again; a failure after the switch also switches them off.
\<close>

definition cheat_section :: "Engine \<Rightarrow> EngineCall \<Rightarrow> EngineCall list \<times> bool" where
  "cheat_section eng op =
    (case eng_cheats_enabled eng of
       None \<Rightarrow> ([], False)
     | Some was_enabled \<Rightarrow>
        if \<not> was_enabled \<and> eng_enable_cheats eng \<noteq> Some True then ([Cheats_SetEnabled True], False)
        else let pre = (if was_enabled then [] else [Cheats_SetEnabled True]); restore = \<not> was_enabled in
          if eng_throws eng op then (pre @ [op] @ restore_cheats restore, False)
          else if restore \<and> eng_disable_cheats eng = None
            then (pre @ [op, Cheats_SetEnabled False, Cheats_SetEnabled False], False)
          else (pre @ [op] @ restore_cheats restore, True))"

definition ApplyAdminAction :: "AdminEngine \<Rightarrow> AdminActionCase \<Rightarrow> admin_call list \<times> bool option" where
  "ApplyAdminAction env action =
    (let eng = ade_engine env in
     case action of
       Pause paused \<Rightarrow>
        if \<not> eng_has_game eng then ([], Some False)
        else let call = Game_SetPause paused ''via highbar admin'' in
          ([Engine_call call], if eng_throws eng call then None else Some True)
     | Global_speed speed \<Rightarrow>
        (let sent = [Autohost_datagrams (GlobalSpeedAutohostCommands env speed)];
             message = GlobalSpeedLuaMessage env speed; n = int (length message) in
         if ade_autohost_ok env then (sent, Some True)
         else if \<not> eng_has_lua eng then (sent, Some False)
         else if eng_throws eng (Lua_CallUI message n) then (sent @ [Engine_call (Lua_CallUI message n)], None)
         else if ade_lua_ui env = ''ok'' then (sent @ [Engine_call (Lua_CallUI message n)], Some True)
         else (sent @ [Engine_call (Lua_CallUI message n), Engine_call (Lua_CallRules message n)],
               if eng_throws eng (Lua_CallRules message n) then None else Some (ade_lua_rules env = ''ok'')))
     | Cheat_policy enabled \<Rightarrow>
        if \<not> eng_has_cheats eng then ([], Some False)
        else ([Engine_call (Cheats_SetEnabled enabled)],
              if enabled then eng_enable_cheats eng
              else eng_disable_cheats eng)
     | Resource_grant team_id resource_id amount \<Rightarrow>
        (let name = (if resource_id = 0 then ''Metal'' else ''Energy'') in
         if \<not> eng_has_callback eng \<or> \<not> eng_resource eng name then ([], Some False)
         else if team_id = ade_team_id env then
           (if \<not> eng_has_cheats eng then ([], Some False)
            else case cheat_section eng (Cheats_GiveMeResource name amount) of (calls, ok) \<Rightarrow>
              (map Engine_call calls, Some ok))
         else if \<not> eng_has_economy eng then ([], Some False)
         else let call = Economy_SendResource name amount team_id in
           ([Engine_call call], if eng_throws eng call then None else Some True))
     | Unit_spawn team_id unit_def_id position facing \<Rightarrow>
        (if \<not> eng_has_cheats eng then ([], Some False)
         else if \<not> (1 \<le> unit_def_id \<and> unit_def_id \<le> int (eng_def_count eng)) \<or> \<not> eng_def_has_def eng unit_def_id
           then ([], Some False)
         else case cheat_section eng (Cheats_GiveMeUnit unit_def_id position) of (calls, ok) \<Rightarrow>
           let done_calls = map Engine_call calls in
           if \<not> ok then (done_calls, Some False)
           else (case eng_give_unit eng of
               None \<Rightarrow> (done_calls, Some False)
             | Some unit_id \<Rightarrow>
                if unit_id \<le> 0 then (done_calls, Some False)
                else if team_id = ade_team_id env then (done_calls, Some True)
                else if \<not> ade_registered env unit_id then (done_calls, Some False)
                else (done_calls @ [Give_unit unit_id team_id], Some True)))
     | Unit_transfer unit_id from_team to_team preserve \<Rightarrow>
        (if ade_unit_alive env unit_id \<noteq> Some True then ([], Some False)
         else ([Give_unit unit_id to_team], Some True))
     | Lifecycle c \<Rightarrow> ([], Some True)
     | ACTION_NOT_SET \<Rightarrow> ([], Some False))"

section \<open>Cheats are restored\<close>

definition engine_calls :: "admin_call list \<Rightarrow> EngineCall list" where
  "engine_calls cs = concat (map (\<lambda>c. case c of Engine_call e \<Rightarrow> [e] | _ \<Rightarrow> []) cs)"

lemma engine_calls_map [simp]: "engine_calls (map Engine_call cs) = cs"
  by (induction cs) (simp_all add: engine_calls_def)

lemma engine_calls_append [simp]: "engine_calls (xs @ ys) = engine_calls xs @ engine_calls ys"
  by (simp add: engine_calls_def)

lemma cheat_section_restores:
  assumes "cheat_section eng op = (calls, ok)" "eng_cheats_enabled eng = Some b" "is_cheat_op op"
  shows "cheats_restored eng b calls \<and> cheats_guarded eng b calls"
  using assms
  by (auto simp: cheats_restored_def cheat_section_def restore_cheats_def cheat_op_keeps is_cheat_op_def[of "Cheats_SetEnabled _"] Let_def
      split: if_splits)

lemma ApplyAdminAction_restores_cheats:
  assumes "ApplyAdminAction env action = (calls, r)" "eng_cheats_enabled (ade_engine env) = Some b"
    and "\<nexists>enabled. action = Cheat_policy enabled"
  shows "cheats_restored (ade_engine env) b (engine_calls calls) \<and>
    cheats_guarded (ade_engine env) b (engine_calls calls)"
proof -
  have sec: "cheats_restored (ade_engine env) b cs \<and> cheats_guarded (ade_engine env) b cs"
    if "cheat_section (ade_engine env) op = (cs, ok)"
      "op = Cheats_GiveMeResource name amount \<or> op = Cheats_GiveMeUnit d p" for op cs ok name amount d p
    using cheat_section_restores[OF that(1) assms(2)] that(2) by (auto simp: is_cheat_op_def)
  note [simp] = cheats_restored_def[of _ _ "[]"] cheats_restored_def[of _ _ "[_]"] cheats_restored_def[of _ _ "[_, _]"] engine_calls_def[of "[]"] engine_calls_def[of "_ # _"] is_cheat_op_def[of "Game_SetPause _ _"]
    is_cheat_op_def[of "Lua_CallUI _ _"] is_cheat_op_def[of "Lua_CallRules _ _"] is_cheat_op_def[of "Economy_SendResource _ _ _"]
  show ?thesis
    using assms(1,3)
    by (cases action) (auto simp: ApplyAdminAction_def Let_def dest!: sec split: if_splits prod.splits option.splits)
qed

end
