(* ===== verification/Gateway_Module.thy ===== *)
theory Gateway_Module
  imports Service_Calls Admin_Apply Order_State_Tracker Snapshot_Tick
begin

text \<open>
  The module that owns the gateway and runs it once per frame (module/GrpcGatewayModule.h,
  module/GrpcGatewayModule.cpp): the event hooks, the health state, the three
  emitters, the queues drained on the engine thread and the frame tick.  The ring, the
  bus, the command queue and the counters are those of the service.  What the engine
  answers during a tick is a record of arguments; side effects outside the gateway are
  a trace.  A body that may throw returns the exception beside the state it left.
\<close>

section \<open>State\<close>

datatype CommandDispatchStatus = COMMAND_DISPATCH_STATUS_UNSPECIFIED | COMMAND_DISPATCH_APPLIED
  | COMMAND_DISPATCH_SKIPPED_TARGET_MISSING | COMMAND_DISPATCH_SKIPPED_TARGET_NOT_OWNED
  | COMMAND_DISPATCH_SKIPPED_TARGET_DEAD | COMMAND_DISPATCH_SKIPPED_CAPABILITY_CHANGED
  | COMMAND_DISPATCH_SKIPPED_UNSUPPORTED_ARM | COMMAND_DISPATCH_SKIPPED_ENGINE_NOT_READY
  | COMMAND_DISPATCH_SKIPPED_UNKNOWN

record CommandDispatchEvent =
  cd_batch_seq :: u64
  cd_client_command_id :: u64
  cd_command_index :: u32
  cd_target_unit_id :: u32
  cd_frame :: u32
  cd_status :: CommandDispatchStatus
  cd_issue :: "(CommandIssueCode \<times> string \<times> RetryHint) option"

text \<open>The events of a delta; an absent attacker is none.\<close>

datatype DeltaEvent =
    Unit_created int int
  | Unit_finished int
  | Unit_idle int
  | Unit_damaged int "int option" proto_float Vector3 int bool
  | Unit_destroyed int "int option"
  | Unit_given int int int
  | Unit_captured int int int
  | Unit_move_failed int
  | Enemy_enter_los int
  | Enemy_leave_los int
  | Enemy_enter_radar int
  | Enemy_leave_radar int
  | Enemy_damaged int
  | Enemy_destroyed int
  | Feature_created u32 u32 Vector3
  | Feature_destroyed u32
  | Economy_tick "proto_float list"
  | Command_dispatch CommandDispatchEvent

text \<open>The body of a state update; the world a snapshot describes is opaque here.\<close>

datatype update_body = Delta_body "DeltaEvent list" | Keepalive_body | Snapshot_body string u32

record StateUpdate =
  su_seq :: u64
  su_frame :: u32
  su_body :: update_body

datatype callback_param = Int_param int | Other_param

record CallbackRequest =
  cbq_request_id :: u32
  cbq_callback_id :: u32
  cbq_params :: "callback_param list"

datatype callback_value = No_value | Int_array "int list" | String_value string

record CallbackResponse =
  cbr_request_id :: u32
  cbr_success :: bool
  cbr_error_message :: string
  cbr_result :: callback_value

datatype gateway_effect =
    Log_fault string string string u32
  | Unlink string
  | Write_health_disabled string string string string u32
  | Send_heartbeat u32
  | Push_to_coordinator u64
  | Engine_calls "EngineCall list"
  | Callback_completed CallbackRequest "CallbackRpcStatus \<times> CallbackResponse"
  | Admin_calls "admin_call list"
  | Admin_completed AdminAction AdminActionResult

text \<open>What the emitters do with a serialized update, in the order they do it.\<close>

datatype wire_event = Appended string | Published string

record Gateway =
  gw_state :: GatewayState
  gw_pending_fault :: "(string \<times> string \<times> string) option"
  gw_delta :: "DeltaEvent list"
  gw_seq :: u64
  gw_frames_since_last_flush :: u32
  gw_frame_counter :: u32
  gw_current_frame :: u32
  gw_snapshot_tick :: SnapshotTick
  gw_svc :: HighBarService
  gw_orders :: OrderStateTracker
  gw_admin :: AdminController
  gw_pending_admin :: "(AdminCaller \<times> AdminAction) list"
  gw_pending_callbacks :: "CallbackRequest list"
  gw_deferred_bind :: "TransportEndpoint option"
  gw_service_bound :: bool
  gw_client :: bool
  gw_client_endpoint :: string
  gw_initial_snapshot_sent :: bool
  gw_socket_path :: string
  gw_token_path :: string
  gw_health_path :: string
  gw_trace :: "gateway_effect list"
  gw_wire :: "wire_event list"

text \<open>What the engine and the libraries answer during one call into the module.\<close>

record tick_env =
  env_last_frame :: int
  env_team_units :: "(int \<times> bool) list"
  env_engine :: "int \<Rightarrow> Engine"
  env_dispatch_error :: "exception_class \<times> string"
  env_serialize :: "StateUpdate \<Rightarrow> exception_class + string"
  env_world :: string
  env_flush_us :: u64
  env_unit_defs :: "(int \<times> string option) list"
  env_economy :: "proto_float list option"
  env_callback_throws :: "CallbackRequest \<Rightarrow> string option"
  env_admin :: AdminEngine
  env_admin_error :: exception_class
  env_inet4 :: "string \<Rightarrow> u32 option"
  env_inet6 :: "string \<Rightarrow> u8 list option"
  env_started :: bool
  env_client_error :: "exception_class option"
  env_publish_error :: "exception_class option"
  env_push_error :: "exception_class option"

definition kKeepAliveFrames :: u32 where
  "kKeepAliveFrames = 30"

definition kHeartbeatEveryNFrames :: u32 where
  "kHeartbeatEveryNFrames = 30"

definition FrameForWire :: "tick_env \<Rightarrow> u32" where
  "FrameForWire env = (if 0 \<le> env_last_frame env then of_int (env_last_frame env) else 0)"

definition HeadSeq :: "Gateway \<Rightarrow> u64" where
  "HeadSeq gw = (case svc_ring (gw_svc gw) of Some ring \<Rightarrow> RingBuffer_HeadSeq ring | None \<Rightarrow> 0)"

definition trace :: "gateway_effect \<Rightarrow> Gateway \<Rightarrow> Gateway" where
  "trace e gw = gw\<lparr>gw_trace := gw_trace gw @ [e]\<rparr>"

definition unlink_if_set :: "string \<Rightarrow> Gateway \<Rightarrow> Gateway" where
  "unlink_if_set path gw = (if path \<noteq> [] then trace (Unlink path) gw else gw)"

section \<open>Health\<close>

definition TransitionToDisabled :: "tick_env \<Rightarrow> string \<Rightarrow> string \<Rightarrow> string \<Rightarrow> Gateway \<Rightarrow> Gateway" where
  "TransitionToDisabled env subsystem reason detail gw =
    (if gw_state gw \<noteq> Healthy then gw
     else let frame = FrameForWire env;
              gw1 = trace (Log_fault subsystem reason detail frame) (gw\<lparr>gw_state := Disabling\<rparr>);
              gw2 = gw1\<lparr>gw_svc := FaultCloseAllStreams (gw_svc gw1)\<rparr>;
              gw3 = unlink_if_set (gw_socket_path gw2) gw2;
              gw4 = unlink_if_set (gw_token_path gw3) gw3;
              gw5 = trace (Write_health_disabled (gw_health_path gw4) subsystem reason detail frame) gw4
          in gw5\<lparr>gw_state := Disabled\<rparr>)"

definition RequestDisable :: "string \<Rightarrow> string \<Rightarrow> string \<Rightarrow> Gateway \<Rightarrow> Gateway" where
  "RequestDisable subsystem reason detail gw =
    (if gw_state gw \<noteq> Healthy then gw
     else if gw_pending_fault gw = None then gw\<lparr>gw_pending_fault := Some (subsystem, reason, detail)\<rparr> else gw)"

definition DrainPendingFault :: "tick_env \<Rightarrow> Gateway \<Rightarrow> Gateway" where
  "DrainPendingFault env gw =
    (case gw_pending_fault gw of
       None \<Rightarrow> gw
     | Some (subsystem, reason, detail) \<Rightarrow> TransitionToDisabled env subsystem reason detail (gw\<lparr>gw_pending_fault := None\<rparr>))"

section \<open>Emitters\<close>

text \<open>The block under the state lock: the ring's own check is its exception.\<close>

definition append_to_ring :: "u64 \<Rightarrow> string \<Rightarrow> RingBuffer \<Rightarrow> Gateway \<Rightarrow> exception_class + Gateway" where
  "append_to_ring seq payload ring gw =
    (case RingBuffer_Push seq payload ring of
       Inl ex \<Rightarrow> Inl Invalid_argument_class
     | Inr ring' \<Rightarrow> Inr (gw\<lparr>gw_svc := (gw_svc gw)\<lparr>svc_ring := Some ring'\<rparr>, gw_wire := gw_wire gw @ [Appended payload]\<rparr>))"

text \<open>Publishing, which can fail for want of memory before any subscriber is reached.\<close>

definition publish_on_bus :: "tick_env \<Rightarrow> string \<Rightarrow> DeltaBus \<Rightarrow> Gateway \<Rightarrow> exception_class + Gateway" where
  "publish_on_bus env payload bus gw =
    (case env_publish_error env of
       Some ex \<Rightarrow> Inl ex
     | None \<Rightarrow> Inr (gw\<lparr>gw_svc := fst (on_bus (\<lambda>b. (DeltaBus_Publish payload b, ())) bus (gw_svc gw)),
                      gw_wire := gw_wire gw @ [Published payload]\<rparr>))"

text \<open>
  The common tail of the emitters: serialize, push to the ring, publish on the bus, hand to the coordinator.
  An exception comes with the state it leaves behind.  The constructor
  creates the ring and the bus before anything is published, so the last branch is not reached.
\<close>

definition send_update :: "tick_env \<Rightarrow> StateUpdate \<Rightarrow> Gateway \<Rightarrow> (exception_class \<times> Gateway) + Gateway" where
  "send_update env update gw =
    (case env_serialize env update of
       Inl ex \<Rightarrow> Inl (ex, gw)
     | Inr payload \<Rightarrow>
        (case (svc_ring (gw_svc gw), svc_delta_bus (gw_svc gw)) of
           (Some ring, Some bus) \<Rightarrow>
             (case append_to_ring (su_seq update) payload ring gw of
                Inl ex \<Rightarrow> Inl (ex, gw)
              | Inr gw1 \<Rightarrow>
                 (case publish_on_bus env payload bus gw1 of
                    Inl ex \<Rightarrow> Inl (ex, gw1)
                  | Inr gw2 \<Rightarrow>
                     if \<not> gw_client gw2 then Inr gw2
                     else case env_push_error env of
                       Some ex \<Rightarrow> Inl (ex, gw2)
                     | None \<Rightarrow> Inr (trace (Push_to_coordinator (su_seq update)) gw2)))
         | _ \<Rightarrow> Inr gw))"

definition record_flush :: "tick_env \<Rightarrow> Gateway \<Rightarrow> Gateway" where
  "record_flush env gw = gw\<lparr>gw_svc := on_counters (\<lambda>c. RecordFrameFlushUs c (env_flush_us env)) (gw_svc gw)\<rparr>"

definition FlushDelta :: "tick_env \<Rightarrow> Gateway \<Rightarrow> Gateway" where
  "FlushDelta env gw =
    (let gw1 = gw\<lparr>gw_seq := gw_seq gw + 1, gw_delta := []\<rparr>;
         update = \<lparr> su_seq = gw_seq gw1, su_frame = FrameForWire env, su_body = Delta_body (gw_delta gw) \<rparr> in
     case send_update env update gw1 of
       Inl (ex, gw2) \<Rightarrow> TransitionToDisabled env ''serialization'' (ReasonCodeFor (Some ex)) ''flush_delta_threw'' gw2
     | Inr gw2 \<Rightarrow> record_flush env gw2)"

definition EmitKeepAlive :: "tick_env \<Rightarrow> Gateway \<Rightarrow> Gateway" where
  "EmitKeepAlive env gw =
    (let gw1 = gw\<lparr>gw_seq := gw_seq gw + 1\<rparr>;
         update = \<lparr> su_seq = gw_seq gw1, su_frame = FrameForWire env, su_body = Keepalive_body \<rparr> in
     case send_update env update gw1 of
       Inl (ex, gw2) \<Rightarrow> TransitionToDisabled env ''serialization'' (ReasonCodeFor (Some ex)) ''keepalive_threw'' gw2
     | Inr gw2 \<Rightarrow> gw2)"

definition BroadcastSnapshot :: "tick_env \<Rightarrow> u32 \<Rightarrow> Gateway \<Rightarrow> Gateway" where
  "BroadcastSnapshot env effective_cadence_frames gw =
    (if \<not> svc_snapshot (gw_svc gw) \<or> svc_ring (gw_svc gw) = None \<or> svc_delta_bus (gw_svc gw) = None then gw
     else let gw1 = gw\<lparr>gw_seq := gw_seq gw + 1\<rparr>;
              update = \<lparr> su_seq = gw_seq gw1, su_frame = FrameForWire env,
                         su_body = Snapshot_body (env_world env) effective_cadence_frames \<rparr> in
     case send_update env update gw1 of
       Inl (ex, gw2) \<Rightarrow> TransitionToDisabled env ''serialization'' (ReasonCodeFor (Some ex)) ''broadcast_snapshot_threw'' gw2
     | Inr gw2 \<Rightarrow> record_flush env gw2)"

section \<open>Bodies that may throw\<close>

type_synonym body = "Gateway \<Rightarrow> Gateway \<times> exception_class option"

definition pure_body :: "(Gateway \<Rightarrow> Gateway) \<Rightarrow> body" where
  "pure_body f gw = (f gw, None)"

definition and_then :: "body \<Rightarrow> body \<Rightarrow> body" where
  "and_then m k gw = (case m gw of (gw', Some ex) \<Rightarrow> (gw', Some ex) | (gw', None) \<Rightarrow> k gw')"

definition when_body :: "bool \<Rightarrow> body \<Rightarrow> body" where
  "when_body c m gw = (if c then m gw else (gw, None))"

definition EnsureLocalServiceBound :: "tick_env \<Rightarrow> body" where
  "EnsureLocalServiceBound env gw =
    (case gw_deferred_bind gw of
       None \<Rightarrow> (gw, None)
     | Some endpoint \<Rightarrow>
        if gw_service_bound gw then (gw, None)
        else (case Bind (env_inet4 env) (env_inet6 env) (env_started env) endpoint (gw_svc gw) of
            (svc', Inl err) \<Rightarrow> (gw\<lparr>gw_svc := svc'\<rparr>, Some Runtime_error_class)
          | (svc', Inr uri) \<Rightarrow> (gw\<lparr>gw_svc := svc', gw_service_bound := True\<rparr>, None)))"

definition EnsureCoordinatorClientStarted :: "tick_env \<Rightarrow> body" where
  "EnsureCoordinatorClientStarted env gw =
    (if gw_client gw \<or> gw_client_endpoint gw = [] then (gw, None)
     else case env_client_error env of
       Some ex \<Rightarrow> (gw, Some ex)
     | None \<Rightarrow> (gw\<lparr>gw_client := True\<rparr>, None))"

definition MaybeEmitInitialCoordinatorSnapshot :: "tick_env \<Rightarrow> body" where
  "MaybeEmitInitialCoordinatorSnapshot env gw =
    (if gw_initial_snapshot_sent gw \<or> gw_client_endpoint gw = [] then (gw, None)
     else if env_last_frame env < 0 then (gw, None)
     else if env_team_units env = [] then (gw, None)
     else and_then (EnsureCoordinatorClientStarted env)
       (\<lambda>gw1. if \<not> gw_client gw1 then (gw1, None)
         else (BroadcastSnapshot env 1 (gw1\<lparr>gw_initial_snapshot_sent := True\<rparr>), None)) gw)"

section \<open>Event hooks\<close>

text \<open>The hook guard: nothing unless healthy; an exception disables the gateway.\<close>

definition HB_HOOK_GUARD :: "tick_env \<Rightarrow> body \<Rightarrow> Gateway \<Rightarrow> Gateway" where
  "HB_HOOK_GUARD env b gw =
    (if gw_state gw \<noteq> Healthy then gw
     else case b gw of
       (gw', None) \<Rightarrow> gw'
     | (gw', Some ex) \<Rightarrow> TransitionToDisabled env ''callback'' (ReasonCodeFor (Some ex)) ''engine_callback_threw'' gw')"

definition add_event :: "DeltaEvent \<Rightarrow> Gateway \<Rightarrow> Gateway" where
  "add_event e gw = gw\<lparr>gw_delta := gw_delta gw @ [e]\<rparr>"

definition UnitCreated :: "tick_env \<Rightarrow> int option \<Rightarrow> int option \<Rightarrow> Gateway \<Rightarrow> Gateway" where
  "UnitCreated env unit builder = HB_HOOK_GUARD env (\<lambda>gw. case unit of
     None \<Rightarrow> (gw, None)
   | Some u \<Rightarrow> MaybeEmitInitialCoordinatorSnapshot env
       (add_event (Unit_created u (case builder of Some b \<Rightarrow> b | None \<Rightarrow> 0)) gw))"

definition UnitFinished :: "tick_env \<Rightarrow> int option \<Rightarrow> Gateway \<Rightarrow> Gateway" where
  "UnitFinished env unit = HB_HOOK_GUARD env (\<lambda>gw. case unit of
     None \<Rightarrow> (gw, None)
   | Some u \<Rightarrow> MaybeEmitInitialCoordinatorSnapshot env (add_event (Unit_finished u) gw))"

definition UnitIdle :: "tick_env \<Rightarrow> int option \<Rightarrow> Gateway \<Rightarrow> Gateway" where
  "UnitIdle env unit = HB_HOOK_GUARD env (\<lambda>gw. case unit of
     None \<Rightarrow> (gw, None)
   | Some u \<Rightarrow> (add_event (Unit_idle u)
       (gw\<lparr>gw_orders := MarkIdle (of_int u) (gw_current_frame gw) (gw_orders gw)\<rparr>), None))"

definition UnitDamaged :: "int option \<Rightarrow> int option \<Rightarrow> Gateway \<Rightarrow> Gateway" where
  "UnitDamaged unit attacker gw = gw"

definition OnUnitDamagedFull ::
    "tick_env \<Rightarrow> int option \<Rightarrow> int option \<Rightarrow> proto_float \<Rightarrow> Vector3 \<Rightarrow> int \<Rightarrow> bool \<Rightarrow> Gateway \<Rightarrow> Gateway" where
  "OnUnitDamagedFull env unit attacker damage dir weapon_def_id paralyzer = HB_HOOK_GUARD env (\<lambda>gw. case unit of
     None \<Rightarrow> (gw, None)
   | Some u \<Rightarrow> (add_event (Unit_damaged u attacker (if f_less f_zero damage then damage else f_zero) dir
       weapon_def_id paralyzer) gw, None))"

definition UnitDestroyed :: "tick_env \<Rightarrow> int option \<Rightarrow> int option \<Rightarrow> Gateway \<Rightarrow> Gateway" where
  "UnitDestroyed env unit attacker = HB_HOOK_GUARD env (\<lambda>gw. case unit of
     None \<Rightarrow> (gw, None)
   | Some u \<Rightarrow> (add_event (Unit_destroyed u attacker)
       (gw\<lparr>gw_orders := MarkUnitRemoved (of_int u) (gw_current_frame gw) (gw_orders gw)\<rparr>), None))"

definition UnitGiven :: "tick_env \<Rightarrow> int option \<Rightarrow> int \<Rightarrow> int \<Rightarrow> Gateway \<Rightarrow> Gateway" where
  "UnitGiven env unit old_team new_team = HB_HOOK_GUARD env (\<lambda>gw. case unit of
     None \<Rightarrow> (gw, None)
   | Some u \<Rightarrow> (add_event (Unit_given u old_team new_team)
       (gw\<lparr>gw_orders := MarkUnitRemoved (of_int u) (gw_current_frame gw) (gw_orders gw)\<rparr>), None))"

definition UnitCaptured :: "tick_env \<Rightarrow> int option \<Rightarrow> int \<Rightarrow> int \<Rightarrow> Gateway \<Rightarrow> Gateway" where
  "UnitCaptured env unit old_team new_team = HB_HOOK_GUARD env (\<lambda>gw. case unit of
     None \<Rightarrow> (gw, None)
   | Some u \<Rightarrow> (add_event (Unit_captured u old_team new_team)
       (gw\<lparr>gw_orders := MarkUnitRemoved (of_int u) (gw_current_frame gw) (gw_orders gw)\<rparr>), None))"

text \<open>The hooks that only append an event about a unit or an enemy, when there is one.\<close>

definition append_hook :: "(int \<Rightarrow> DeltaEvent) \<Rightarrow> tick_env \<Rightarrow> int option \<Rightarrow> Gateway \<Rightarrow> Gateway" where
  "append_hook ev env subject = HB_HOOK_GUARD env (\<lambda>gw. case subject of
     None \<Rightarrow> (gw, None) | Some u \<Rightarrow> (add_event (ev u) gw, None))"

definition OnUnitMoveFailed :: "tick_env \<Rightarrow> int option \<Rightarrow> Gateway \<Rightarrow> Gateway" where
  "OnUnitMoveFailed = append_hook Unit_move_failed"

definition OnEnemyEnterLOS :: "tick_env \<Rightarrow> int option \<Rightarrow> Gateway \<Rightarrow> Gateway" where
  "OnEnemyEnterLOS = append_hook Enemy_enter_los"

definition OnEnemyLeaveLOS :: "tick_env \<Rightarrow> int option \<Rightarrow> Gateway \<Rightarrow> Gateway" where
  "OnEnemyLeaveLOS = append_hook Enemy_leave_los"

definition OnEnemyEnterRadar :: "tick_env \<Rightarrow> int option \<Rightarrow> Gateway \<Rightarrow> Gateway" where
  "OnEnemyEnterRadar = append_hook Enemy_enter_radar"

definition OnEnemyLeaveRadar :: "tick_env \<Rightarrow> int option \<Rightarrow> Gateway \<Rightarrow> Gateway" where
  "OnEnemyLeaveRadar = append_hook Enemy_leave_radar"

definition OnEnemyDamaged :: "tick_env \<Rightarrow> int option \<Rightarrow> Gateway \<Rightarrow> Gateway" where
  "OnEnemyDamaged = append_hook Enemy_damaged"

definition OnEnemyDestroyed :: "tick_env \<Rightarrow> int option \<Rightarrow> Gateway \<Rightarrow> Gateway" where
  "OnEnemyDestroyed = append_hook Enemy_destroyed"

definition OnFeatureCreated :: "tick_env \<Rightarrow> int \<Rightarrow> int \<Rightarrow> Vector3 \<Rightarrow> Gateway \<Rightarrow> Gateway" where
  "OnFeatureCreated env feature_id def_id position = HB_HOOK_GUARD env (\<lambda>gw.
     (add_event (Feature_created (of_int feature_id) (of_int def_id) position) gw, None))"

definition OnFeatureDestroyed :: "tick_env \<Rightarrow> int \<Rightarrow> Gateway \<Rightarrow> Gateway" where
  "OnFeatureDestroyed env feature_id = HB_HOOK_GUARD env (\<lambda>gw. (add_event (Feature_destroyed (of_int feature_id)) gw, None))"

text \<open>The economy event is added even when there is no economy manager; its figures are then unset.\<close>

definition OnEconomyTick :: "tick_env \<Rightarrow> Gateway \<Rightarrow> Gateway" where
  "OnEconomyTick env = HB_HOOK_GUARD env (\<lambda>gw.
     (add_event (Economy_tick (case env_economy env of None \<Rightarrow> [] | Some figures \<Rightarrow> figures)) gw, None))"

section \<open>Callbacks\<close>

definition callback_response :: "CallbackRequest \<Rightarrow> CallbackResponse" where
  "callback_response req = \<lparr> cbr_request_id = cbq_request_id req, cbr_success = False, cbr_error_message = [],
     cbr_result = No_value \<rparr>"

definition MakeCallbackRpcError :: "CallbackRequest \<Rightarrow> CallbackRpcStatus \<Rightarrow> CallbackRpcStatus \<times> CallbackResponse" where
  "MakeCallbackRpcError req status = (status, callback_response req)"

definition MakeCallbackFailure :: "CallbackRequest \<Rightarrow> string \<Rightarrow> CallbackRpcStatus \<times> CallbackResponse" where
  "MakeCallbackFailure req detail = (Callback_Ok, (callback_response req)\<lparr>cbr_error_message := detail\<rparr>)"

definition MakeCallbackSuccess :: "CallbackRequest \<Rightarrow> CallbackRpcStatus \<times> CallbackResponse" where
  "MakeCallbackSuccess req = (Callback_Ok, (callback_response req)\<lparr>cbr_success := True\<rparr>)"

definition ExtractSingleIntParam :: "CallbackRequest \<Rightarrow> string + int" where
  "ExtractSingleIntParam req = (case cbq_params req of
       [Int_param i] \<Rightarrow> Inr i
     | [Other_param] \<Rightarrow> Inl ''expected int param''
     | _ \<Rightarrow> Inl ''expected exactly 1 int param'')"

definition CALLBACK_UNITDEF_GET_NAME :: u32 where
  "CALLBACK_UNITDEF_GET_NAME = 40"

definition CALLBACK_GET_UNIT_DEFS :: u32 where
  "CALLBACK_GET_UNIT_DEFS = 47"

definition with_result :: "callback_value \<Rightarrow> CallbackRpcStatus \<times> CallbackResponse \<Rightarrow> CallbackRpcStatus \<times> CallbackResponse" where
  "with_result v r = (fst r, (snd r)\<lparr>cbr_result := v\<rparr>)"

definition callback_result :: "tick_env \<Rightarrow> CallbackRequest \<Rightarrow> CallbackRpcStatus \<times> CallbackResponse" where
  "callback_result env req =
    (case env_callback_throws env req of
       Some what \<Rightarrow> MakeCallbackRpcError req Callback_Internal
     | None \<Rightarrow>
        if cbq_callback_id req = CALLBACK_GET_UNIT_DEFS then
          (if cbq_params req \<noteq> [] then MakeCallbackFailure req ''CALLBACK_GET_UNIT_DEFS does not take params''
           else with_result (Int_array (map fst (env_unit_defs env))) (MakeCallbackSuccess req))
        else if cbq_callback_id req = CALLBACK_UNITDEF_GET_NAME then
          (case ExtractSingleIntParam req of
             Inl err \<Rightarrow> MakeCallbackFailure req err
           | Inr def_id \<Rightarrow>
              (case map_of (env_unit_defs env) def_id of
                 Some (Some name) \<Rightarrow> with_result (String_value name) (MakeCallbackSuccess req)
               | _ \<Rightarrow> MakeCallbackFailure req (''unknown unit_def_id='' @ string_of_int def_id)))
        else MakeCallbackFailure req (''unsupported callback_id='' @ string_of_nat (unat (cbq_callback_id req))))"

definition DrainCallbackQueue :: "tick_env \<Rightarrow> Gateway \<Rightarrow> Gateway" where
  "DrainCallbackQueue env gw =
    foldl (\<lambda>g req. trace (Callback_completed req (callback_result env req)) g) (gw\<lparr>gw_pending_callbacks := []\<rparr>)
      (gw_pending_callbacks gw)"

text \<open>The worker's half: queue the request, then wait for the completion or the time-out.\<close>

definition InvokeCallback_submit :: "CallbackRequest \<Rightarrow> Gateway \<Rightarrow> Gateway \<times> CallbackRpcStatus option" where
  "InvokeCallback_submit req gw =
    (if gw_state gw \<noteq> Healthy then (gw, Some Callback_FailedPrecondition)
     else (gw\<lparr>gw_pending_callbacks := gw_pending_callbacks gw @ [req]\<rparr>, None))"

definition InvokeCallback_wait ::
    "(CallbackRpcStatus \<times> CallbackResponse) option \<Rightarrow> CallbackRpcStatus \<times> CallbackResponse option" where
  "InvokeCallback_wait completion = (case completion of
       None \<Rightarrow> (Callback_Internal, None)
     | Some (status, resp) \<Rightarrow> (status, if status = Callback_Ok then Some resp else None))"

section \<open>Admin actions\<close>

definition not_dispatched :: "AdminAction \<Rightarrow> AdminIssueCode \<Rightarrow> Gateway \<Rightarrow> AdminActionResult" where
  "not_dispatched action code gw =
    (admin_result action ADMIN_ACTION_NOT_DISPATCHED (gw_current_frame gw) (HeadSeq gw) False)
      \<lparr> ar_issues := [(code, ''action'', RETRY_AFTER_NEXT_SNAPSHOT)] \<rparr>"

text \<open>The worker's half: a result at once when the gateway is not healthy, otherwise the action is queued.\<close>

definition QueueAdminAction_submit ::
    "AdminCaller \<Rightarrow> AdminAction \<Rightarrow> Gateway \<Rightarrow> Gateway \<times> AdminActionResult option" where
  "QueueAdminAction_submit caller action gw =
    (if gw_state gw \<noteq> Healthy then (gw, Some (not_dispatched action ADMIN_ENGINE_NOT_READY gw))
     else (gw\<lparr>gw_pending_admin := gw_pending_admin gw @ [(caller, action)]\<rparr>, None))"

definition QueueAdminAction_wait :: "AdminAction \<Rightarrow> AdminActionResult option \<Rightarrow> Gateway \<Rightarrow> AdminActionResult" where
  "QueueAdminAction_wait action completion gw = (case completion of
       None \<Rightarrow> not_dispatched action ADMIN_ISSUE_ACTION_NOT_DISPATCHED gw
     | Some r \<Rightarrow> r)"

text \<open>One entry of the engine's half.\<close>

definition run_admin_action :: "tick_env \<Rightarrow> AdminCaller \<times> AdminAction \<Rightarrow> body" where
  "run_admin_action env entry gw =
    (case entry of (caller, action) \<Rightarrow>
      let r = (AdminController_Validate (gw_admin gw) caller action (gw_current_frame gw) (HeadSeq gw))\<lparr>ar_dry_run := False\<rparr> in
      if ar_status r \<noteq> ADMIN_ACTION_ACCEPTED then (trace (Admin_completed action r) gw, None)
      else (case ApplyAdminAction (env_admin env) (aa_action action) of
          (calls, None) \<Rightarrow> (trace (Admin_calls calls) gw, Some (env_admin_error env))
        | (calls, Some True) \<Rightarrow>
           (case AdminController_Execute caller action (gw_current_frame gw) (HeadSeq gw) (gw_admin gw) of (adm, r') \<Rightarrow>
             (trace (Admin_completed action r') (trace (Admin_calls calls) (gw\<lparr>gw_admin := adm\<rparr>)), None))
        | (calls, Some False) \<Rightarrow>
           (trace (Admin_completed action (r\<lparr> ar_status := ADMIN_ACTION_NOT_DISPATCHED,
               ar_issues := ar_issues r @ [(ADMIN_ISSUE_ACTION_NOT_DISPATCHED, ''action'', RETRY_AFTER_NEXT_SNAPSHOT)] \<rparr>))
             (trace (Admin_calls calls) gw), None)))"

fun run_bodies :: "body list \<Rightarrow> body" where
  "run_bodies [] gw = (gw, None)"
| "run_bodies (m # ms) gw = and_then m (run_bodies ms) gw"

definition DrainAdminActionQueue :: "tick_env \<Rightarrow> body" where
  "DrainAdminActionQueue env gw =
    run_bodies (map (run_admin_action env) (gw_pending_admin gw)) (gw\<lparr>gw_pending_admin := []\<rparr>)"

section \<open>Commands\<close>

definition CommandKind :: "AICommand \<Rightarrow> string" where
  "CommandKind cmd = (case cmd of
       Attack h t \<Rightarrow> ''attack''
     | Build_unit h d p f \<Rightarrow> ''build_unit''
     | Move_unit h p \<Rightarrow> ''move_unit''
     | Patrol h p \<Rightarrow> ''patrol''
     | Fight h p \<Rightarrow> ''fight''
     | Stop h \<Rightarrow> ''stop''
     | _ \<Rightarrow> ''other'')"

definition dispatch_event ::
    "QueuedCommand \<Rightarrow> CommandDispatchStatus \<Rightarrow> (CommandIssueCode \<times> string \<times> RetryHint) option \<Rightarrow> Gateway \<Rightarrow> Gateway" where
  "dispatch_event entry status issue gw = add_event (Command_dispatch
     \<lparr> cd_batch_seq = qc_batch_seq entry, cd_client_command_id = qc_client_command_id entry,
       cd_command_index = qc_command_index entry, cd_target_unit_id = of_int (qc_target_unit_id entry),
       cd_frame = gw_current_frame gw, cd_status = status, cd_issue = issue \<rparr>) gw"

text \<open>
  The unit a command is dispatched on: a skip with its status and issue, or the unit.  Game-wide commands (target -1)
  borrow any unit of the team.
\<close>

definition dispatch_context ::
    "tick_env \<Rightarrow> int \<Rightarrow> (CommandDispatchStatus \<times> (CommandIssueCode \<times> string \<times> RetryHint) option) + int" where
  "dispatch_context env target =
    (if 0 < target then
       (case map_of (env_team_units env) target of
          None \<Rightarrow> Inl (COMMAND_DISPATCH_SKIPPED_TARGET_MISSING,
            Some (MISSING_TARGET_UNIT, ''target_unit_id'', RETRY_AFTER_NEXT_SNAPSHOT))
        | Some dead \<Rightarrow>
           if dead then Inl (COMMAND_DISPATCH_SKIPPED_TARGET_DEAD,
             Some (TARGET_UNIT_DEAD, ''target_unit_id'', RETRY_AFTER_NEXT_SNAPSHOT))
           else Inr target)
     else (case env_team_units env of
        [] \<Rightarrow> Inl (COMMAND_DISPATCH_SKIPPED_ENGINE_NOT_READY, None)
      | (u, dead) # us \<Rightarrow> Inr u))"

definition not_dispatched_issue :: "(CommandIssueCode \<times> string \<times> RetryHint) option" where
  "not_dispatched_issue = Some (COMMAND_ARM_NOT_DISPATCHED, ''commands'', RETRY_WITH_FRESH_CAPABILITIES)"

text \<open>One entry of the queue; true when the loop goes on.\<close>

definition drain_one :: "tick_env \<Rightarrow> QueuedCommand \<Rightarrow> Gateway \<Rightarrow> Gateway \<times> bool" where
  "drain_one env entry gw =
    (let cmd = qc_command entry in
     case EffectiveDispatchTargetUnitId (qc_target_unit_id entry) cmd of
       None \<Rightarrow> (dispatch_event entry COMMAND_DISPATCH_SKIPPED_UNSUPPORTED_ARM not_dispatched_issue gw, True)
     | Some target \<Rightarrow>
        (case dispatch_context env target of
           Inl (status, issue) \<Rightarrow> (dispatch_event entry status issue gw, True)
         | Inr u \<Rightarrow>
            (case DispatchCommand True True (env_engine env u) cmd of
               (calls, None) \<Rightarrow>
                 (TransitionToDisabled env ''dispatch'' (ReasonCodeFor (Some (fst (env_dispatch_error env))))
                    (''dispatch_threw kind='' @ CommandKind cmd @ '' target='' @ string_of_int target @ '' what='' @
                      snd (env_dispatch_error env))
                    (trace (Engine_calls calls) (dispatch_event entry COMMAND_DISPATCH_STATUS_UNSPECIFIED None gw)), False)
             | (calls, Some True) \<Rightarrow>
                 (let gw1 = trace (Engine_calls calls) (dispatch_event entry COMMAND_DISPATCH_APPLIED None gw) in
                  (if 0 < target
                   then gw1\<lparr>gw_orders := MarkAccepted (of_int target) (qc_batch_seq entry) (qc_client_command_id entry)
                          (gw_current_frame gw1) (CommandKind cmd) (gw_orders gw1)\<rparr>
                   else gw1, True))
             | (calls, Some False) \<Rightarrow>
                 (trace (Engine_calls calls)
                    (dispatch_event entry COMMAND_DISPATCH_SKIPPED_UNSUPPORTED_ARM not_dispatched_issue gw), True))))"

fun drain_entries :: "tick_env \<Rightarrow> QueuedCommand list \<Rightarrow> Gateway \<Rightarrow> Gateway" where
  "drain_entries env [] gw = gw"
| "drain_entries env (entry # entries) gw =
    (case drain_one env entry gw of (gw', continue) \<Rightarrow> if continue then drain_entries env entries gw' else gw')"

definition DrainCommandQueue :: "tick_env \<Rightarrow> Gateway \<Rightarrow> Gateway" where
  "DrainCommandQueue env gw =
    (case svc_command_queue (gw_svc gw) of
       None \<Rightarrow> gw
     | Some q \<Rightarrow>
        (case on_queue (CommandQueue_Drain (Some []) 0) q (gw_svc gw) of (svc', batch, n) \<Rightarrow>
           drain_entries env (the batch) (gw\<lparr>gw_svc := svc'\<rparr>)))"

section \<open>The frame tick\<close>

definition kEconomyEveryNFrames :: u32 where
  "kEconomyEveryNFrames = 30"

definition pump_snapshot :: "tick_env \<Rightarrow> Gateway \<Rightarrow> Gateway" where
  "pump_snapshot env gw =
    (let frame = FrameForWire env;
         gw1 = gw\<lparr>gw_current_frame := frame\<rparr> in
     case SnapshotTick_Pump frame (length (env_team_units env)) (gw_snapshot_tick gw1) of (r, t) \<Rightarrow>
       let gw2 = gw1\<lparr>gw_snapshot_tick := t\<rparr> in
       if pr_emit r then BroadcastSnapshot env (pr_effective_cadence_frames r) gw2 else gw2)"

definition economy_due :: "Gateway \<Rightarrow> bool" where
  "economy_due gw \<longleftrightarrow> (let frames = (case svc_counters (gw_svc gw) of Some c \<Rightarrow> frames_since_bind c | None \<Rightarrow> 0) in
     0 < frames \<and> frames mod kEconomyEveryNFrames = 0)"

definition flush_or_keepalive :: "tick_env \<Rightarrow> Gateway \<Rightarrow> Gateway" where
  "flush_or_keepalive env gw =
    (if gw_delta gw \<noteq> [] then (FlushDelta env gw)\<lparr>gw_frames_since_last_flush := 0\<rparr>
     else let gw1 = gw\<lparr>gw_frames_since_last_flush := gw_frames_since_last_flush gw + 1\<rparr> in
       if kKeepAliveFrames \<le> gw_frames_since_last_flush gw1
       then (EmitKeepAlive env gw1)\<lparr>gw_frames_since_last_flush := 0\<rparr> else gw1)"

definition tick_body :: "tick_env \<Rightarrow> body" where
  "tick_body env = run_bodies
    [pure_body (\<lambda>gw. gw\<lparr>gw_svc := AdvanceFrame (gw_svc gw), gw_frame_counter := gw_frame_counter gw + 1\<rparr>),
     \<lambda>gw. when_body (0 \<le> env_last_frame env) (EnsureLocalServiceBound env) gw,
     \<lambda>gw. when_body (\<not> gw_client gw \<and> 0 \<le> env_last_frame env) (EnsureCoordinatorClientStarted env) gw,
     MaybeEmitInitialCoordinatorSnapshot env,
     pure_body (\<lambda>gw. if gw_client gw \<and> gw_frame_counter gw mod kHeartbeatEveryNFrames = 0
       then trace (Send_heartbeat (gw_frame_counter gw)) gw else gw),
     pure_body (DrainCallbackQueue env),
     pure_body (\<lambda>gw. gw\<lparr>gw_admin := AdminController_ExpireLeases (gw_current_frame gw) (gw_admin gw)\<rparr>),
     DrainAdminActionQueue env,
     pure_body (DrainCommandQueue env),
     pure_body (pump_snapshot env),
     pure_body (\<lambda>gw. if economy_due gw then OnEconomyTick env gw else gw),
     pure_body (flush_or_keepalive env)]"

definition OnFrameTick :: "tick_env \<Rightarrow> Gateway \<Rightarrow> Gateway" where
  "OnFrameTick env gw =
    (let gw1 = DrainPendingFault env gw in
     if gw_state gw1 \<noteq> Healthy then gw1
     else case tick_body env gw1 of
       (gw2, None) \<Rightarrow> gw2
     | (gw2, Some ex) \<Rightarrow> TransitionToDisabled env ''callback'' (ReasonCodeFor (Some ex)) ''frame_tick_threw'' gw2)"

end
