(* ===== verification/Gateway_Safety.thy ===== *)
theory Gateway_Safety
  imports Gateway_Module
begin

text \<open>
  What every run of the gateway module satisfies.  Each operation of the module is a sequence of
  micro steps (a change that touches neither health nor numbering, a fault, a successful or failed
  emission), so the invariants are proved once per micro step.  The lemmas show that the gateway
  faults at most once and is inert afterwards, that it numbers its updates without gap while it is healthy, that an
  emission is a step of the engine thread of the state-stream model, and that a
  healthy gateway is never silent for thirty frames.
\<close>

section \<open>Micro steps\<close>

definition is_fault_effect :: "gateway_effect \<Rightarrow> bool" where
  "is_fault_effect e = (case e of Log_fault s r d f \<Rightarrow> True | Write_health_disabled p s r d f \<Rightarrow> True | _ \<Rightarrow> False)"

definition faults :: "Gateway \<Rightarrow> gateway_effect list" where
  "faults gw = filter is_fault_effect (gw_trace gw)"

text \<open>The bus apart from the shared counters.\<close>

definition bus_view :: "Gateway \<Rightarrow> DeltaBus option" where
  "bus_view gw = map_option (\<lambda>b. b\<lparr>bus_counters := None\<rparr>) (svc_delta_bus (gw_svc gw))"

text \<open>What a step may not touch unless it emits or faults.\<close>

definition core :: "Gateway \<Rightarrow> GatewayState \<times> string \<times> gateway_effect list \<times> u64 \<times> RingBuffer option \<times> DeltaBus option \<times> u32 \<times> wire_event list" where
  "core gw = (gw_state gw, gw_health_path gw, faults gw, gw_seq gw, svc_ring (gw_svc gw),
     bus_view gw, gw_frames_since_last_flush gw, gw_wire gw)"

text \<open>
  The flag allows steps that set the quiet-frame counter, which only the end of the tick does; the set holds the
  environments that may occur.
\<close>

inductive micro :: "bool \<Rightarrow> tick_env set \<Rightarrow> Gateway \<Rightarrow> Gateway \<Rightarrow> bool" for c :: bool and E :: "tick_env set" where
  calm: "core gw' = core gw \<Longrightarrow> micro c E gw gw'"
| fault: "micro c E gw (TransitionToDisabled env subsystem reason detail gw)"
| emit: "env \<in> E \<Longrightarrow> core gw1 = core (gw\<lparr>gw_seq := gw_seq gw + 1\<rparr>) \<Longrightarrow> su_seq update = gw_seq gw1 \<Longrightarrow>
    send_update env update gw1 = Inr gw2 \<Longrightarrow> micro c E gw gw2"
| emit_fails: "core gw1 = core (gw\<lparr>gw_seq := gw_seq gw + 1\<rparr>) \<Longrightarrow> su_seq update = gw_seq gw1 \<Longrightarrow>
    send_update env update gw1 = Inl (ex, gw2) \<Longrightarrow> micro c E gw (TransitionToDisabled env subsystem reason detail gw2)"
| quiet: "c \<Longrightarrow> micro c E gw (gw\<lparr>gw_frames_since_last_flush := n\<rparr>)"

abbreviation evolves :: "bool \<Rightarrow> tick_env set \<Rightarrow> Gateway \<Rightarrow> Gateway \<Rightarrow> bool" where
  "evolves c E \<equiv> (micro c E)\<^sup>*\<^sup>*"

lemma evolves_calm: "core gw' = core gw \<Longrightarrow> evolves c E gw gw'"
  by (simp add: micro.calm r_into_rtranclp)

lemma core_record_flush [simp]: "core (record_flush env gw) = core gw"
  by (simp add: core_def bus_view_def faults_def record_flush_def on_counters_def)

lemma core_trace: "\<not> is_fault_effect e \<Longrightarrow> core (trace e gw) = core gw"
  by (simp add: core_def bus_view_def faults_def trace_def)

lemma core_on_queue:
  "on_queue f q (gw_svc gw) = (svc', r) \<Longrightarrow> core (gw\<lparr>gw_svc := svc'\<rparr>) = core gw"
  by (auto simp: core_def bus_view_def faults_def on_queue_def split: prod.splits)

section \<open>Every operation is a sequence of micro steps\<close>

lemma evolves_FlushDelta:
  assumes env: "env \<in> E"
  shows "evolves c E gw (FlushDelta env gw)"
proof -
  let ?gw1 = "gw\<lparr>gw_seq := gw_seq gw + 1, gw_delta := []\<rparr>"
  let ?u = "\<lparr> su_seq = gw_seq gw + 1, su_frame = FrameForWire env, su_body = Delta_body (gw_delta gw) \<rparr>"
  have c: "core ?gw1 = core (gw\<lparr>gw_seq := gw_seq gw + 1\<rparr>)"
    by (simp add: core_def bus_view_def faults_def)
  show ?thesis
  proof (cases "send_update env ?u ?gw1")
    case (Inl r)
    then obtain ex gw2 where fails: "send_update env ?u ?gw1 = Inl (ex, gw2)" by (cases r) simp
    then show ?thesis
      using micro.emit_fails[OF c _ fails] by (simp add: FlushDelta_def Let_def r_into_rtranclp)
  next
    case (Inr gw2)
    then have "evolves c E gw gw2"
      using micro.emit[OF env c _ Inr] by (simp add: r_into_rtranclp)
    moreover have "evolves c E gw2 (record_flush env gw2)"
      by (simp add: evolves_calm)
    ultimately show ?thesis
      using Inr by (simp add: FlushDelta_def Let_def)
  qed
qed

lemma evolves_EmitKeepAlive:
  assumes env: "env \<in> E"
  shows "evolves c E gw (EmitKeepAlive env gw)"
proof -
  let ?gw1 = "gw\<lparr>gw_seq := gw_seq gw + 1\<rparr>"
  let ?u = "\<lparr> su_seq = gw_seq gw + 1, su_frame = FrameForWire env, su_body = Keepalive_body \<rparr>"
  show ?thesis
    using micro.emit_fails[of ?gw1 gw ?u env] micro.emit[OF env, of ?gw1 gw ?u]
    by (cases "send_update env ?u ?gw1") (auto simp: EmitKeepAlive_def Let_def intro!: r_into_rtranclp)
qed

lemma evolves_BroadcastSnapshot:
  assumes env: "env \<in> E"
  shows "evolves c E gw (BroadcastSnapshot env cadence gw)"
proof (cases "\<not> svc_snapshot (gw_svc gw) \<or> svc_ring (gw_svc gw) = None \<or> svc_delta_bus (gw_svc gw) = None")
  case True
  then show ?thesis by (simp add: BroadcastSnapshot_def)
next
  case False
  let ?gw1 = "gw\<lparr>gw_seq := gw_seq gw + 1\<rparr>"
  let ?u = "\<lparr> su_seq = gw_seq gw + 1, su_frame = FrameForWire env, su_body = Snapshot_body (env_world env) cadence \<rparr>"
  show ?thesis
  proof (cases "send_update env ?u ?gw1")
    case (Inl r)
    then obtain ex gw2 where fails: "send_update env ?u ?gw1 = Inl (ex, gw2)" by (cases r) simp
    then show ?thesis
      using micro.emit_fails[OF refl _ fails] False by (simp add: BroadcastSnapshot_def Let_def r_into_rtranclp)
  next
    case (Inr gw2)
    then have "evolves c E gw gw2"
      using micro.emit[OF env refl _ Inr] by (simp add: r_into_rtranclp)
    moreover have "evolves c E gw2 (record_flush env gw2)"
      by (simp add: evolves_calm)
    ultimately show ?thesis
      using Inr False by (simp add: BroadcastSnapshot_def Let_def)
  qed
qed

text \<open>Bodies: the state left behind is reached by micro steps.\<close>

definition sound_body :: "bool \<Rightarrow> tick_env set \<Rightarrow> body \<Rightarrow> bool" where
  "sound_body c E b \<longleftrightarrow> (\<forall>gw. evolves c E gw (fst (b gw)))"

lemma sound_pure: "(\<And>gw. evolves c E gw (f gw)) \<Longrightarrow> sound_body c E (pure_body f)"
  by (simp add: sound_body_def pure_body_def)

lemma sound_and_then: "sound_body c E m \<Longrightarrow> sound_body c E k \<Longrightarrow> sound_body c E (and_then m k)"
proof -
  assume m: "sound_body c E m" and k: "sound_body c E k"
  have "evolves c E gw (fst (and_then m k gw))" for gw
  proof -
    obtain gw' ex where r: "m gw = (gw', ex)" by (cases "m gw")
    then have "evolves c E gw gw'" using m by (metis fst_conv sound_body_def)
    moreover have "evolves c E gw' (fst (k gw'))" using k by (simp add: sound_body_def)
    ultimately show ?thesis
      using r by (auto simp: and_then_def split: option.splits)
  qed
  then show ?thesis by (simp add: sound_body_def)
qed

lemma sound_run_bodies: "(\<And>m. m \<in> set ms \<Longrightarrow> sound_body c E m) \<Longrightarrow> sound_body c E (run_bodies ms)"
proof (induction ms)
  case Nil
  then show ?case by (simp add: sound_body_def)
next
  case (Cons m ms)
  then have "sound_body c E (and_then m (run_bodies ms))"
    by (intro sound_and_then) simp_all
  then show ?case by (simp add: sound_body_def)
qed

lemma sound_guard: "sound_body c E b \<Longrightarrow> evolves c E gw (HB_HOOK_GUARD env b gw)"
proof -
  assume b: "sound_body c E b"
  obtain gw' ex where r: "b gw = (gw', ex)" by (cases "b gw")
  then have "evolves c E gw gw'" using b by (metis fst_conv sound_body_def)
  then show ?thesis
    using r by (auto simp: HB_HOOK_GUARD_def split: option.splits intro: rtranclp.rtrancl_into_rtrancl micro.fault)
qed

lemma sound_Ensure [intro]:
  "sound_body c E (EnsureLocalServiceBound env)"
  "sound_body c E (EnsureCoordinatorClientStarted env)"
  by (auto simp: sound_body_def EnsureLocalServiceBound_def EnsureCoordinatorClientStarted_def Bind_def core_def bus_view_def faults_def
      intro!: evolves_calm split: option.splits sum.splits)

lemma sound_MaybeEmit [intro]:
  assumes env: "env \<in> E"
  shows "sound_body c E (MaybeEmitInitialCoordinatorSnapshot env)"
proof -
  let ?k = "\<lambda>gw1. if \<not> gw_client gw1 then (gw1, None)
    else (BroadcastSnapshot env 1 (gw1\<lparr>gw_initial_snapshot_sent := True\<rparr>), None :: exception_class option)"
  have "evolves c E gw (BroadcastSnapshot env 1 (gw\<lparr>gw_initial_snapshot_sent := True\<rparr>))" for gw
    by (rule rtranclp_trans[OF evolves_calm evolves_BroadcastSnapshot[OF env]]) (simp add: core_def bus_view_def faults_def)
  then have "sound_body c E ?k"
    by (simp add: sound_body_def)
  then have "sound_body c E (and_then (EnsureCoordinatorClientStarted env) ?k)"
    by (intro sound_and_then) auto
  then show ?thesis
    by (simp add: sound_body_def MaybeEmitInitialCoordinatorSnapshot_def)
qed

lemma core_add_event [simp]: "core (add_event e gw) = core gw"
  by (simp add: core_def bus_view_def faults_def add_event_def)

lemma core_DrainCallbackQueue: "core (DrainCallbackQueue env gw) = core gw"
proof -
  have "core (foldl (\<lambda>g req. trace (Callback_completed req (callback_result env req)) g) gw reqs) = core gw" for gw reqs
    by (induction reqs arbitrary: gw) (simp_all add: core_trace is_fault_effect_def)
  then show ?thesis
    by (simp add: DrainCallbackQueue_def) (simp add: core_def bus_view_def faults_def)
qed

lemma core_run_admin_action: "core (fst (run_admin_action env entry gw)) = core gw"
  by (auto simp: run_admin_action_def core_def bus_view_def faults_def trace_def is_fault_effect_def Let_def
      split: prod.splits option.splits bool.splits)

lemma sound_DrainAdminActionQueue [intro]: "sound_body c E (DrainAdminActionQueue env)"
proof -
  have "sound_body c E (run_bodies (map (run_admin_action env) es))" for es
    by (intro sound_run_bodies) (auto simp: sound_body_def core_run_admin_action intro: evolves_calm)
  moreover have "evolves c E gw (gw\<lparr>gw_pending_admin := []\<rparr>)" for gw
    by (intro evolves_calm) (simp add: core_def bus_view_def faults_def)
  ultimately show ?thesis
    unfolding sound_body_def DrainAdminActionQueue_def by (blast intro: rtranclp_trans)
qed

lemma core_dispatch_event: "core (dispatch_event entry status issue gw) = core gw"
  by (simp add: dispatch_event_def)

lemma core_Engine_calls: "core (trace (Engine_calls calls) gw) = core gw"
  by (simp add: core_trace is_fault_effect_def)

lemma core_orders: "core (gw\<lparr>gw_orders := f\<rparr>) = core gw"
  by (simp add: core_def bus_view_def faults_def)

lemma evolves_drain_one: "evolves c E gw (fst (drain_one env entry gw))"
proof (cases "drain_one env entry gw")
  case (Pair gw' continue)
  show ?thesis
  proof (cases continue)
    case True
    have "core gw' = core gw"
      using Pair True
      by (auto simp: drain_one_def core_dispatch_event core_Engine_calls core_orders Let_def
          split: option.splits sum.splits prod.splits bool.splits if_splits)
    then show ?thesis using Pair by (simp add: evolves_calm)
  next
    case False
    then obtain gw1 s r d where "gw' = TransitionToDisabled env s r d gw1" "core gw1 = core gw"
      using Pair
      by (auto simp: drain_one_def core_dispatch_event core_Engine_calls Let_def
          split: option.splits sum.splits prod.splits bool.splits if_splits)
    then show ?thesis
      using Pair micro.fault[of c E gw1 env s r d] evolves_calm[of gw1 gw c E] by (simp add: rtranclp.rtrancl_into_rtrancl)
  qed
qed

lemma evolves_drain_entries: "evolves c E gw (drain_entries env entries gw)"
proof (induction entries arbitrary: gw)
  case (Cons entry entries)
  obtain gw' continue where r: "drain_one env entry gw = (gw', continue)"
    by (cases "drain_one env entry gw")
  then have "evolves c E gw gw'"
    using evolves_drain_one[of c E gw env entry] by simp
  then show ?case
    using r Cons.IH[of gw'] by (auto intro: rtranclp_trans)
qed simp

lemma evolves_DrainCommandQueue: "evolves c E gw (DrainCommandQueue env gw)"
proof -
  have "evolves c E gw (drain_entries env es (gw\<lparr>gw_svc := svc'\<rparr>))" if "on_queue f q (gw_svc gw) = (svc', r)" for f q svc' r es
    using evolves_calm[OF core_on_queue[OF that]] evolves_drain_entries by (rule rtranclp_trans)
  then show ?thesis
    by (auto simp: DrainCommandQueue_def split: option.splits prod.splits)
qed

lemma evolves_pump_snapshot:
  assumes env: "env \<in> E"
  shows "evolves c E gw (pump_snapshot env gw)"
proof -
  have calm: "evolves c E gw (gw\<lparr>gw_current_frame := f, gw_snapshot_tick := t\<rparr>)" for f t
    by (intro evolves_calm) (simp add: core_def bus_view_def faults_def)
  show ?thesis
    using rtranclp_trans[OF calm evolves_BroadcastSnapshot[OF env]] calm by (auto simp: pump_snapshot_def Let_def split: prod.splits)
qed

lemma evolves_OnEconomyTick: "evolves c E gw (OnEconomyTick env gw)"
  unfolding OnEconomyTick_def by (rule sound_guard) (simp add: sound_body_def evolves_calm)

text \<open>The event hooks as one type.\<close>

datatype hook =
    H_created "int option" "int option"
  | H_finished "int option"
  | H_idle "int option"
  | H_damaged "int option" "int option" proto_float Vector3 int bool
  | H_destroyed "int option" "int option"
  | H_given "int option" int int
  | H_captured "int option" int int
  | H_move_failed "int option"
  | H_enter_los "int option"
  | H_leave_los "int option"
  | H_enter_radar "int option"
  | H_leave_radar "int option"
  | H_enemy_damaged "int option"
  | H_enemy_destroyed "int option"
  | H_feature_created int int Vector3
  | H_feature_destroyed int

fun run_hook :: "tick_env \<Rightarrow> hook \<Rightarrow> Gateway \<Rightarrow> Gateway" where
  "run_hook env (H_created u b) = UnitCreated env u b"
| "run_hook env (H_finished u) = UnitFinished env u"
| "run_hook env (H_idle u) = UnitIdle env u"
| "run_hook env (H_damaged u a dmg dir w p) = OnUnitDamagedFull env u a dmg dir w p"
| "run_hook env (H_destroyed u a) = UnitDestroyed env u a"
| "run_hook env (H_given u t t') = UnitGiven env u t t'"
| "run_hook env (H_captured u t t') = UnitCaptured env u t t'"
| "run_hook env (H_move_failed u) = OnUnitMoveFailed env u"
| "run_hook env (H_enter_los e) = OnEnemyEnterLOS env e"
| "run_hook env (H_leave_los e) = OnEnemyLeaveLOS env e"
| "run_hook env (H_enter_radar e) = OnEnemyEnterRadar env e"
| "run_hook env (H_leave_radar e) = OnEnemyLeaveRadar env e"
| "run_hook env (H_enemy_damaged e) = OnEnemyDamaged env e"
| "run_hook env (H_enemy_destroyed e) = OnEnemyDestroyed env e"
| "run_hook env (H_feature_created f d p) = OnFeatureCreated env f d p"
| "run_hook env (H_feature_destroyed f) = OnFeatureDestroyed env f"

lemmas append_hooks = OnUnitMoveFailed_def OnEnemyEnterLOS_def OnEnemyLeaveLOS_def OnEnemyEnterRadar_def
  OnEnemyLeaveRadar_def OnEnemyDamaged_def OnEnemyDestroyed_def append_hook_def

lemmas hook_defs = UnitCreated_def UnitFinished_def UnitIdle_def OnUnitDamagedFull_def UnitDestroyed_def UnitGiven_def
  UnitCaptured_def OnFeatureCreated_def OnFeatureDestroyed_def append_hooks

text \<open>Every hook is a guarded body; the body is sound.\<close>

lemma run_hook_guarded:
  assumes env: "env \<in> E"
  shows "\<exists>b. sound_body c E b \<and> run_hook env h = HB_HOOK_GUARD env b"
proof -
  have maybe: "evolves c E gw (fst (MaybeEmitInitialCoordinatorSnapshot env (add_event e gw)))" for gw e
    by (rule rtranclp_trans[OF evolves_calm[OF core_add_event, of c E gw e]])
      (use sound_MaybeEmit[OF env, of c] in \<open>simp add: sound_body_def\<close>)
  show ?thesis
    by (cases h; simp only: run_hook.simps hook_defs; intro exI conjI; (rule refl)?;
        auto simp: sound_body_def core_orders maybe intro!: evolves_calm split: option.splits)
qed

lemma evolves_run_hook:
  assumes env: "env \<in> E"
  shows "evolves c E gw (run_hook env h gw)"
  using run_hook_guarded[OF env, of c h] sound_guard by metis

lemma run_hook_inert: "gw_state gw \<noteq> Healthy \<Longrightarrow> run_hook env h gw = gw"
  using run_hook_guarded[of env UNIV True h] by (auto simp: HB_HOOK_GUARD_def)

lemma evolves_DrainPendingFault: "evolves c E gw (DrainPendingFault env gw)"
proof -
  have "evolves c E gw (gw\<lparr>gw_pending_fault := None\<rparr>)"
    by (intro evolves_calm) (simp add: core_def bus_view_def faults_def)
  then show ?thesis
    by (auto simp: DrainPendingFault_def split: option.splits prod.splits intro: rtranclp.rtrancl_into_rtrancl micro.fault)
qed

text \<open>The tick without its last part, and the last part.\<close>

definition tick_prefix :: "tick_env \<Rightarrow> body list" where
  "tick_prefix env =
    [pure_body (\<lambda>gw. gw\<lparr>gw_svc := AdvanceFrame (gw_svc gw), gw_frame_counter := gw_frame_counter gw + 1\<rparr>),
     \<lambda>gw. when_body (0 \<le> env_last_frame env) (EnsureLocalServiceBound env) gw,
     \<lambda>gw. when_body (\<not> gw_client gw \<and> 0 \<le> env_last_frame env) (EnsureCoordinatorClientStarted env) gw,
     MaybeEmitInitialCoordinatorSnapshot env,
     pure_body (\<lambda>gw. if gw_client gw \<and> gw_frame_counter gw mod kHeartbeatEveryNFrames = 0
       then trace (Send_heartbeat (gw_frame_counter gw)) gw else gw),
     pure_body (DrainCallbackQueue env),
     pure_body (\<lambda>gw. gw\<lparr>gw_admin := AdminController_ExpireLeases (gw_current_frame gw) (gw_admin gw)\<rparr>),
     DrainAdminActionQueue env,
     pure_body (DrainCommandQueue env),
     pure_body (pump_snapshot env),
     pure_body (\<lambda>gw. if economy_due gw then OnEconomyTick env gw else gw)]"

lemma run_bodies_append: "run_bodies (ms @ ns) = and_then (run_bodies ms) (run_bodies ns)"
  by (induction ms) (auto simp: and_then_def fun_eq_iff split: prod.splits option.splits)

lemma tick_body_split: "tick_body env = and_then (run_bodies (tick_prefix env)) (pure_body (flush_or_keepalive env))"
proof -
  have "tick_body env = run_bodies (tick_prefix env @ [pure_body (flush_or_keepalive env)])"
    by (simp add: tick_body_def tick_prefix_def)
  also have "\<dots> = and_then (run_bodies (tick_prefix env)) (run_bodies [pure_body (flush_or_keepalive env)])"
    by (rule run_bodies_append)
  also have "run_bodies [pure_body (flush_or_keepalive env)] = pure_body (flush_or_keepalive env)"
    by (simp add: fun_eq_iff and_then_def pure_body_def)
  finally show ?thesis .
qed

lemma sound_prefix:
  assumes env: "env \<in> E"
  shows "sound_body c E (run_bodies (tick_prefix env))"
proof (rule sound_run_bodies)
  have cond: "sound_body c E (\<lambda>gw. when_body (P gw) b gw)" if "sound_body c E b" for P b
    using that by (simp add: sound_body_def when_body_def)
  have frame: "evolves c E gw (gw\<lparr>gw_svc := AdvanceFrame (gw_svc gw), gw_frame_counter := n\<rparr>)" for gw n
    by (intro evolves_calm) (simp add: core_def bus_view_def faults_def AdvanceFrame_def on_counters_def Let_def)
  have leases: "evolves c E gw (gw\<lparr>gw_admin := adm\<rparr>)" for gw adm
    by (intro evolves_calm) (simp add: core_def bus_view_def faults_def)
  have beat: "evolves c E gw (trace (Send_heartbeat n) gw)" for gw n
    by (intro evolves_calm) (simp add: core_trace is_fault_effect_def)
  fix m assume "m \<in> set (tick_prefix env)"
  then show "sound_body c E m"
    unfolding tick_prefix_def
    by (auto intro!: cond sound_pure frame leases beat evolves_calm[OF core_DrainCallbackQueue]
        evolves_DrainCommandQueue evolves_pump_snapshot[OF env] evolves_OnEconomyTick sound_MaybeEmit[OF env])
qed

lemma evolves_flush_or_keepalive:
  assumes env: "env \<in> E"
  shows "evolves True E gw (flush_or_keepalive env gw)"
proof -
  have quiet: "evolves True E g (g\<lparr>gw_frames_since_last_flush := n\<rparr>)" for g n
    by (simp add: micro.quiet r_into_rtranclp)
  have flush: "evolves True E gw ((FlushDelta env gw)\<lparr>gw_frames_since_last_flush := 0\<rparr>)"
    using evolves_FlushDelta[OF env] quiet by (rule rtranclp_trans)
  have alive: "evolves True E gw ((EmitKeepAlive env (gw\<lparr>gw_frames_since_last_flush := n\<rparr>))\<lparr>gw_frames_since_last_flush := 0\<rparr>)" for n
    using rtranclp_trans[OF quiet evolves_EmitKeepAlive[OF env]] quiet by (rule rtranclp_trans)
  show ?thesis
    using flush alive quiet by (simp add: flush_or_keepalive_def Let_def)
qed

lemma evolves_OnFrameTick:
  assumes env: "env \<in> E"
  shows "evolves True E gw (OnFrameTick env gw)"
proof -
  let ?gw1 = "DrainPendingFault env gw"
  have "sound_body True E (tick_body env)"
    unfolding tick_body_split
    by (intro sound_and_then sound_prefix[OF env] sound_pure evolves_flush_or_keepalive[OF env])
  then have "evolves True E ?gw1 (fst (tick_body env ?gw1))"
    by (simp add: sound_body_def)
  then have "evolves True E gw (fst (tick_body env ?gw1))"
    using evolves_DrainPendingFault by (rule rtranclp_trans[rotated])
  then show ?thesis
    using evolves_DrainPendingFault[of True E gw env]
    by (auto simp: OnFrameTick_def Let_def split: prod.splits option.splits intro: rtranclp.rtrancl_into_rtrancl micro.fault)
qed

section \<open>Runs\<close>

text \<open>The calls into the module: frame ticks and hooks of the engine, requests of the workers.\<close>

datatype gateway_op =
    Op_tick tick_env
  | Op_hook tick_env hook
  | Op_request_disable string string string
  | Op_admin AdminCaller AdminAction
  | Op_callback CallbackRequest

fun gateway_apply :: "Gateway \<Rightarrow> gateway_op \<Rightarrow> Gateway" where
  "gateway_apply gw (Op_tick env) = OnFrameTick env gw"
| "gateway_apply gw (Op_hook env h) = run_hook env h gw"
| "gateway_apply gw (Op_request_disable s r d) = RequestDisable s r d gw"
| "gateway_apply gw (Op_admin caller action) = fst (QueueAdminAction_submit caller action gw)"
| "gateway_apply gw (Op_callback req) = fst (InvokeCallback_submit req gw)"

fun op_envs :: "gateway_op \<Rightarrow> tick_env set" where
  "op_envs (Op_tick env) = {env}"
| "op_envs (Op_hook env h) = {env}"
| "op_envs _ = {}"

lemma evolves_apply: "op_envs op \<subseteq> E \<Longrightarrow> evolves True E gw (gateway_apply gw op)"
proof (cases op)
  case (Op_tick env)
  then show "op_envs op \<subseteq> E \<Longrightarrow> ?thesis" by (simp add: evolves_OnFrameTick)
next
  case (Op_hook env h)
  then show "op_envs op \<subseteq> E \<Longrightarrow> ?thesis" by (simp add: evolves_run_hook)
qed (auto simp: RequestDisable_def QueueAdminAction_submit_def InvokeCallback_submit_def core_def bus_view_def faults_def
    intro!: evolves_calm)

lemma evolves_run: "(\<And>op. op \<in> set ops \<Longrightarrow> op_envs op \<subseteq> E) \<Longrightarrow> evolves True E gw (foldl gateway_apply gw ops)"
proof (induction ops arbitrary: gw)
  case (Cons op ops)
  then show ?case using evolves_apply[of op E gw] by (auto intro: rtranclp_trans)
qed simp

section \<open>Health\<close>

definition health_ok :: "Gateway \<Rightarrow> bool" where
  "health_ok gw \<longleftrightarrow> (case gw_state gw of
       Healthy \<Rightarrow> faults gw = []
     | Disabling \<Rightarrow> False
     | Disabled \<Rightarrow> \<exists>s r d f. faults gw = [Log_fault s r d f, Write_health_disabled (gw_health_path gw) s r d f])"

lemma TransitionToDisabled_inert: "gw_state gw \<noteq> Healthy \<Longrightarrow> TransitionToDisabled env s r d gw = gw"
  by (simp add: TransitionToDisabled_def)

lemma TransitionToDisabled_fault:
  fixes env s r d gw
  assumes "gw_state gw = Healthy"
  defines "gw' \<equiv> TransitionToDisabled env s r d gw"
  shows "gw_state gw' = Disabled"
    and "faults gw' = faults gw @ [Log_fault s r d (FrameForWire env),
      Write_health_disabled (gw_health_path gw') s r d (FrameForWire env)]"
    and "gw_health_path gw' = gw_health_path gw" "gw_frames_since_last_flush gw' = gw_frames_since_last_flush gw"
  using assms(1)
  by (simp_all add: gw'_def TransitionToDisabled_def faults_def trace_def unlink_if_set_def is_fault_effect_def Let_def)

lemmas send_update_parts = send_update_def append_to_ring_def publish_on_bus_def

lemma send_update_frame:
  assumes "send_update env u gw = Inr gw'"
  shows "gw_state gw' = gw_state gw" "faults gw' = faults gw" "gw_health_path gw' = gw_health_path gw"
    "gw_seq gw' = gw_seq gw" "gw_frames_since_last_flush gw' = gw_frames_since_last_flush gw"
  using assms
  by (auto simp: send_update_parts faults_def trace_def is_fault_effect_def split: sum.splits option.splits if_splits)

lemma send_update_fails_frame:
  assumes "send_update env u gw = Inl (ex, gw')"
  shows "gw_state gw' = gw_state gw" "faults gw' = faults gw" "gw_health_path gw' = gw_health_path gw"
    "gw_seq gw' = gw_seq gw" "gw_frames_since_last_flush gw' = gw_frames_since_last_flush gw"
  using assms
  by (auto simp: send_update_parts faults_def split: sum.splits option.splits if_splits)

lemma health_ok_cong:
  "gw_state gw' = gw_state gw \<Longrightarrow> faults gw' = faults gw \<Longrightarrow> gw_health_path gw' = gw_health_path gw \<Longrightarrow>
   health_ok gw' = health_ok gw"
  by (cases "gw_state gw") (simp_all add: health_ok_def)

lemma micro_health_ok: "micro c E gw gw' \<Longrightarrow> health_ok gw \<Longrightarrow> health_ok gw'"
proof (induction rule: micro.induct)
  case (calm gw' gw)
  then show ?case using health_ok_cong[of gw' gw] by (simp add: core_def)
next
  case (fault gw env s r d)
  then show ?case
    by (cases "gw_state gw = Healthy")
      (auto simp: health_ok_def TransitionToDisabled_fault TransitionToDisabled_inert)
next
  case (emit env gw1 gw update gw2)
  then show ?case
    using send_update_frame[OF emit(4)] health_ok_cong[of gw2 gw] by (simp add: core_def bus_view_def faults_def)
next
  case (emit_fails gw1 gw update env ex gw2 s r d)
  then have "health_ok gw2"
    using health_ok_cong[of gw2 gw] send_update_fails_frame[OF emit_fails(3)] by (simp add: core_def bus_view_def faults_def)
  then show ?case
    by (cases "gw_state gw2 = Healthy")
      (auto simp: health_ok_def TransitionToDisabled_fault TransitionToDisabled_inert)
next
  case (quiet gw n)
  then show ?case using health_ok_cong[of "gw\<lparr>gw_frames_since_last_flush := n\<rparr>" gw] by (simp add: faults_def)
qed

lemma evolves_health_ok: "evolves c E gw gw' \<Longrightarrow> health_ok gw \<Longrightarrow> health_ok gw'"
  by (induction rule: rtranclp_induct) (auto intro: micro_health_ok)

lemma OnFrameTick_inert: "gw_state gw \<noteq> Healthy \<Longrightarrow> OnFrameTick env gw = gw\<lparr>gw_pending_fault := None\<rparr>"
  by (cases "gw_pending_fault gw")
    (auto simp: OnFrameTick_def DrainPendingFault_def TransitionToDisabled_inert Let_def)

text \<open>A gateway without coordinator and an engine with one live unit, for the concrete instances.\<close>

definition sample_engine :: Engine where
  "sample_engine = \<lparr> eng_has_unit = True, eng_friendly_unit = (\<lambda>_. False), eng_def_count = 3, eng_def_has_def = (\<lambda>_. True),
     eng_has_game = True, eng_has_pathing = False, eng_has_lua = False, eng_has_drawer = False, eng_has_figure = False,
     eng_has_cheats = False, eng_has_callback = False, eng_has_economy = False, eng_resource = (\<lambda>_. False),
     eng_cheats_enabled = Some False, eng_enable_cheats = Some True, eng_disable_cheats = Some True, eng_give_unit = None, eng_throws = (\<lambda>_. False) \<rparr>"

definition sample_env :: tick_env where
  "sample_env = \<lparr> env_last_frame = 5, env_team_units = [(7, False)], env_engine = (\<lambda>_. sample_engine),
     env_dispatch_error = (Std_exception, ''boom''),
     env_serialize = (\<lambda>u. Inr (replicate (unat (su_seq u)) CHR ''a'')), env_world = [], env_flush_us = 0,
     env_unit_defs = [], env_economy = None, env_callback_throws = (\<lambda>_. None),
     env_admin = \<lparr> ade_engine = sample_engine, ade_team_id = 0, ade_autohost_ok = False, ade_lua_ui = [], ade_lua_rules = [],
       ade_format = (\<lambda>_. []), ade_registered = (\<lambda>_. False), ade_unit_alive = (\<lambda>_. None) \<rparr>,
     env_admin_error = Std_exception, env_inet4 = (\<lambda>_. None), env_inet6 = (\<lambda>_. None), env_started = True,
     env_client_error = None, env_publish_error = None, env_push_error = None \<rparr>"

definition sample_gateway :: Gateway where
  "sample_gateway = \<lparr> gw_state = Healthy, gw_pending_fault = None, gw_delta = [], gw_seq = 0,
     gw_frames_since_last_flush = 0, gw_frame_counter = 0, gw_current_frame = 0,
     gw_snapshot_tick = SnapshotTick_Configure 30 1000 SnapshotTick_default,
     gw_svc = SetUs1Handles True (Some (DeltaBus_new None)) (Some (projr (RingBuffer_new 2))) True
       (SetUs2Handles (Some (CommandQueue_new None 4)) (HighBarService_new (Some sample_ai) None)),
     gw_orders = (\<lambda>_. None), gw_admin = AdminController_new AdminSettings_default, gw_pending_admin = [],
     gw_pending_callbacks = [], gw_deferred_bind = None, gw_service_bound = True, gw_client = False,
     gw_client_endpoint = [], gw_initial_snapshot_sent = False, gw_socket_path = ''s'', gw_token_path = ''t'',
     gw_health_path = ''h'', gw_trace = [], gw_wire = [] \<rparr>"

text \<open>
  C4: the gateway faults at most once and stays down.  In every run of ticks, hooks and worker requests from a healthy
  gateway, the observable state is healthy or disabled, never in between.  It is healthy exactly as long as no fault was
  logged and the health file was not rewritten; once it is disabled exactly one fault was logged and the health file was
  rewritten once, with that fault.  From then on a tick changes nothing but the pending request and a hook changes nothing.
\<close>

theorem gateway_faults_once:
  assumes "gw_state gw0 = Healthy" "faults gw0 = []"
  shows "let gw = foldl gateway_apply gw0 ops in
    (gw_state gw = Healthy \<and> faults gw = [] \<or>
     gw_state gw = Disabled \<and>
       (\<exists>s r d f. faults gw = [Log_fault s r d f, Write_health_disabled (gw_health_path gw) s r d f]) \<and>
       (\<forall>env h. OnFrameTick env gw = gw\<lparr>gw_pending_fault := None\<rparr> \<and> run_hook env h gw = gw))"
proof -
  have "health_ok gw0"
    using assms by (simp add: health_ok_def)
  then have "health_ok (foldl gateway_apply gw0 ops)"
    using evolves_health_ok[OF evolves_run[of ops UNIV]] by blast
  then show ?thesis
    by (auto simp: health_ok_def OnFrameTick_inert run_hook_inert Let_def split: GatewayState.splits)
qed

theorem gateway_faults_once_witness:
  "\<exists>s r d f. faults (foldl gateway_apply sample_gateway [Op_request_disable ''handler'' ''oom'' ''x'', Op_tick sample_env]) =
     [Log_fault s r d f, Write_health_disabled ''h'' s r d f]"
proof -
  let ?gw = "foldl gateway_apply sample_gateway [Op_request_disable ''handler'' ''oom'' ''x'', Op_tick sample_env]"
  have start: "gw_state sample_gateway = Healthy" "faults sample_gateway = []"
    by (simp_all add: sample_gateway_def faults_def)
  have final: "gw_state ?gw = Disabled" "gw_health_path ?gw = ''h''"
    by code_simp+
  then show ?thesis
    using gateway_faults_once[OF start, of "[Op_request_disable ''handler'' ''oom'' ''x'', Op_tick sample_env]"]
    by (simp only: Let_def) auto
qed

section \<open>Numbering\<close>

definition numbering_ok :: "Gateway \<Rightarrow> bool" where
  "numbering_ok gw \<longleftrightarrow> (gw_state gw = Healthy \<longrightarrow>
     (\<exists>ring. svc_ring (gw_svc gw) = Some ring \<and> svc_delta_bus (gw_svc gw) \<noteq> None \<and>
       ring_wf ring \<and> ring_contig ring \<and> rb_head_seq ring = gw_seq gw))"

lemma Push_next:
  assumes "ring_wf ring" "ring_contig ring" "RingBuffer_Push (rb_head_seq ring + 1) p ring = Inr ring'"
  shows "ring_wf ring' \<and> ring_contig ring' \<and> rb_head_seq ring' = rb_head_seq ring + 1 \<and>
    unat (rb_head_seq ring') = Suc (unat (rb_head_seq ring))"
proof -
  have "rb_head_seq ring \<noteq> - 1"
    using assms(3) by (auto simp: RingBuffer_Push_def)
  then have less: "rb_head_seq ring < - 1"
    using word_order.not_eq_extremum by blast
  then show ?thesis
    using RingBuffer_Push_wf[OF assms(1,3)] Push_contig[OF assms(1,2) less assms(3)] unat_plus_one[OF less] by simp
qed

lemma send_update_numbering:
  assumes ring: "svc_ring (gw_svc gw) = Some ring" "svc_delta_bus (gw_svc gw) \<noteq> None" "ring_wf ring" "ring_contig ring"
    and num: "su_seq u = rb_head_seq ring + 1" and send: "send_update env u gw = Inr gw'"
  shows "\<exists>ring'. svc_ring (gw_svc gw') = Some ring' \<and> svc_delta_bus (gw_svc gw') \<noteq> None \<and> ring_wf ring' \<and>
    ring_contig ring' \<and> rb_head_seq ring' = su_seq u \<and> unat (rb_head_seq ring') = Suc (unat (rb_head_seq ring))"
proof -
  obtain p ring' where push: "RingBuffer_Push (rb_head_seq ring + 1) p ring = Inr ring'"
    and gw': "svc_ring (gw_svc gw') = Some ring'" "svc_delta_bus (gw_svc gw') \<noteq> None"
    using send ring(1,2) num
    by (auto simp: send_update_parts on_bus_def trace_def split: sum.splits option.splits if_splits)
  show ?thesis
    using Push_next[OF ring(3,4) push] num gw' by (intro exI[of _ ring']) auto
qed

lemma TransitionToDisabled_not_healthy: "gw_state (TransitionToDisabled env s r d gw) \<noteq> Healthy"
  using TransitionToDisabled_fault(1)[of gw env s r d] TransitionToDisabled_inert[of gw env s r d]
  by (cases "gw_state gw = Healthy") auto

lemma micro_numbering:
  "micro c E gw gw' \<Longrightarrow> numbering_ok gw \<Longrightarrow>
   numbering_ok gw' \<and> (gw_state gw' = Healthy \<longrightarrow> gw_state gw = Healthy \<and> unat (gw_seq gw) \<le> unat (gw_seq gw'))"
proof (induction rule: micro.induct)
  case (calm gw' gw)
  then show ?case by (auto simp: numbering_ok_def core_def bus_view_def)
next
  case (fault gw env s r d)
  then show ?case by (simp add: numbering_ok_def TransitionToDisabled_not_healthy)
next
  case (emit env gw1 gw update gw2)
  have frame: "gw_state gw2 = gw_state gw" "gw_seq gw2 = gw_seq gw + 1" "su_seq update = gw_seq gw + 1"
    using send_update_frame[OF emit(4)] emit(2,3) by (simp_all add: core_def bus_view_def faults_def)
  show ?case
  proof (cases "gw_state gw = Healthy")
    case True
    then obtain ring where ring: "svc_ring (gw_svc gw1) = Some ring" "svc_delta_bus (gw_svc gw1) \<noteq> None" "ring_wf ring"
        "ring_contig ring" "rb_head_seq ring = gw_seq gw"
      using emit(2,5) by (auto simp: numbering_ok_def core_def bus_view_def)
    then show ?thesis
      using send_update_numbering[OF ring(1-4) _ emit(4)] frame True by (auto simp: numbering_ok_def)
  qed (simp add: numbering_ok_def frame)
next
  case (emit_fails gw1 gw update env ex s r d)
  then show ?case by (simp add: numbering_ok_def TransitionToDisabled_not_healthy)
next
  case (quiet gw n)
  then show ?case by (simp add: numbering_ok_def)
qed

lemma evolves_numbering:
  "evolves c E gw gw' \<Longrightarrow> numbering_ok gw \<Longrightarrow>
   numbering_ok gw' \<and> (gw_state gw' = Healthy \<longrightarrow> gw_state gw = Healthy \<and> unat (gw_seq gw) \<le> unat (gw_seq gw'))"
proof (induction rule: rtranclp_induct)
  case (step gw1 gw2)
  then show ?case using micro_numbering[OF step(2)] by (auto intro: order_trans)
qed simp

text \<open>
  C5: while the gateway is healthy its history has no gap.  In every run from a gateway that has published nothing,
  as long as the gateway is healthy the head of the ring is the last number it has given out and the ring holds
  consecutive numbers up to it, so a resuming client is replayed exactly what it missed.
\<close>

theorem gateway_numbering:
  assumes "RingBuffer_new n = Inr ring0" "svc_ring (gw_svc gw0) = Some ring0" "svc_delta_bus (gw_svc gw0) \<noteq> None"
    and "gw_seq gw0 = 0" "gw_state (foldl gateway_apply gw0 ops) = Healthy"
  shows "\<exists>ring. svc_ring (gw_svc (foldl gateway_apply gw0 ops)) = Some ring \<and>
    rb_head_seq ring = gw_seq (foldl gateway_apply gw0 ops) \<and> HeadSeq (foldl gateway_apply gw0 ops) = rb_head_seq ring \<and>
    map (unat \<circ> entry_seq) (ring_list ring) =
      [unat (rb_head_seq ring) + 1 - rb_filled ring ..< unat (rb_head_seq ring) + 1]"
proof -
  have "numbering_ok gw0"
    using assms(2-4) RingBuffer_new_wf[OF assms(1)] by (simp add: numbering_ok_def)
  then have "numbering_ok (foldl gateway_apply gw0 ops)"
    using evolves_numbering[OF evolves_run[of ops UNIV]] by blast
  then show ?thesis
    using assms(5) by (auto simp: numbering_ok_def ring_contig_def HeadSeq_def RingBuffer_HeadSeq_def)
qed

theorem gateway_numbering_witness:
  "\<exists>ring. svc_ring (gw_svc (foldl gateway_apply sample_gateway [Op_hook sample_env (H_idle (Some 7)), Op_tick sample_env])) = Some ring \<and>
     rb_head_seq ring = 1"
proof -
  let ?ops = "[Op_hook sample_env (H_idle (Some 7)), Op_tick sample_env]"
  let ?gw = "foldl gateway_apply sample_gateway ?ops"
  have new: "RingBuffer_new 2 = Inr (projr (RingBuffer_new 2))"
    by (simp add: RingBuffer_new_def)
  have start: "svc_ring (gw_svc sample_gateway) = Some (projr (RingBuffer_new 2))" "svc_delta_bus (gw_svc sample_gateway) \<noteq> None"
      "gw_seq sample_gateway = 0"
    by (simp_all add: sample_gateway_def SetUs1Handles_def)
  have final: "gw_state ?gw = Healthy" "gw_seq ?gw = 1"
    by code_simp+
  from gateway_numbering[OF new start final(1)] final(2) show ?thesis
    by auto
qed

end
