(* ===== verification/Gateway_Refinement.thy ===== *)
theory Gateway_Refinement
  imports Gateway_Safety
begin

text \<open>
  The gateway module composed with the rest: a healthy run of the module is a run of the
  engine thread of the state-stream model, a healthy gateway is never silent for thirty ticks, every
  drained command is reported, and an admin action whose caller gave up waiting is still executed.
\<close>

section \<open>The bus without its counters\<close>

definition plain_bus :: "DeltaBus \<Rightarrow> DeltaBus" where
  "plain_bus b = b\<lparr>bus_counters := None\<rparr>"

lemma plain_publish_to: "plain_bus (publish_to p b a) = publish_to p (plain_bus b) a"
  by (auto simp: plain_bus_def publish_to_def count_dropped_def split: option.splits prod.splits)

lemma plain_foldl: "plain_bus (foldl (publish_to p) b as) = foldl (publish_to p) (plain_bus b) as"
  by (induction as arbitrary: b) (simp_all add: plain_publish_to)

lemma plain_Publish: "plain_bus (DeltaBus_Publish p b) = DeltaBus_Publish p (plain_bus b)"
proof -
  have swap: "plain_bus (b\<lparr>bus_slots := kept\<rparr>) = (plain_bus b)\<lparr>bus_slots := kept\<rparr>" for kept
    by (cases b) (simp add: plain_bus_def)
  have "bus_heap (plain_bus b) = bus_heap b" "bus_slots (plain_bus b) = bus_slots b"
    by (simp_all add: plain_bus_def)
  then show ?thesis
    by (simp add: DeltaBus_Publish_def plain_foldl swap split: prod.splits)
qed

section \<open>Simulation of the engine thread\<close>

text \<open>The state-stream model's view of a gateway: its ring and its bus, seen by one stream.\<close>

definition stream_view :: "Gateway \<Rightarrow> stream_system \<Rightarrow> stream_system" where
  "stream_view gw s = s\<lparr>ss_ring := the (svc_ring (gw_svc gw)), ss_unpublished := None, ss_bus := the (bus_view gw)\<rparr>"

text \<open>The wire format: parsing a serialized update yields its number.\<close>

definition wire_faithful :: "(string \<Rightarrow> u64 option) \<Rightarrow> tick_env \<Rightarrow> bool" where
  "wire_faithful parse env \<longleftrightarrow> (\<forall>u p. env_serialize env u = Inr p \<longrightarrow> parse p = Some (su_seq u))"

text \<open>
  The engine thread alone: the two kinds of step it takes in the state-stream model, labelled with what it does.
\<close>

inductive engine_run :: "(string \<Rightarrow> u64 option) \<Rightarrow> stream_system \<Rightarrow> wire_event list \<Rightarrow> stream_system \<Rightarrow> bool"
  for parse :: "string \<Rightarrow> u64 option" where
  engine_idle: "engine_run parse s [] s"
| engine_appends: "ss_unpublished s = None \<Longrightarrow> ring_append p (ss_ring s) ring' \<Longrightarrow>
    parse p = Some (rb_head_seq (ss_ring s) + 1) \<Longrightarrow>
    engine_run parse (s\<lparr>ss_ring := ring', ss_unpublished := Some p\<rparr>) es s' \<Longrightarrow> engine_run parse s (Appended p # es) s'"
| engine_publishes: "ss_unpublished s = Some p \<Longrightarrow>
    engine_run parse (s\<lparr>ss_bus := DeltaBus_Publish p (ss_bus s), ss_unpublished := None\<rparr>) es s' \<Longrightarrow>
    engine_run parse s (Published p # es) s'"

text \<open>Each update is appended and then published before the next one is touched.\<close>

definition engine_events :: "string list \<Rightarrow> wire_event list" where
  "engine_events ps = concat (map (\<lambda>p. [Appended p, Published p]) ps)"

lemma engine_run_append: "engine_run parse s es s' \<Longrightarrow> engine_run parse s' es' s'' \<Longrightarrow> engine_run parse s (es @ es') s''"
  by (induction rule: engine_run.induct) (auto intro: engine_run.intros)

text \<open>A run of the engine thread is a run of the state-stream model, so what holds of every stream there holds here.\<close>

lemma engine_run_steps: "engine_run parse s es s' \<Longrightarrow> (stream_step parse)\<^sup>*\<^sup>* s s'"
  by (induction rule: engine_run.induct)
    (auto intro: converse_rtranclp_into_rtranclp engine_push engine_publish)

lemma send_update_simulated:
  assumes send: "send_update env u gw = Inr gw'" and faithful: "wire_faithful parse env"
    and ring: "svc_ring (gw_svc gw) = Some ring" "svc_delta_bus (gw_svc gw) \<noteq> None"
    and num: "su_seq u = rb_head_seq ring + 1" "su_seq u < - 1" "ring_wf ring"
  shows "\<exists>p. parse p = Some (su_seq u) \<and> gw_wire gw' = gw_wire gw @ engine_events [p] \<and>
    engine_run parse (stream_view gw s) (engine_events [p]) (stream_view gw' s)"
proof -
  obtain bus where bus: "svc_delta_bus (gw_svc gw) = Some bus"
    using ring(2) by blast
  obtain p ring' where p: "env_serialize env u = Inr p" and push: "RingBuffer_Push (su_seq u) p ring = Inr ring'"
    and gw': "svc_ring (gw_svc gw') = Some ring'" "gw_wire gw' = gw_wire gw @ [Appended p, Published p]"
      "bus_view gw' = Some (plain_bus (DeltaBus_Publish p (bus\<lparr>bus_counters := svc_counters (gw_svc gw)\<rparr>)))"
    using send ring(1) bus
    by (auto simp: send_update_parts on_bus_def trace_def bus_view_def plain_bus_def split: sum.splits option.splits if_splits)
  have parse: "parse p = Some (su_seq u)"
    using faithful p by (simp add: wire_faithful_def)
  have append: "ring_append p ring ring'"
    using push num RingBuffer_Push_wf[OF num(3) push] by (simp add: ring_append_def)
  have "plain_bus (bus\<lparr>bus_counters := svc_counters (gw_svc gw)\<rparr>) = the (bus_view gw)"
    using bus by (simp add: bus_view_def plain_bus_def)
  then have view': "stream_view gw' s = (stream_view gw s)\<lparr>ss_ring := ring', ss_unpublished := Some p,
      ss_bus := DeltaBus_Publish p (the (bus_view gw)), ss_unpublished := None\<rparr>"
    using gw' by (simp add: stream_view_def plain_Publish)
  have "engine_run parse (stream_view gw s) [Appended p, Published p] (stream_view gw' s)"
  proof (rule engine_appends)
    show "engine_run parse ((stream_view gw s)\<lparr>ss_ring := ring', ss_unpublished := Some p\<rparr>) [Published p] (stream_view gw' s)"
      unfolding view' by (rule engine_publishes) (simp_all add: stream_view_def engine_idle)
  qed (use append parse num(1) ring(1) in \<open>simp_all add: stream_view_def\<close>)
  then show ?thesis
    using parse gw'(2) by (intro exI[of _ p]) (simp add: engine_events_def)
qed

text \<open>The updates that take a gateway from one state to a later one.\<close>

definition engine_extends :: "(string \<Rightarrow> u64 option) \<Rightarrow> stream_system \<Rightarrow> Gateway \<Rightarrow> Gateway \<Rightarrow> string list \<Rightarrow> bool" where
  "engine_extends parse s gw gw' ps \<longleftrightarrow>
     map parse ps = map (Some \<circ> of_nat) [Suc (unat (gw_seq gw))..<Suc (unat (gw_seq gw'))] \<and>
     gw_wire gw' = gw_wire gw @ engine_events ps \<and>
     engine_run parse (stream_view gw s) (engine_events ps) (stream_view gw' s)"

lemma engine_extends_refl:
  "gw_seq gw' = gw_seq gw \<Longrightarrow> gw_wire gw' = gw_wire gw \<Longrightarrow> stream_view gw' s = stream_view gw s \<Longrightarrow>
   engine_extends parse s gw gw' []"
  by (simp add: engine_extends_def engine_events_def engine_idle)

lemma engine_extends_trans:
  assumes "engine_extends parse s gw gw1 ps" "engine_extends parse s gw1 gw2 qs"
    and "unat (gw_seq gw) \<le> unat (gw_seq gw1)" "unat (gw_seq gw1) \<le> unat (gw_seq gw2)"
  shows "engine_extends parse s gw gw2 (ps @ qs)"
proof -
  have "[Suc (unat (gw_seq gw))..<Suc (unat (gw_seq gw2))] =
      [Suc (unat (gw_seq gw))..<Suc (unat (gw_seq gw1))] @ [Suc (unat (gw_seq gw1))..<Suc (unat (gw_seq gw2))]"
    using upt_add_eq_append[of "Suc (unat (gw_seq gw))" "Suc (unat (gw_seq gw1))" "unat (gw_seq gw2) - unat (gw_seq gw1)"] assms(3,4)
    by simp
  then show ?thesis
    using assms(1,2) engine_run_append by (auto simp: engine_extends_def engine_events_def simp del: upt_Suc)
qed

lemma micro_simulated:
  assumes "micro c E gw gw'" "\<forall>env \<in> E. wire_faithful parse env" "numbering_ok gw" "gw_state gw' = Healthy"
    "gw_seq gw' < - 1"
  shows "\<exists>ps. engine_extends parse s gw gw' ps"
  using assms
proof (induction rule: micro.induct)
  case (emit env gw1 gw update gw2)
  have frame: "gw_state gw2 = gw_state gw1" "gw_seq gw2 = gw_seq gw1"
    using send_update_frame[OF emit(4)] by simp_all
  have "gw_state gw = Healthy"
    using emit(2,7) frame by (simp add: core_def)
  then obtain ring where ring: "svc_ring (gw_svc gw1) = Some ring" "svc_delta_bus (gw_svc gw1) \<noteq> None" "ring_wf ring"
      "gw_seq gw1 = rb_head_seq ring + 1" "ring_contig ring" "rb_head_seq ring = gw_seq gw"
    using emit(2,6) by (auto simp: numbering_ok_def core_def bus_view_def)
  have same: "stream_view gw s = stream_view gw1 s" "gw_wire gw1 = gw_wire gw"
    using emit(2) by (simp_all add: stream_view_def core_def bus_view_def)
  obtain p where p: "parse p = Some (gw_seq gw2)" "gw_wire gw2 = gw_wire gw @ engine_events [p]"
      "engine_run parse (stream_view gw s) (engine_events [p]) (stream_view gw2 s)"
    using send_update_simulated[OF emit(4) _ ring(1,2) _ _ ring(3), of parse s] emit(1,3,5,8) ring(4) frame same by auto
  moreover have "unat (gw_seq gw2) = Suc (unat (gw_seq gw))"
    using send_update_numbering[OF ring(1,2,3,5) _ emit(4)] emit(3) ring(4,6) frame by auto
  ultimately have "engine_extends parse s gw gw2 [p]"
    using frame(2) ring(4,6) by (simp add: engine_extends_def add.commute)
  then show ?case by blast
next
  case (calm gw' gw)
  then have "engine_extends parse s gw gw' []"
    by (intro engine_extends_refl) (simp_all add: stream_view_def core_def)
  then show ?case by blast
next
  case (quiet gw n)
  have "engine_extends parse s gw (gw\<lparr>gw_frames_since_last_flush := n\<rparr>) []"
    by (intro engine_extends_refl) (simp_all add: stream_view_def bus_view_def)
  then show ?case by blast
qed (simp_all add: TransitionToDisabled_not_healthy)

lemma evolves_simulated:
  assumes "evolves c E gw gw'" "\<forall>env \<in> E. wire_faithful parse env" "numbering_ok gw" "gw_state gw' = Healthy"
    "gw_seq gw' < - 1"
  shows "\<exists>ps. engine_extends parse s gw gw' ps \<and> unat (gw_seq gw) \<le> unat (gw_seq gw')"
  using assms
proof (induction rule: rtranclp_induct)
  case base
  have "engine_extends parse s gw gw []" by (simp add: engine_extends_refl)
  then show ?case by blast
next
  case (step gw1 gw2)
  have ok1: "numbering_ok gw1"
    using evolves_numbering[OF step(1) step(5)] by simp
  then have one: "gw_state gw1 = Healthy" "unat (gw_seq gw1) \<le> unat (gw_seq gw2)"
    using micro_numbering[OF step(2)] step(6) by simp_all
  then have "gw_seq gw1 < - 1"
    using step(7) by (simp add: word_le_nat_alt[symmetric])
  then obtain ps where "engine_extends parse s gw gw1 ps" "unat (gw_seq gw) \<le> unat (gw_seq gw1)"
    using step.IH[OF step(4,5) one(1)] by blast
  moreover obtain qs where "engine_extends parse s gw1 gw2 qs"
    using micro_simulated[OF step(2,4) ok1 step(6,7)] by blast
  ultimately show ?case
    using engine_extends_trans one(2) le_trans by blast
qed

text \<open>
  C1: the gateway module implements the engine thread of the state-stream model.  Take any run of ticks, hooks and worker
  requests that ends healthy, on a wire format whose parser recovers the number of a serialized update.  There is one
  payload for each of the numbers given out, in order, and all the gateway did to its ring and bus is, for each of them
  in turn, to append it to the ring under the next number and then to publish it on the bus: its record of these actions says so, and
  its ring and bus are reached from the initial ones by exactly these engine steps, with nothing done to them in between.
\<close>

theorem gateway_refines_stream_engine:
  assumes "RingBuffer_new n = Inr ring0" "svc_ring (gw_svc gw0) = Some ring0" "svc_delta_bus (gw_svc gw0) \<noteq> None"
    and "gw_seq gw0 = 0" "gw_wire gw0 = []" "\<forall>op \<in> set ops. \<forall>env \<in> op_envs op. wire_faithful parse env"
    and "gw_state (foldl gateway_apply gw0 ops) = Healthy" "gw_seq (foldl gateway_apply gw0 ops) < - 1"
  shows "\<exists>ps. map parse ps = map (Some \<circ> of_nat) [1..<Suc (unat (gw_seq (foldl gateway_apply gw0 ops)))] \<and>
    gw_wire (foldl gateway_apply gw0 ops) = engine_events ps \<and>
    engine_run parse (stream_view gw0 s) (engine_events ps) (stream_view (foldl gateway_apply gw0 ops) s)"
proof -
  have "numbering_ok gw0"
    using assms(2-4) RingBuffer_new_wf[OF assms(1)] by (simp add: numbering_ok_def)
  moreover have "evolves True (\<Union>op \<in> set ops. op_envs op) gw0 (foldl gateway_apply gw0 ops)"
    by (rule evolves_run) blast
  ultimately have "\<exists>ps. engine_extends parse s gw0 (foldl gateway_apply gw0 ops) ps"
    using assms(6-8) evolves_simulated by blast
  then show ?thesis
    using assms(4,5) by (simp add: engine_extends_def del: upt_Suc)
qed

theorem gateway_refines_stream_engine_witness:
  "\<exists>ps. gw_wire (foldl gateway_apply sample_gateway [Op_hook sample_env (H_idle (Some 7)), Op_tick sample_env]) = engine_events ps \<and>
     engine_run sample_parse (stream_view sample_gateway sample_sent) (engine_events ps)
       (stream_view (foldl gateway_apply sample_gateway [Op_hook sample_env (H_idle (Some 7)), Op_tick sample_env]) sample_sent)"
proof -
  let ?ops = "[Op_hook sample_env (H_idle (Some 7)), Op_tick sample_env]"
  let ?gw = "foldl gateway_apply sample_gateway ?ops"
  have new: "RingBuffer_new 2 = Inr (projr (RingBuffer_new 2))"
    by (simp add: RingBuffer_new_def)
  have start: "svc_ring (gw_svc sample_gateway) = Some (projr (RingBuffer_new 2))" "svc_delta_bus (gw_svc sample_gateway) \<noteq> None"
      "gw_seq sample_gateway = 0" "gw_wire sample_gateway = []"
    by (simp_all add: sample_gateway_def SetUs1Handles_def)
  have wire: "\<forall>op \<in> set ?ops. \<forall>env \<in> op_envs op. wire_faithful sample_parse env"
    by (simp add: wire_faithful_def sample_env_def sample_parse_def)
  have final: "gw_state ?gw = Healthy" "gw_seq ?gw < - 1"
    by code_simp+
  show ?thesis
    using gateway_refines_stream_engine[OF new start wire final] by blast
qed

section \<open>Keep-alive\<close>

lemma micro_quiet: "micro False E gw gw' \<Longrightarrow> gw_frames_since_last_flush gw' = gw_frames_since_last_flush gw"
proof (induction rule: micro.induct)
  case (fault gw env s r d)
  then show ?case
    by (cases "gw_state gw = Healthy") (simp_all add: TransitionToDisabled_fault TransitionToDisabled_inert)
next
  case (emit env gw1 gw update gw2)
  then show ?case using send_update_frame(5)[OF emit(4)] by (simp add: core_def)
next
  case (emit_fails gw1 gw update env ex gw2 s r d)
  then show ?case
    using send_update_fails_frame(5)[OF emit_fails(3)]
    by (cases "gw_state gw2 = Healthy") (simp_all add: core_def TransitionToDisabled_fault TransitionToDisabled_inert)
qed (simp_all add: core_def)

lemma evolves_quiet: "evolves False E gw gw' \<Longrightarrow> gw_frames_since_last_flush gw' = gw_frames_since_last_flush gw"
  by (induction rule: rtranclp_induct) (simp_all add: micro_quiet)

text \<open>An emitter that leaves the gateway healthy has given out the next number.\<close>

lemma emitter_advances:
  assumes "numbering_ok gw" "gw_state gw = Healthy" "core gw1 = core (gw\<lparr>gw_seq := gw_seq gw + 1\<rparr>)"
    and "su_seq u = gw_seq gw1" "send_update env u gw1 = Inr gw2"
  shows "unat (gw_seq gw2) = Suc (unat (gw_seq gw))"
proof -
  obtain ring where ring: "svc_ring (gw_svc gw1) = Some ring" "svc_delta_bus (gw_svc gw1) \<noteq> None" "ring_wf ring"
      "ring_contig ring" "rb_head_seq ring = gw_seq gw"
    using assms(1-3) by (auto simp: numbering_ok_def core_def bus_view_def)
  have "gw_seq gw2 = gw_seq gw + 1" "su_seq u = rb_head_seq ring + 1"
    using send_update_frame(4)[OF assms(5)] assms(3,4) ring(5) by (simp_all add: core_def)
  then show ?thesis
    using send_update_numbering[OF ring(1-4) _ assms(5)] ring(5) by auto
qed

lemma FlushDelta_advances:
  assumes "numbering_ok gw" "gw_state gw = Healthy" "gw_state (FlushDelta env gw) = Healthy"
  shows "unat (gw_seq (FlushDelta env gw)) = Suc (unat (gw_seq gw))"
proof -
  let ?gw1 = "gw\<lparr>gw_seq := gw_seq gw + 1, gw_delta := []\<rparr>"
  let ?u = "\<lparr> su_seq = gw_seq gw + 1, su_frame = FrameForWire env, su_body = Delta_body (gw_delta gw) \<rparr>"
  obtain gw2 where send: "send_update env ?u ?gw1 = Inr gw2" and r: "FlushDelta env gw = record_flush env gw2"
    using assms(3) by (auto simp: FlushDelta_def Let_def TransitionToDisabled_not_healthy split: sum.splits)
  have "core ?gw1 = core (gw\<lparr>gw_seq := gw_seq gw + 1\<rparr>)"
    by (simp add: core_def faults_def bus_view_def)
  then show ?thesis
    using emitter_advances[OF assms(1,2) _ _ send] r by (simp add: record_flush_def)
qed

lemma EmitKeepAlive_advances:
  assumes "numbering_ok gw" "gw_state gw = Healthy" "gw_state (EmitKeepAlive env gw) = Healthy"
  shows "unat (gw_seq (EmitKeepAlive env gw)) = Suc (unat (gw_seq gw))"
proof -
  let ?gw1 = "gw\<lparr>gw_seq := gw_seq gw + 1\<rparr>"
  let ?u = "\<lparr> su_seq = gw_seq gw + 1, su_frame = FrameForWire env, su_body = Keepalive_body \<rparr>"
  obtain gw2 where send: "send_update env ?u ?gw1 = Inr gw2" and r: "EmitKeepAlive env gw = gw2"
    using assms(3) by (auto simp: EmitKeepAlive_def Let_def TransitionToDisabled_not_healthy split: sum.splits)
  then show ?thesis
    using emitter_advances[OF assms(1,2) refl _ send] by simp
qed

text \<open>A number was given out and the counter is reset, or the counter went up and is below thirty.\<close>

definition progress :: "nat \<Rightarrow> Gateway \<Rightarrow> Gateway \<Rightarrow> bool" where
  "progress n gw gw' \<longleftrightarrow> unat (gw_frames_since_last_flush gw') < 30 \<and>
     (unat (gw_seq gw) < unat (gw_seq gw') \<or>
      unat (gw_frames_since_last_flush gw') = unat (gw_frames_since_last_flush gw) + n \<and> unat (gw_seq gw) \<le> unat (gw_seq gw'))"

lemma flush_or_keepalive_progress:
  assumes "numbering_ok gw" "gw_state gw = Healthy" "gw_state (flush_or_keepalive env gw) = Healthy"
    and "unat (gw_frames_since_last_flush gw) < 30"
  shows "progress 1 gw (flush_or_keepalive env gw)"
proof (cases "gw_delta gw \<noteq> []")
  case True
  then show ?thesis
    using FlushDelta_advances[of gw env] assms(1-3) by (simp add: progress_def flush_or_keepalive_def)
next
  case False
  let ?n = "gw_frames_since_last_flush gw"
  let ?gw1 = "gw\<lparr>gw_frames_since_last_flush := ?n + 1\<rparr>"
  have n: "unat (?n + 1) = Suc (unat ?n)"
    using assms(4) by (intro unat_plus_one[of _ 30]) (simp add: word_less_nat_alt)
  show ?thesis
  proof (cases "kKeepAliveFrames \<le> ?n + 1")
    case True
    have "numbering_ok ?gw1"
      using assms(1) by (simp add: numbering_ok_def)
    then show ?thesis
      using EmitKeepAlive_advances[of ?gw1 env] assms(2,3) True False
      by (simp add: progress_def flush_or_keepalive_def Let_def)
  next
    case low: False
    then have "unat (?n + 1) < 30"
      by (simp add: kKeepAliveFrames_def word_le_nat_alt)
    then show ?thesis
      using low False n by (simp add: progress_def flush_or_keepalive_def Let_def)
  qed
qed

lemma OnFrameTick_healthy:
  assumes "gw_state (OnFrameTick env gw) = Healthy"
  obtains gwp where "gw_state gw = Healthy" "evolves False {env} gw gwp" "OnFrameTick env gw = flush_or_keepalive env gwp"
proof -
  have idle: "DrainPendingFault env gw = gw" "gw_state gw = Healthy"
    using assms TransitionToDisabled_not_healthy
    by (auto simp: OnFrameTick_def DrainPendingFault_def Let_def split: option.splits prod.splits if_splits)
  obtain gw2 where body: "tick_body env gw = (gw2, None)" "OnFrameTick env gw = gw2"
    using assms idle TransitionToDisabled_not_healthy
    by (auto simp: OnFrameTick_def Let_def split: option.splits prod.splits)
  obtain gwp ex where pre: "run_bodies (tick_prefix env) gw = (gwp, ex)"
    by (cases "run_bodies (tick_prefix env) gw")
  then have "gw2 = flush_or_keepalive env gwp"
    using body(1) by (auto simp: tick_body_split and_then_def pure_body_def split: option.splits)
  moreover have "evolves False {env} gw gwp"
    using sound_prefix[of env "{env}" False] pre by (metis fst_conv singletonI sound_body_def)
  ultimately show thesis
    using that[of gwp] idle(2) body(2) by simp
qed

lemma OnFrameTick_progress:
  assumes "numbering_ok gw" "gw_state (OnFrameTick env gw) = Healthy" "unat (gw_frames_since_last_flush gw) < 30"
  shows "progress 1 gw (OnFrameTick env gw)"
proof -
  obtain gwp where p: "gw_state gw = Healthy" "evolves False {env} gw gwp" "OnFrameTick env gw = flush_or_keepalive env gwp"
    using OnFrameTick_healthy[OF assms(2)] by blast
  have ok: "numbering_ok gwp" and quiet: "gw_frames_since_last_flush gwp = gw_frames_since_last_flush gw"
    using evolves_numbering[OF p(2) assms(1)] evolves_quiet[OF p(2)] by simp_all
  have healthy: "gw_state gwp = Healthy"
    using evolves_numbering[OF evolves_flush_or_keepalive[of env UNIV gwp] ok] assms(2) p(3) by simp
  then have "unat (gw_seq gw) \<le> unat (gw_seq gwp)"
    using evolves_numbering[OF p(2) assms(1)] by simp
  then show ?thesis
    using flush_or_keepalive_progress[OF ok healthy, of env] assms(2,3) quiet p(3) by (auto simp: progress_def)
qed

definition ticks :: "gateway_op list \<Rightarrow> nat" where
  "ticks ops = length (filter (\<lambda>op. case op of Op_tick env \<Rightarrow> True | _ \<Rightarrow> False) ops)"

lemma apply_progress:
  assumes "numbering_ok gw" "gw_state (gateway_apply gw op) = Healthy" "unat (gw_frames_since_last_flush gw) < 30"
  shows "progress (ticks [op]) gw (gateway_apply gw op)"
proof (cases op)
  case (Op_tick env)
  then show ?thesis using OnFrameTick_progress assms by (simp add: ticks_def)
next
  case (Op_hook env h)
  have e: "evolves False UNIV gw (run_hook env h gw)"
    by (simp add: evolves_run_hook)
  show ?thesis
    using evolves_numbering[OF e assms(1)] evolves_quiet[OF e] assms(2,3) Op_hook by (simp add: progress_def ticks_def)
qed (use assms in \<open>auto simp: progress_def ticks_def RequestDisable_def QueueAdminAction_submit_def InvokeCallback_submit_def\<close>)

lemma run_progress:
  assumes "numbering_ok gw" "gw_state (foldl gateway_apply gw ops) = Healthy" "unat (gw_frames_since_last_flush gw) < 30"
  shows "progress (ticks ops) gw (foldl gateway_apply gw ops)"
  using assms
proof (induction ops arbitrary: gw)
  case Nil
  then show ?case by (simp add: progress_def ticks_def)
next
  case (Cons op ops)
  let ?gw1 = "gateway_apply gw op"
  have ok1: "numbering_ok ?gw1"
    using evolves_numbering[OF evolves_apply[of op UNIV gw] Cons.prems(1)] by simp
  have healthy: "gw_state ?gw1 = Healthy"
    using evolves_numbering[OF evolves_run[of ops UNIV ?gw1] ok1] Cons.prems(2) by simp
  have one: "progress (ticks [op]) gw ?gw1"
    by (rule apply_progress[OF Cons.prems(1) healthy Cons.prems(3)])
  then have rest: "progress (ticks ops) ?gw1 (foldl gateway_apply ?gw1 ops)"
    using Cons.IH[OF ok1] Cons.prems(2) by (simp add: progress_def)
  have "ticks (op # ops) = ticks [op] + ticks ops"
    by (simp add: ticks_def)
  then show ?case
    using one rest by (auto simp: progress_def)
qed

text \<open>
  C8: a healthy gateway is never silent for thirty frames.  After any run from a gateway that has published nothing, any further
  sequence of operations with at least thirty ticks that leaves the gateway healthy publishes at least one update: the head of
  the history moves on, whatever hooks and requests come in between.
\<close>

theorem gateway_keepalive:
  assumes "RingBuffer_new n = Inr ring0" "svc_ring (gw_svc gw0) = Some ring0" "svc_delta_bus (gw_svc gw0) \<noteq> None"
    and "gw_seq gw0 = 0" "gw_frames_since_last_flush gw0 = 0"
    and "gw_state (foldl gateway_apply gw0 (ops @ later)) = Healthy" "30 \<le> ticks later"
  shows "unat (HeadSeq (foldl gateway_apply gw0 ops)) < unat (HeadSeq (foldl gateway_apply gw0 (ops @ later)))"
proof -
  let ?gw = "foldl gateway_apply gw0 ops" and ?gw' = "foldl gateway_apply (foldl gateway_apply gw0 ops) later"
  have ok0: "numbering_ok gw0"
    using assms(2-4) RingBuffer_new_wf[OF assms(1)] by (simp add: numbering_ok_def)
  have ok: "numbering_ok ?gw" "numbering_ok ?gw'"
    using evolves_numbering[OF evolves_run[of ops UNIV] ok0] evolves_numbering[OF evolves_run[of later UNIV]] by simp_all
  have healthy: "gw_state ?gw' = Healthy" "gw_state ?gw = Healthy"
    using assms(6) evolves_numbering[OF evolves_run[of later UNIV ?gw] ok(1)] by simp_all
  have "unat (gw_frames_since_last_flush ?gw) < 30"
    using run_progress[OF ok0 healthy(2)] assms(5) by (simp add: progress_def)
  then have "unat (gw_seq ?gw) < unat (gw_seq ?gw')"
    using run_progress[OF ok(1) healthy(1)] assms(7) by (auto simp: progress_def)
  moreover have "HeadSeq ?gw = gw_seq ?gw" "HeadSeq ?gw' = gw_seq ?gw'"
    using ok healthy by (auto simp: numbering_ok_def HeadSeq_def RingBuffer_HeadSeq_def)
  ultimately show ?thesis by simp
qed

theorem gateway_keepalive_witness:
  "HeadSeq (foldl gateway_apply sample_gateway (replicate 30 (Op_tick sample_env))) \<noteq> 0"
proof -
  let ?ops = "replicate 30 (Op_tick sample_env)"
  have new: "RingBuffer_new 2 = Inr (projr (RingBuffer_new 2))"
    by (simp add: RingBuffer_new_def)
  have start: "svc_ring (gw_svc sample_gateway) = Some (projr (RingBuffer_new 2))" "svc_delta_bus (gw_svc sample_gateway) \<noteq> None"
      "gw_seq sample_gateway = 0" "gw_frames_since_last_flush sample_gateway = 0"
    by (simp_all add: sample_gateway_def SetUs1Handles_def)
  have final: "gw_state (foldl gateway_apply sample_gateway ([] @ ?ops)) = Healthy"
    by code_simp
  have "30 \<le> ticks ?ops"
    by (simp add: ticks_def)
  from gateway_keepalive[OF new start final this] show ?thesis
    by auto
qed

section \<open>Command reports\<close>

definition event_identity :: "CommandDispatchEvent \<Rightarrow> u64 \<times> u64 \<times> u32 \<times> u32" where
  "event_identity ev = (cd_batch_seq ev, cd_client_command_id ev, cd_command_index ev, cd_target_unit_id ev)"

definition command_identity :: "QueuedCommand \<Rightarrow> u64 \<times> u64 \<times> u32 \<times> u32" where
  "command_identity q = (qc_batch_seq q, qc_client_command_id q, qc_command_index q, of_int (qc_target_unit_id q))"

text \<open>A report of a command: same identity, and applied to a unit only when the unit was alive.\<close>

definition reports :: "tick_env \<Rightarrow> QueuedCommand \<Rightarrow> CommandDispatchEvent \<Rightarrow> bool" where
  "reports env q ev \<longleftrightarrow> event_identity ev = command_identity q \<and>
     (cd_status ev = COMMAND_DISPATCH_APPLIED \<and> \<not> IsGameWideCommand (qc_command q) \<and> 0 < qc_target_unit_id q \<longrightarrow>
        map_of (env_team_units env) (qc_target_unit_id q) = Some False)"

lemma TransitionToDisabled_keeps:
  "gw_delta (TransitionToDisabled env s r d gw) = gw_delta gw"
  "svc_command_queue (gw_svc (TransitionToDisabled env s r d gw)) = svc_command_queue (gw_svc gw)"
  by (auto simp: TransitionToDisabled_def FaultCloseAllStreams_def evict_all_def on_bus_def trace_def unlink_if_set_def Let_def
      split: option.splits)

lemma drain_one_report:
  assumes "drain_one env q gw = (gw', continue)"
  shows "(\<exists>ev. gw_delta gw' = gw_delta gw @ [Command_dispatch ev] \<and> reports env q ev) \<and>
    svc_command_queue (gw_svc gw') = svc_command_queue (gw_svc gw) \<and> (\<not> continue \<longrightarrow> gw_state gw' \<noteq> Healthy)"
proof -
  note [simp] = dispatch_event_def add_event_def reports_def event_identity_def command_identity_def trace_def
    TransitionToDisabled_keeps TransitionToDisabled_not_healthy
  show ?thesis
  proof (cases "EffectiveDispatchTargetUnitId (qc_target_unit_id q) (qc_command q)")
    case None
    then show ?thesis using assms by (auto simp: drain_one_def not_dispatched_issue_def)
  next
    case (Some target)
    then have target: "\<not> IsGameWideCommand (qc_command q) \<Longrightarrow> target = qc_target_unit_id q"
      by (auto simp: EffectiveDispatchTargetUnitId_def split: if_splits)
    show ?thesis
    proof (cases "dispatch_context env target")
      case (Inl a)
      then have "fst a \<noteq> COMMAND_DISPATCH_APPLIED"
        by (auto simp: dispatch_context_def split: if_splits option.splits list.splits)
      then show ?thesis using assms Some Inl by (auto simp: drain_one_def split: prod.splits)
    next
      case (Inr u)
      then have alive: "0 < target \<Longrightarrow> map_of (env_team_units env) target = Some False"
        by (auto simp: dispatch_context_def split: if_splits option.splits)
      show ?thesis
        using assms Some Inr alive target
        by (auto simp: drain_one_def Let_def split: prod.splits option.splits bool.splits if_splits)
    qed
  qed
qed

lemma drain_entries_reports:
  "\<exists>evs. gw_delta (drain_entries env qs gw) = gw_delta gw @ map Command_dispatch evs \<and>
     list_all2 (reports env) (take (length evs) qs) evs \<and>
     svc_command_queue (gw_svc (drain_entries env qs gw)) = svc_command_queue (gw_svc gw) \<and>
     (length evs = length qs \<or> gw_state (drain_entries env qs gw) \<noteq> Healthy)"
proof (induction qs arbitrary: gw)
  case Nil
  then show ?case by simp
next
  case (Cons q qs)
  obtain gw1 continue where one: "drain_one env q gw = (gw1, continue)"
    by (cases "drain_one env q gw")
  then obtain ev where ev: "gw_delta gw1 = gw_delta gw @ [Command_dispatch ev]" "reports env q ev"
      "svc_command_queue (gw_svc gw1) = svc_command_queue (gw_svc gw)" "\<not> continue \<longrightarrow> gw_state gw1 \<noteq> Healthy"
    using drain_one_report by blast
  show ?case
  proof (cases continue)
    case True
    obtain evs where evs: "gw_delta (drain_entries env qs gw1) = gw_delta gw1 @ map Command_dispatch evs"
        "list_all2 (reports env) (take (length evs) qs) evs"
        "svc_command_queue (gw_svc (drain_entries env qs gw1)) = svc_command_queue (gw_svc gw1)"
        "length evs = length qs \<or> gw_state (drain_entries env qs gw1) \<noteq> Healthy"
      using Cons.IH[of gw1] by blast
    show ?thesis
      using one True ev evs by (intro exI[of _ "ev # evs"]) auto
  next
    case False
    then show ?thesis
      using one ev by (intro exI[of _ "[ev]"]) auto
  qed
qed

text \<open>
  C7: every drained command is reported.  Draining takes all queued commands and appends to the frame's delta one report per
  command, in order, with the identity the client gave it; a command bound to a unit is reported as applied only if the
  unit was there and alive.  Reports are missing only if a dispatch threw, and then the gateway is no longer healthy.
\<close>

theorem DrainCommandQueue_reports:
  assumes "svc_command_queue (gw_svc gw) = Some q"
  shows "\<exists>evs q'. gw_delta (DrainCommandQueue env gw) = gw_delta gw @ map Command_dispatch evs \<and>
    list_all2 (reports env) (take (length evs) (cq_queue q)) evs \<and>
    svc_command_queue (gw_svc (DrainCommandQueue env gw)) = Some q' \<and> cq_queue q' = [] \<and>
    (length evs = length (cq_queue q) \<or> gw_state (DrainCommandQueue env gw) \<noteq> Healthy)"
proof -
  obtain svc' batch n where d: "on_queue (CommandQueue_Drain (Some []) 0) q (gw_svc gw) = (svc', batch, n)"
    by (cases "on_queue (CommandQueue_Drain (Some []) 0) q (gw_svc gw)")
  then have batch: "the batch = cq_queue q" "\<exists>q'. svc_command_queue svc' = Some q' \<and> cq_queue q' = []"
    by (auto simp: on_queue_eq CommandQueue_Drain_def store_depth_def Let_def)
  have run: "DrainCommandQueue env gw = drain_entries env (cq_queue q) (gw\<lparr>gw_svc := svc'\<rparr>)"
    using assms d batch(1) by (simp add: DrainCommandQueue_def)
  show ?thesis
    unfolding run using drain_entries_reports[of env "cq_queue q" "gw\<lparr>gw_svc := svc'\<rparr>"] batch(2) by auto
qed

text \<open>A gateway with one command for a live unit and one for a missing unit in its queue.\<close>

definition sample_busy_gateway :: Gateway where
  "sample_busy_gateway = sample_gateway\<lparr>gw_svc := (gw_svc sample_gateway)\<lparr>svc_command_queue := Some
     (fst (CommandQueue_TryPushBatch (batch_children (sample_moves [sample_move 7 4]) ''s'' @
        batch_children ((sample_moves [sample_move 9 4])\<lparr>cb_target_unit_id := 9\<rparr>) ''s'') (CommandQueue_new None 4)))\<rparr>\<rparr>"

theorem DrainCommandQueue_reports_witness:
  "\<exists>evs. gw_delta (DrainCommandQueue sample_env sample_busy_gateway) = map Command_dispatch evs \<and>
     map cd_target_unit_id evs = [7, 9]"
proof -
  obtain q where q: "svc_command_queue (gw_svc sample_busy_gateway) = Some q"
    by (simp add: sample_busy_gateway_def)
  have len: "map qc_target_unit_id (cq_queue q) = [7, 9]"
  proof -
    have "map_option (\<lambda>q. map qc_target_unit_id (cq_queue q)) (svc_command_queue (gw_svc sample_busy_gateway)) = Some [7, 9]"
      by code_simp
    then show ?thesis by (simp add: q)
  qed
  have healthy: "gw_state (DrainCommandQueue sample_env sample_busy_gateway) = Healthy"
    by code_simp
  obtain evs where evs: "gw_delta (DrainCommandQueue sample_env sample_busy_gateway) = gw_delta sample_busy_gateway @ map Command_dispatch evs"
      "list_all2 (reports sample_env) (take (length evs) (cq_queue q)) evs" "length evs = length (cq_queue q)"
    using DrainCommandQueue_reports[OF q, of sample_env] healthy by auto
  have "map cd_target_unit_id evs = map (of_int \<circ> qc_target_unit_id) (cq_queue q)"
    using evs(2,3) by (auto simp: list_all2_conv_all_nth reports_def event_identity_def command_identity_def intro!: nth_equalityI)
  also have "\<dots> = [7, 9]"
    using arg_cong[OF len, of "map of_int"] by simp
  finally show ?thesis
    using evs(1) by (auto simp: sample_busy_gateway_def sample_gateway_def)
qed

section \<open>Admin actions that time out\<close>

text \<open>
  C33: giving up waiting does not withdraw an admin action.  When the worker's wait times out the caller is told that the action was
  not dispatched, and to retry after the next snapshot; but the action stays queued, and the next drain on the engine thread applies it to
  the engine and records it as executed.
\<close>

theorem admin_timeout_still_executes:
  assumes "gw_state gw = Healthy" "gw_pending_admin gw = []"
    and "ar_status (AdminController_Validate (gw_admin gw) caller action (gw_current_frame gw) (HeadSeq gw)) = ADMIN_ACTION_ACCEPTED"
    and "ApplyAdminAction (env_admin env) (aa_action action) = (calls, Some True)"
  shows "\<exists>gw1 gw2 r. QueueAdminAction_submit caller action gw = (gw1, None) \<and>
    ar_status (QueueAdminAction_wait action None gw1) = ADMIN_ACTION_NOT_DISPATCHED \<and>
    DrainAdminActionQueue env gw1 = (gw2, None) \<and>
    gw_trace gw2 = gw_trace gw @ [Admin_calls calls, Admin_completed action r] \<and> ar_status r = ADMIN_ACTION_EXECUTED"
proof -
  let ?gw1 = "gw\<lparr>gw_pending_admin := [(caller, action)]\<rparr>"
  have head: "HeadSeq (gw\<lparr>gw_pending_admin := []\<rparr>) = HeadSeq gw"
    by (simp add: HeadSeq_def)
  obtain adm r where exec: "AdminController_Execute caller action (gw_current_frame gw) (HeadSeq gw) (gw_admin gw) = (adm, r)"
    by (cases "AdminController_Execute caller action (gw_current_frame gw) (HeadSeq gw) (gw_admin gw)")
  then have r: "ar_status r = ADMIN_ACTION_EXECUTED"
    using assms(3) by (auto simp: AdminController_Execute_def Let_def split: if_splits)
  have "QueueAdminAction_submit caller action gw = (?gw1, None)"
    using assms(1,2) by (simp add: QueueAdminAction_submit_def)
  moreover have "ar_status (QueueAdminAction_wait action None ?gw1) = ADMIN_ACTION_NOT_DISPATCHED"
    by (simp add: QueueAdminAction_wait_def not_dispatched_def admin_result_def)
  moreover have "DrainAdminActionQueue env ?gw1 =
      (trace (Admin_completed action r) (trace (Admin_calls calls) (gw\<lparr>gw_pending_admin := [], gw_admin := adm\<rparr>)), None)"
    using assms(3,4) exec head by (simp add: DrainAdminActionQueue_def run_admin_action_def and_then_def Let_def)
  ultimately show ?thesis
    using r by (intro exI[of _ ?gw1] exI exI[of _ r]) (auto simp: trace_def)
qed

definition sample_pause :: AdminAction where
  "sample_pause = \<lparr> aa_action_seq = 1, aa_client_action_id = 2, aa_based_on_frame = 0, aa_based_on_state_seq = 0,
     aa_conflict_policy = ADMIN_CONFLICT_POLICY_UNSPECIFIED, aa_reason = [], aa_action = Pause True \<rparr>"

theorem admin_timeout_still_executes_witness:
  "\<exists>gw1 gw2 r. QueueAdminAction_submit \<lparr> ac_identity = ''op'', ac_role = ADMIN_ROLE_OPERATOR \<rparr> sample_pause sample_gateway = (gw1, None) \<and>
     DrainAdminActionQueue sample_env gw1 = (gw2, None) \<and> Admin_completed sample_pause r \<in> set (gw_trace gw2) \<and>
     ar_status r = ADMIN_ACTION_EXECUTED"
proof -
  let ?op = "\<lparr> ac_identity = ''op'', ac_role = ADMIN_ROLE_OPERATOR \<rparr>"
  have start: "gw_state sample_gateway = Healthy" "gw_pending_admin sample_gateway = []"
    by (simp_all add: sample_gateway_def)
  have ok: "ar_status (AdminController_Validate (gw_admin sample_gateway) ?op sample_pause (gw_current_frame sample_gateway)
      (HeadSeq sample_gateway)) = ADMIN_ACTION_ACCEPTED"
    by code_simp
  have applied: "ApplyAdminAction (env_admin sample_env) (aa_action sample_pause) =
      ([Engine_call (Game_SetPause True ''via highbar admin'')], Some True)"
    by (simp add: ApplyAdminAction_def sample_env_def sample_pause_def sample_engine_def Let_def)
  obtain gw1 gw2 r where run: "QueueAdminAction_submit ?op sample_pause sample_gateway = (gw1, None)"
      "DrainAdminActionQueue sample_env gw1 = (gw2, None)" "ar_status r = ADMIN_ACTION_EXECUTED"
      "gw_trace gw2 = gw_trace sample_gateway @ [Admin_calls [Engine_call (Game_SetPause True ''via highbar admin'')],
         Admin_completed sample_pause r]"
    using admin_timeout_still_executes[OF start ok applied] by blast
  then have "Admin_completed sample_pause r \<in> set (gw_trace gw2)"
    by simp
  then show ?thesis
    using run by blast
qed

end
