(* ===== verification/Gateway_Start.thy ===== *)
theory Gateway_Start
  imports Gateway_Safety
begin

text \<open>
  How a gateway comes up and goes down (module/GrpcGatewayModule.cpp): where the token and health files live, the
  autohost port, the constructor that wires the components together, and the destructor.  The lemmas show
  that a constructed gateway satisfies what the run-time invariants start from.
\<close>

section \<open>Paths and ports\<close>

definition kMarker :: string where
  "kMarker = ''$writeDir/''"

text \<open>\<open>locate\<close> is the engine's search in its write directories.\<close>

definition ResolveTokenPath ::
    "(string \<Rightarrow> string option) \<Rightarrow> (string \<Rightarrow> string option) \<Rightarrow> string \<Rightarrow> string" where
  "ResolveTokenPath getenv locate template =
    (case getenv ''HIGHBAR_TOKEN_PATH'' of
       Some (c # cs) \<Rightarrow> c # cs
     | _ \<Rightarrow>
        if take (length kMarker) template \<noteq> kMarker then template
        else (case locate (drop (length kMarker) template) of
            Some path \<Rightarrow> path
          | None \<Rightarrow> (case getenv ''TMPDIR'' of Some t \<Rightarrow> t | None \<Rightarrow> ''/tmp'') @ ''/highbar.token''))"

definition health_file_for :: "string \<Rightarrow> string" where
  "health_file_for token_path = (case rfind_char (CHR ''/'') token_path of
       Some slash \<Rightarrow> take (slash + 1) token_path @ ''highbar.health''
     | None \<Rightarrow> ''highbar.health'')"

definition is_digit :: "char \<Rightarrow> bool" where
  "is_digit c \<longleftrightarrow> 48 \<le> (of_char c :: nat) \<and> (of_char c :: nat) \<le> 57"

definition is_space :: "char \<Rightarrow> bool" where
  "is_space c \<longleftrightarrow> (of_char c :: nat) = 32 \<or> 9 \<le> (of_char c :: nat) \<and> (of_char c :: nat) \<le> 13"

definition digits_value :: "string \<Rightarrow> int" where
  "digits_value ds = foldl (\<lambda>n c. 10 * n + (int (of_char c) - 48)) 0 ds"

text \<open>
  \<open>strtol\<close> in base 10: the value and the unread rest, or none when there is no number.  A value out of the range of
  \<open>long\<close> saturates with an error, which the caller's own range check subsumes.
\<close>

definition strtol :: "string \<Rightarrow> (int \<times> string) option" where
  "strtol s =
    (let t = dropWhile is_space s;
         neg = (t \<noteq> [] \<and> hd t = CHR ''-'');
         u = (if t \<noteq> [] \<and> (hd t = CHR ''-'' \<or> hd t = CHR ''+'') then tl t else t);
         ds = takeWhile is_digit u in
     if ds = [] then None
     else Some ((if neg then - digits_value ds else digits_value ds), dropWhile is_digit u))"

definition autohost_port :: "(string \<Rightarrow> string option) \<Rightarrow> nat option" where
  "autohost_port getenv = (case getenv ''HIGHBAR_AUTOHOST_PORT'' of
       None \<Rightarrow> None
     | Some s \<Rightarrow>
        if s = [] then None else
        (case strtol s of
           Some (n, []) \<Rightarrow> if n \<le> 0 \<or> 65535 < n then None else Some (nat n)
         | _ \<Rightarrow> None))"

text \<open>The datagrams sent and the result; \<open>sendto\<close> answers with the number of bytes taken.\<close>

definition SendAutohostCommandDatagrams ::
    "(string \<Rightarrow> string option) \<Rightarrow> bool \<Rightarrow> (string \<Rightarrow> int) \<Rightarrow> string list \<Rightarrow> (nat \<times> string) list \<times> bool" where
  "SendAutohostCommandDatagrams getenv socket_ok sendto commands = (case autohost_port getenv of
       None \<Rightarrow> ([], False)
     | Some port \<Rightarrow>
        if \<not> socket_ok then ([], False)
        else (map (Pair port) commands, list_all (\<lambda>c. sendto c = int (length c)) commands))"

definition CoordinatorOwnerSkirmishAiId :: "(string \<Rightarrow> string option) \<Rightarrow> int" where
  "CoordinatorOwnerSkirmishAiId getenv = (case getenv ''HIGHBAR_COORDINATOR_OWNER_SKIRMISH_AI_ID'' of
       None \<Rightarrow> 0
     | Some s \<Rightarrow> (case strtol s of Some (n, rest) \<Rightarrow> n | None \<Rightarrow> 0))"

section \<open>Construction and destruction\<close>

record start_env =
  se_getenv :: "string \<Rightarrow> string option"
  se_parse :: "string \<Rightarrow> string + JsonDoc"
  se_config :: "string option"
  se_skirmish_id :: int
  se_locate :: "string \<Rightarrow> string option"
  se_token_script :: TokenScript
  se_health_script :: HealthScript
  se_pid :: int
  se_files :: file_system
  se_ai :: CircuitAI
  se_inet4 :: "string \<Rightarrow> u32 option"
  se_inet6 :: "string \<Rightarrow> u8 list option"
  se_started :: bool

datatype start_error = Start_exception cpp_exception | Bind_failed bind_error

text \<open>The default capacity of the command queue.\<close>

definition kQueueCapacity :: nat where
  "kQueueCapacity = 1024"

text \<open>The service with its handles, before it is bound.\<close>

definition wire_service :: "CircuitAI \<Rightarrow> RingBuffer \<Rightarrow> HighBarService" where
  "wire_service ai ring =
    SetSnapshotHandle (Some \<lparr> gh_state = Healthy, gh_current_frame = 0, gh_pending_snapshot = False \<rparr>)
     (SetAdminService True
       (SetUs2Handles (Some (CommandQueue_new (Some Counters_new) kQueueCapacity))
         (SetUs1Handles True (Some (DeltaBus_new (Some Counters_new))) (Some ring) True
           (HighBarService_new (Some ai) (Some Counters_new)))))"

definition gateway_up :: "TransportEndpoint \<Rightarrow> string \<Rightarrow> string \<Rightarrow> HighBarService \<Rightarrow> bool \<Rightarrow> string \<Rightarrow> Gateway" where
  "gateway_up endpoint socket_path token_path svc deferred client_endpoint =
    \<lparr> gw_state = Healthy, gw_pending_fault = None, gw_delta = [], gw_seq = 0, gw_frames_since_last_flush = 0,
      gw_frame_counter = 0, gw_current_frame = 0,
      gw_snapshot_tick = SnapshotTick_Configure (te_cadence_frames endpoint) (te_max_units endpoint) SnapshotTick_default,
      gw_svc = svc, gw_orders = (\<lambda>_. None), gw_admin = AdminController_new AdminSettings_default,
      gw_pending_admin = [], gw_pending_callbacks = [],
      gw_deferred_bind = (if deferred then Some endpoint else None), gw_service_bound = (\<not> deferred),
      gw_client = False, gw_client_endpoint = client_endpoint, gw_initial_snapshot_sent = False,
      gw_socket_path = socket_path, gw_token_path = token_path, gw_health_path = health_file_for token_path,
      gw_trace = [], gw_wire = [] \<rparr>"

text \<open>
  The end of the constructor, from the ring on: the components, then the bind, which waits for the first
  live frame when a coordinator is configured.
\<close>

definition start_service ::
    "start_env \<Rightarrow> TransportEndpoint \<Rightarrow> string \<Rightarrow> string \<Rightarrow> start_error + Gateway" where
  "start_service env endpoint socket_path token_path =
    (case RingBuffer_new (unat (te_ring_size endpoint)) of
       Inl e \<Rightarrow> Inl (Start_exception e)
     | Inr ring \<Rightarrow>
        (let svc = wire_service (se_ai env) ring in
         case se_getenv env ''HIGHBAR_COORDINATOR'' of
           Some coordinator \<Rightarrow>
             Inr (gateway_up endpoint socket_path token_path svc True
               (if se_skirmish_id env = CoordinatorOwnerSkirmishAiId (se_getenv env) then coordinator else []))
         | None \<Rightarrow>
             (case Bind (se_inet4 env) (se_inet6 env) (se_started env) endpoint svc of
                (_, Inl err) \<Rightarrow> Inl (Bind_failed err)
              | (svc', Inr uri) \<Rightarrow> Inr (gateway_up endpoint socket_path token_path svc' False []))))"

definition resolve_endpoint :: "start_env \<Rightarrow> TransportEndpoint \<Rightarrow> TransportEndpoint \<times> string" where
  "resolve_endpoint env endpoint =
    (if te_transport endpoint = kUds
     then ResolveUdsPath (se_getenv env) (Some (se_skirmish_id env)) endpoint else (endpoint, []))"

text \<open>
  The constructor: the module or the exception it rethrows, and the file system it leaves.  None when
  the token generation does not return.
\<close>

definition CGrpcGatewayModule_new :: "start_env \<Rightarrow> ((start_error + Gateway) \<times> file_system) option" where
  "CGrpcGatewayModule_new env =
    (case LoadTransportConfig (se_parse env) (se_config env) of
       Inl e \<Rightarrow> Some (Inl (Start_exception e), se_files env)
     | Inr configured \<Rightarrow>
        (let (endpoint, socket_path) = resolve_endpoint env configured;
             token_path = ResolveTokenPath (se_getenv env) (se_locate env) (te_ai_token_path endpoint) in
         case AuthToken_Generate (se_token_script env) token_path (se_files env) of
           None \<Rightarrow> None
         | Some (Inl e, states) \<Rightarrow> Some (Inl (Start_exception e), last states)
         | Some (Inr token, states) \<Rightarrow>
            Some (start_service env endpoint socket_path token_path,
              last (snd (WriteHealthFile (se_health_script env) (health_file_for token_path) True [] [] [] 0
                (se_pid env) (last states))))))"

text \<open>The destructor: shut the service down, remove the token, then destroy the service.\<close>

definition CGrpcGatewayModule_destroy :: "Gateway \<Rightarrow> file_system \<Rightarrow> file_system \<times> destruction" where
  "CGrpcGatewayModule_destroy gw fs =
    (let svc = Shutdown (gw_svc gw) in (AuthToken_Unlink (gw_token_path gw) fs, HighBarService_destroy svc))"

section \<open>What a start establishes\<close>

lemma wire_service_simps [simp]:
  "svc_ring (wire_service ai ring) = Some ring"
  "svc_delta_bus (wire_service ai ring) = Some (DeltaBus_new (Some Counters_new))"
  "svc_workers (wire_service ai ring) = 0" "\<not> svc_server (wire_service ai ring)"
  "\<not> svc_shutting_down (wire_service ai ring)"
  by (simp_all add: wire_service_def SetSnapshotHandle_def SetAdminService_def SetUs2Handles_def SetUs1Handles_def
      HighBarService_new_def Let_def)

lemma Bind_Inr_fields:
  "Bind inet4 inet6 started endpoint svc = (svc', Inr uri) \<Longrightarrow>
   svc' = svc\<lparr>svc_cq := True, svc_server := True, svc_workers := svc_workers svc + 1\<rparr>"
  by (auto simp: Bind_def split: if_splits option.splits)

lemma CGrpcGatewayModule_new_started:
  assumes "CGrpcGatewayModule_new env = Some (Inr gw, fs)"
  obtains endpoint socket_path token_path where "start_service env endpoint socket_path token_path = Inr gw"
  using assms by (auto simp: CGrpcGatewayModule_new_def Let_def split: sum.splits option.splits prod.splits)

lemma start_service_cases:
  assumes "start_service env endpoint socket_path token_path = Inr gw"
  obtains (deferred) ring coordinator client where
      "RingBuffer_new (unat (te_ring_size endpoint)) = Inr ring" "se_getenv env ''HIGHBAR_COORDINATOR'' = Some coordinator"
      "gw = gateway_up endpoint socket_path token_path (wire_service (se_ai env) ring) True client"
  | (bound) ring where
      "RingBuffer_new (unat (te_ring_size endpoint)) = Inr ring" "se_getenv env ''HIGHBAR_COORDINATOR'' = None"
      "gw = gateway_up endpoint socket_path token_path
        ((wire_service (se_ai env) ring)\<lparr>svc_cq := True, svc_server := True, svc_workers := 1\<rparr>) False []"
  using assms
  by (auto simp: start_service_def Let_def split: sum.splits option.splits prod.splits dest!: Bind_Inr_fields)

text \<open>A constructed gateway satisfies what the run-time invariants of the gateway start from.\<close>

lemma CGrpcGatewayModule_new_fresh:
  assumes "CGrpcGatewayModule_new env = Some (Inr gw, fs)"
  shows "gw_state gw = Healthy \<and> faults gw = [] \<and> gw_seq gw = 0 \<and> gw_frames_since_last_flush gw = 0 \<and>
    svc_delta_bus (gw_svc gw) \<noteq> None \<and> (\<exists>n ring. RingBuffer_new n = Inr ring \<and> svc_ring (gw_svc gw) = Some ring) \<and>
    \<not> svc_shutting_down (gw_svc gw)"
proof -
  obtain endpoint socket_path token_path where "start_service env endpoint socket_path token_path = Inr gw"
    using CGrpcGatewayModule_new_started[OF assms] .
  then show ?thesis
    by (cases rule: start_service_cases) (auto simp: gateway_up_def faults_def)
qed

text \<open>Only a port number between 1 and 65535 is ever sent to.\<close>

lemma SendAutohostCommandDatagrams_ports:
  "(port, d) \<in> set (fst (SendAutohostCommandDatagrams getenv ok sendto cmds)) \<Longrightarrow> 0 < port \<and> port \<le> 65535 \<and> d \<in> set cmds"
  by (auto simp: SendAutohostCommandDatagrams_def autohost_port_def
      split: option.splits if_splits prod.splits list.splits)

lemma TransitionToDisabled_svc:
  "gw_state gw = Healthy \<Longrightarrow> gw_svc (TransitionToDisabled env s r d gw) = FaultCloseAllStreams (gw_svc gw)"
  by (simp add: TransitionToDisabled_def Let_def trace_def unlink_if_set_def)

text \<open>
  C32: a fault of the gateway makes its own teardown fatal.  A gateway that was constructed in server mode is
  destroyed cleanly.  Once it has gone through \<open>TransitionToDisabled\<close>, its destructor ends the process with
  \<open>std::terminate\<close>: the fault path has set the shutdown flag, so \<open>Shutdown\<close> returns at once and the worker thread is
  destroyed while still joinable.
\<close>

theorem fault_then_destroy_terminates:
  assumes "CGrpcGatewayModule_new env = Some (Inr gw, fs)" "se_getenv env ''HIGHBAR_COORDINATOR'' = None"
  shows "CGrpcGatewayModule_destroy gw fs = (AuthToken_Unlink (gw_token_path gw) fs, Destroyed) \<and>
    snd (CGrpcGatewayModule_destroy (TransitionToDisabled tick subsystem reason detail gw) fs') = Std_terminate"
proof -
  obtain endpoint socket_path token_path where start: "start_service env endpoint socket_path token_path = Inr gw"
    using CGrpcGatewayModule_new_started[OF assms(1)] .
  have "gw_state gw = Healthy" "svc_server (gw_svc gw)" "0 < svc_workers (gw_svc gw)" "\<not> svc_shutting_down (gw_svc gw)"
    using start assms(2) by (cases rule: start_service_cases; simp add: gateway_up_def)+
  then show ?thesis
    by (simp add: CGrpcGatewayModule_destroy_def Let_def TransitionToDisabled_svc Shutdown_then_destroy
        fault_close_then_destroy)
qed

definition sample_start :: start_env where
  "sample_start = \<lparr> se_getenv = (\<lambda>_. None), se_parse = (\<lambda>_. Inl []), se_config = None, se_skirmish_id = 0,
     se_locate = (\<lambda>_. Some ''w/highbar.token''),
     se_token_script = \<lparr> ts_random = [Rand_bytes (replicate 32 7)], ts_open_error = None, ts_writes = [Io_done 65],
       ts_fsync_error = None, ts_rename_error = None \<rparr>,
     se_health_script = \<lparr> hs_open_ok = True, hs_written = length (health_body True [] [] [] 0 9), hs_flush_ok = True,
       hs_close_ok = True, hs_rename_ok = True \<rparr>,
     se_pid = 9, se_files = (\<lambda>_. None), se_ai = sample_ai, se_inet4 = (\<lambda>_. None), se_inet6 = (\<lambda>_. None),
     se_started = True \<rparr>"

lemma sample_start_token:
  "\<exists>states. AuthToken_Generate (se_token_script sample_start) ''w/highbar.token'' (\<lambda>_. None) =
     Some (Inr (HexEncode (replicate 32 7)), states)"
  by (simp add: sample_start_def AuthToken_Generate_def fill_random_simps write_loop_simps kTokenBytes_def Let_def
      eval_nat_numeral)

text \<open>A start of the sample with the default configuration, with or without a server.\<close>

lemma sample_start_service:
  fixes b
  defines "env \<equiv> sample_start\<lparr>se_started := b\<rparr>"
  obtains endpoint socket_path fs where "te_ring_size endpoint = 2048" "te_transport endpoint = kUds"
    "CGrpcGatewayModule_new env = Some (start_service env endpoint socket_path ''w/highbar.token'', fs)"
proof -
  obtain endpoint socket_path where e: "resolve_endpoint env TransportEndpoint_default = (endpoint, socket_path)"
    by fastforce
  then have fields: "te_ring_size endpoint = 2048" "te_transport endpoint = kUds"
      "te_ai_token_path endpoint = ''$writeDir/highbar.token''"
    by (auto simp: resolve_endpoint_def ResolveUdsPath_def TransportEndpoint_default_def Let_def split: if_splits)
  obtain states where states: "AuthToken_Generate (se_token_script env) ''w/highbar.token'' (se_files env) =
      Some (Inr (HexEncode (replicate 32 7)), states)"
    using sample_start_token by (auto simp: env_def sample_start_def)
  have "ResolveTokenPath (se_getenv env) (se_locate env) (te_ai_token_path endpoint) = ''w/highbar.token''"
    by (simp add: fields env_def ResolveTokenPath_def sample_start_def kMarker_def)
  moreover have "LoadTransportConfig (se_parse env) (se_config env) = Inr TransportEndpoint_default"
    by (simp add: LoadTransportConfig_def env_def sample_start_def)
  ultimately show ?thesis
    using that fields states e by (simp add: CGrpcGatewayModule_new_def Let_def)
qed

theorem fault_then_destroy_terminates_witness:
  "\<exists>gw fs. CGrpcGatewayModule_new sample_start = Some (Inr gw, fs) \<and>
     snd (CGrpcGatewayModule_destroy (TransitionToDisabled sample_env ''handler'' ''oom'' ''x'' gw) fs) = Std_terminate"
proof -
  have env: "sample_start\<lparr>se_started := True\<rparr> = sample_start" by (simp add: sample_start_def)
  obtain endpoint socket_path fs where e: "te_ring_size endpoint = 2048" "te_transport endpoint = kUds"
      and new: "CGrpcGatewayModule_new sample_start = Some (start_service sample_start endpoint socket_path ''w/highbar.token'', fs)"
    using sample_start_service[of True] unfolding env by metis
  obtain gw where "start_service sample_start endpoint socket_path ''w/highbar.token'' = Inr gw"
    using e by (simp add: start_service_def RingBuffer_new_def Let_def Bind_def sample_start_def)
  then have new': "CGrpcGatewayModule_new sample_start = Some (Inr gw, fs)" using new by simp
  have "se_getenv sample_start ''HIGHBAR_COORDINATOR'' = None" by (simp add: sample_start_def)
  from fault_then_destroy_terminates[OF new' this] new' show ?thesis by blast
qed

lemma health_written:
  assumes "hs_open_ok sc" "hs_written sc = length (health_body healthy sub r d frame pid)" "hs_flush_ok sc" "hs_close_ok sc"
    "hs_rename_ok sc" "path \<noteq> []"
  shows "last (snd (WriteHealthFile sc path healthy sub r d frame pid fs)) path = Some (health_body healthy sub r d frame pid)"
  using assms by (simp add: WriteHealthFile_def Let_def)

lemma health_file_for_nonempty [simp]: "health_file_for token_path \<noteq> []"
  by (simp add: health_file_for_def split: option.splits)

lemma resolve_endpoint_token [simp]:
  "resolve_endpoint env cfg = (endpoint, socket_path) \<Longrightarrow> te_ai_token_path endpoint = te_ai_token_path cfg"
  by (auto simp: resolve_endpoint_def ResolveUdsPath_def Let_def split: if_splits)

text \<open>
  C34: the healthy marker does not mean that the gateway started.  The constructor writes it before it binds the
  service and does not take it back: when the bind fails, the constructor throws and the file beside the token
  says healthy, provided that its writes succeeded.
\<close>

theorem failed_start_leaves_healthy_marker:
  assumes "CGrpcGatewayModule_new env = Some (Inl (Bind_failed err), fs)"
    and "LoadTransportConfig (se_parse env) (se_config env) = Inr cfg"
    and "hs_open_ok (se_health_script env)" "hs_flush_ok (se_health_script env)" "hs_close_ok (se_health_script env)"
    and "hs_rename_ok (se_health_script env)"
    and "hs_written (se_health_script env) = length (health_body True [] [] [] 0 (se_pid env))"
  shows "fs (health_file_for (ResolveTokenPath (se_getenv env) (se_locate env) (te_ai_token_path cfg))) =
    Some (health_body True [] [] [] 0 (se_pid env))"
  using assms(1,2) health_written[OF assms(3,7,4,5,6) health_file_for_nonempty]
  by (auto simp: CGrpcGatewayModule_new_def Let_def split: sum.splits option.splits prod.splits)

theorem failed_start_leaves_healthy_marker_witness:
  "\<exists>err fs. CGrpcGatewayModule_new (sample_start\<lparr>se_started := False\<rparr>) = Some (Inl (Bind_failed err), fs) \<and>
     fs ''w/highbar.health'' = Some (health_body True [] [] [] 0 9)"
proof -
  let ?env = "sample_start\<lparr>se_started := False\<rparr>"
  obtain endpoint socket_path fs where e: "te_ring_size endpoint = 2048" "te_transport endpoint = kUds"
      and new: "CGrpcGatewayModule_new ?env = Some (start_service ?env endpoint socket_path ''w/highbar.token'', fs)"
    using sample_start_service[of False] by metis
  obtain err where err: "CGrpcGatewayModule_new ?env = Some (Inl (Bind_failed err), fs)"
    using e new by (simp add: start_service_def RingBuffer_new_def Let_def Bind_def sample_start_def)
  have "LoadTransportConfig (se_parse ?env) (se_config ?env) = Inr TransportEndpoint_default"
    by (simp add: LoadTransportConfig_def sample_start_def)
  from failed_start_leaves_healthy_marker[OF err this]
  have "fs (health_file_for ''w/highbar.token'') = Some (health_body True [] [] [] 0 9)"
    by (simp add: sample_start_def ResolveTokenPath_def kMarker_def TransportEndpoint_default_def)
  moreover have "health_file_for ''w/highbar.token'' = ''w/highbar.health''" by code_simp
  ultimately show ?thesis using err by metis
qed

end
