(* ===== verification/Log_Records.thy ===== *)
theory Log_Records
  imports Grpc_Log
begin

text \<open>
  The records the gateway writes to the engine's log (grpc/GrpcLog.cpp, the functions before \<open>ReasonCodeFor\<close>).  Each is one
  line, or nothing without an AI instance; a string argument is cut at its first zero byte, as \<open>%s\<close> does.
\<close>

definition kPrefix :: string where
  "kPrefix = ''[hb-gateway]''"

definition log_line :: "bool \<Rightarrow> string list \<Rightarrow> string option" where
  "log_line ai parts = (if ai then Some (kPrefix @ concat parts) else None)"

definition LogStartup :: "bool \<Rightarrow> string \<Rightarrow> string \<Rightarrow> string \<Rightarrow> string option" where
  "LogStartup ai transport bind_address schema_version = log_line ai
     ['' startup transport='', c_str transport, '' bind='', c_str bind_address, '' schema='', c_str schema_version]"

definition LogShutdown :: "bool \<Rightarrow> u32 \<Rightarrow> string option" where
  "LogShutdown ai frames_since_bind = log_line ai ['' shutdown frames_since_bind='', string_of_nat (unat frames_since_bind)]"

definition LogConnect :: "bool \<Rightarrow> string \<Rightarrow> string \<Rightarrow> string \<Rightarrow> string option" where
  "LogConnect ai session_id peer role = log_line ai
     ['' connect session='', c_str session_id, '' peer='', c_str peer, '' role='', c_str role]"

definition LogDisconnect :: "bool \<Rightarrow> string \<Rightarrow> string \<Rightarrow> string option" where
  "LogDisconnect ai session_id reason = log_line ai ['' disconnect session='', c_str session_id, '' reason='', c_str reason]"

definition LogAuthReject :: "bool \<Rightarrow> string \<Rightarrow> string \<Rightarrow> string option" where
  "LogAuthReject ai peer rpc_name = log_line ai ['' auth-reject peer='', c_str peer, '' rpc='', c_str rpc_name]"

definition LogSlowConsumerEviction :: "bool \<Rightarrow> string \<Rightarrow> u64 \<Rightarrow> string option" where
  "LogSlowConsumerEviction ai session_id dropped_count = log_line ai
     ['' eviction session='', c_str session_id, '' reason=slow-consumer dropped='', string_of_nat (unat dropped_count)]"

definition LogError :: "bool \<Rightarrow> string \<Rightarrow> string \<Rightarrow> string option" where
  "LogError ai location what = log_line ai ['' error where='', c_str location, '' what='', c_str what]"

text \<open>The dash of the message is one character of three bytes.\<close>

definition LogFatalAndFailClosed :: "bool \<Rightarrow> string \<Rightarrow> string \<Rightarrow> string option" where
  "LogFatalAndFailClosed ai location what = log_line ai ['' fatal where='', c_str location, '' what='', c_str what,
     '' '' @ [CHR 0xE2, CHR 0x80, CHR 0x94] @ '' failing closed (FR-003a)'']"

definition LogFault :: "bool \<Rightarrow> string \<Rightarrow> string \<Rightarrow> string \<Rightarrow> u32 \<Rightarrow> int \<Rightarrow> string option" where
  "LogFault ai subsystem reason detail frame pid = log_line ai
     ['' fault subsystem='', c_str subsystem, '' reason='', c_str reason, '' detail='' @ [CHR 0x22], c_str (JsonEscape detail),
      [CHR 0x22] @ '' schema=highbar.v1 pid='', string_of_int pid, '' frame='', string_of_nat (unat frame)]"

section \<open>One fault, one line\<close>

lemma c_str_printable: "(\<And>x. x \<in> set s \<Longrightarrow> 0x20 \<le> (of_char x :: nat)) \<Longrightarrow> c_str s = s"
  by (force simp: c_str_def takeWhile_eq_all_conv)

lemma c_str_JsonEscape [simp]: "c_str (JsonEscape s) = JsonEscape s"
  by (rule c_str_printable) (rule JsonEscape_printable)

text \<open>
  Whatever the detail of a fault contains, its record is a single line: no byte of it is a control
  character, as long as the subsystem and the reason, which the gateway chooses, have none.
\<close>

lemma LogFault_single_line:
  assumes "\<And>x. x \<in> set subsystem \<union> set reason \<Longrightarrow> 0x20 \<le> (of_char x :: nat)"
    and "LogFault ai subsystem reason detail frame pid = Some line" "x \<in> set line"
  shows "0x20 \<le> (of_char x :: nat)"
proof -
  have "c_str subsystem = subsystem" "c_str reason = reason"
    using assms(1) by (auto intro!: c_str_printable)
  then show ?thesis
    using assms by (auto simp: LogFault_def log_line_def kPrefix_def split: if_splits
        dest: JsonEscape_printable string_of_nat_printable string_of_int_printable)
qed

end
