(* ===== verification/Admin_Service.thy ===== *)
theory Admin_Service
  imports Auth
begin

text \<open>
  The admin RPC service (grpc/AdminService.cpp) around the controller: its clocks and execution function, and the three calls it
  keeps pending on the completion queue.  Each call replaces itself when a client uses it, so one of each kind is always waiting.
\<close>

section \<open>State\<close>

text \<open>The functions the gateway installs; none before it has.\<close>

record AdminService =
  asv_controller :: "AdminController option"
  asv_frame_fn :: "u32 option"
  asv_state_seq_fn :: "u64 option"
  asv_execute_fn :: "(AdminCaller \<Rightarrow> AdminAction \<Rightarrow> AdminController \<Rightarrow> AdminController \<times> AdminActionResult) option"

definition AdminService_new :: "AdminController option \<Rightarrow> AdminService" where
  "AdminService_new controller = \<lparr> asv_controller = controller, asv_frame_fn = None, asv_state_seq_fn = None, asv_execute_fn = None \<rparr>"

text \<open>The clocks are read when a call is handled; the model keeps their current values.\<close>

definition SetClock :: "u32 \<Rightarrow> u64 \<Rightarrow> AdminService \<Rightarrow> AdminService" where
  "SetClock frame state_seq svc = svc\<lparr>asv_frame_fn := Some frame, asv_state_seq_fn := Some state_seq\<rparr>"

definition SetExecutionFn ::
    "(AdminCaller \<Rightarrow> AdminAction \<Rightarrow> AdminController \<Rightarrow> AdminController \<times> AdminActionResult) \<Rightarrow> AdminService \<Rightarrow> AdminService" where
  "SetExecutionFn f svc = svc\<lparr>asv_execute_fn := Some f\<rparr>"

definition Admin_CurrentFrame :: "AdminService \<Rightarrow> u32" where
  "Admin_CurrentFrame svc = (case asv_frame_fn svc of Some f \<Rightarrow> f | None \<Rightarrow> 0)"

definition Admin_CurrentStateSeq :: "AdminService \<Rightarrow> u64" where
  "Admin_CurrentStateSeq svc = (case asv_state_seq_fn svc of Some n \<Rightarrow> n | None \<Rightarrow> 0)"

definition Admin_ExpireLeases :: "AdminService \<Rightarrow> AdminService" where
  "Admin_ExpireLeases svc = svc\<lparr>asv_controller := map_option (AdminController_ExpireLeases (Admin_CurrentFrame svc)) (asv_controller svc)\<rparr>"

section \<open>Calls\<close>

datatype admin_rpc = Get_capabilities | Validate_action | Execute_action

text \<open>A pending or answered call; the answered one waits for its completion.\<close>

record admin_call_data =
  acd_rpc :: admin_rpc
  acd_finishing :: bool

datatype admin_reply =
    Capabilities_reply "AdminCapabilitiesResponse option"
  | Action_reply AdminActionResult
  | Not_wired

definition admin_call_new :: "admin_rpc \<Rightarrow> admin_call_data" where
  "admin_call_new rpc = \<lparr> acd_rpc = rpc, acd_finishing = False \<rparr>"

definition Admin_Start :: "admin_call_data list" where
  "Admin_Start = map admin_call_new [Get_capabilities, Validate_action, Execute_action]"

text \<open>Without a controller the capabilities are an empty message.\<close>

definition GetCapabilities_Proceed :: "AdminService \<Rightarrow> admin_reply" where
  "GetCapabilities_Proceed svc = Capabilities_reply (map_option AdminController_Capabilities (asv_controller svc))"

definition admin_answer :: "AdminService \<Rightarrow> admin_rpc \<Rightarrow> AdminCaller \<Rightarrow> AdminAction \<Rightarrow> AdminService \<times> admin_reply" where
  "admin_answer svc rpc caller action = (case rpc of
       Get_capabilities \<Rightarrow> (svc, GetCapabilities_Proceed svc)
     | Validate_action \<Rightarrow>
        (svc, case ValidateAction_Proceed caller action (Admin_CurrentFrame svc) (Admin_CurrentStateSeq svc) (asv_controller svc) of
            None \<Rightarrow> Not_wired | Some r \<Rightarrow> Action_reply r)
     | Execute_action \<Rightarrow>
        (case ExecuteAction_Proceed (asv_execute_fn svc) caller action (Admin_CurrentFrame svc) (Admin_CurrentStateSeq svc)
            (asv_controller svc) of
           (adm, r) \<Rightarrow> (svc\<lparr>asv_controller := adm\<rparr>, case r of None \<Rightarrow> Not_wired | Some r' \<Rightarrow> Action_reply r')))"

text \<open>
  \<open>Proceed\<close> of the call at position \<open>i\<close>: a finished call, or one whose wait failed, is deleted; otherwise a replacement is
  queued and the call is answered.
\<close>

definition Admin_Proceed ::
    "nat \<Rightarrow> bool \<Rightarrow> AdminCaller \<Rightarrow> AdminAction \<Rightarrow> AdminService \<times> admin_call_data list \<Rightarrow>
     (AdminService \<times> admin_call_data list) \<times> admin_reply option" where
  "Admin_Proceed i ok caller action s = (case s of (svc, calls) \<Rightarrow>
     if acd_finishing (calls ! i) \<or> \<not> ok then ((svc, take i calls @ drop (Suc i) calls), None)
     else (case admin_answer svc (acd_rpc (calls ! i)) caller action of (svc', r) \<Rightarrow>
       ((svc', calls[i := (calls ! i)\<lparr>acd_finishing := True\<rparr>] @ [admin_call_new (acd_rpc (calls ! i))]), Some r)))"

section \<open>One call of each kind is waiting\<close>

definition pending_calls :: "admin_rpc \<Rightarrow> admin_call_data list \<Rightarrow> nat" where
  "pending_calls rpc calls = length (filter (\<lambda>c. acd_rpc c = rpc \<and> \<not> acd_finishing c) calls)"

lemma pending_simps [simp]:
  "pending_calls rpc [] = 0" "pending_calls rpc (xs @ ys) = pending_calls rpc xs + pending_calls rpc ys"
  "pending_calls rpc (c # cs) = (if acd_rpc c = rpc \<and> \<not> acd_finishing c then 1 else 0) + pending_calls rpc cs"
  by (simp_all add: pending_calls_def)

lemma Admin_Proceed_pending:
  assumes "i < length calls" "ok \<or> acd_finishing (calls ! i)"
  shows "pending_calls rpc (snd (fst (Admin_Proceed i ok caller action (svc, calls)))) = pending_calls rpc calls"
proof -
  obtain xs c ys where calls: "calls = xs @ c # ys" "length xs = i"
    using assms(1) id_take_nth_drop[OF assms(1)] by (metis length_take min.absorb4)
  then show ?thesis
    using assms(2) by (cases "admin_answer svc (acd_rpc c) caller action") (auto simp: Admin_Proceed_def admin_call_new_def)
qed

text \<open>
  While the completion queue is open, every completion leaves exactly one call of each kind waiting for a client.
\<close>

lemma Admin_always_listening:
  "pending_calls rpc Admin_Start = 1"
  "i < length calls \<Longrightarrow> pending_calls rpc calls = 1 \<Longrightarrow>
   pending_calls rpc (snd (fst (Admin_Proceed i True caller action (svc, calls)))) = 1"
proof -
  show "pending_calls rpc Admin_Start = 1" by (cases rpc) (simp_all add: Admin_Start_def admin_call_new_def)
qed (simp add: Admin_Proceed_pending)

text \<open>Only an execution changes the service.\<close>

lemma admin_answer_reads:
  "rpc \<noteq> Execute_action \<Longrightarrow> fst (admin_answer svc rpc caller action) = svc"
  by (cases rpc) (simp_all add: admin_answer_def)

end
