(* ===== verification/Snapshot_Builder.thy ===== *)
theory Snapshot_Builder
  imports Commands
begin

text \<open>
  The snapshot of the world that a state stream starts from (grpc/SnapshotBuilder.cpp) and its message
  (proto/highbar/state.proto).  The engine's objects are records of what their accessors return; a null pointer is none.  The static
  map is cached on first use; \<open>static_do\<close> is that first use by several threads, line by line.
\<close>

section \<open>What the engine returns\<close>

text \<open>A unit definition: its number, and the health of the engine's definition when there is one.\<close>

record circuit_def =
  cdef_id :: int
  cdef_health :: "proto_float option"

record unit_wrapper =
  uw_health :: proto_float
  uw_being_built :: bool
  uw_build_progress :: proto_float

record team_unit =
  tu_def :: "circuit_def option"
  tu_position :: Vector3
  tu_unit :: "unit_wrapper option"

record enemy_unit =
  en_def :: "circuit_def option"
  en_in_los :: bool
  en_position :: Vector3
  en_health :: proto_float

record feature_def =
  fd_id :: int
  fd_metal :: proto_float
  fd_energy :: proto_float

record map_feature =
  mf_id :: int
  mf_position :: Vector3
  mf_def :: "feature_def option"

record economy_manager =
  em_metal_res :: bool
  em_energy_res :: bool
  em_metal :: proto_float
  em_metal_store :: proto_float
  em_energy :: proto_float
  em_energy_store :: proto_float

record world =
  w_last_frame :: int
  w_team_id :: int
  w_team_units :: "(int \<times> team_unit option) list"
  w_enemy_manager :: "(int \<times> enemy_unit option) list option"
  w_callback :: "map_feature option list option"
  w_economy :: "economy_manager option"
  w_metal_spots :: "Vector3 list option"

section \<open>The message\<close>

record OwnUnit =
  ou_unit_id :: u32
  ou_def_id :: u32
  ou_position :: Vector3
  ou_health :: proto_float
  ou_max_health :: proto_float
  ou_under_construction :: bool
  ou_build_progress :: proto_float
  ou_team_id :: int

datatype LosQuality = LOS_UNSPECIFIED | LOS_VISUAL | LOS_RADAR

record EnemyUnit =
  eu_unit_id :: u32
  eu_def_id :: u32
  eu_position :: Vector3
  eu_health :: proto_float
  eu_max_health :: proto_float
  eu_los_quality :: LosQuality
  eu_team_id :: int

record RadarBlip =
  rb_blip_id :: u32
  rb_position :: Vector3
  rb_suspected_def_id :: u32

record MapFeature =
  mfe_feature_id :: u32
  mfe_def_id :: u32
  mfe_position :: Vector3
  mfe_reclaim_metal :: proto_float
  mfe_reclaim_energy :: proto_float

record TeamEconomy =
  ec_metal :: proto_float
  ec_metal_income :: proto_float
  ec_metal_storage :: proto_float
  ec_energy :: proto_float
  ec_energy_income :: proto_float
  ec_energy_storage :: proto_float

record StaticMap =
  sm_width_cells :: u32
  sm_height_cells :: u32
  sm_metal_spots :: "Vector3 list"
  sm_start_positions :: "Vector3 list"
  sm_heightmap :: string

record StateSnapshot =
  ss_frame_number :: u32
  ss_own_units :: "OwnUnit list"
  ss_visible_enemies :: "EnemyUnit list"
  ss_radar_enemies :: "RadarBlip list"
  ss_map_features :: "MapFeature list"
  ss_economy :: "TeamEconomy option"
  ss_static_map :: "StaticMap option"
  ss_effective_cadence_frames :: u32

definition StateSnapshot_new :: StateSnapshot where
  "StateSnapshot_new = \<lparr> ss_frame_number = 0, ss_own_units = [], ss_visible_enemies = [], ss_radar_enemies = [],
     ss_map_features = [], ss_economy = None, ss_static_map = None, ss_effective_cadence_frames = 0 \<rparr>"

definition StaticMap_new :: StaticMap where
  "StaticMap_new = \<lparr> sm_width_cells = 0, sm_height_cells = 0, sm_metal_spots = [], sm_start_positions = [], sm_heightmap = [] \<rparr>"

section \<open>Filling\<close>

definition Builder_FrameForWire :: "world option \<Rightarrow> u32" where
  "Builder_FrameForWire ai = (case ai of None \<Rightarrow> 0
     | Some w \<Rightarrow> if 0 \<le> w_last_frame w then of_int (w_last_frame w) else 0)"

definition def_id_of :: "circuit_def option \<Rightarrow> u32" where
  "def_id_of d = (case d of Some c \<Rightarrow> of_int (cdef_id c) | None \<Rightarrow> 0)"

definition def_health_of :: "circuit_def option \<Rightarrow> proto_float \<Rightarrow> proto_float" where
  "def_health_of d otherwise = (case d of
       Some c \<Rightarrow> (case cdef_health c of Some h \<Rightarrow> h | None \<Rightarrow> otherwise) | None \<Rightarrow> otherwise)"

definition own_unit :: "world \<Rightarrow> int \<Rightarrow> team_unit \<Rightarrow> OwnUnit" where
  "own_unit w unit_id u =
    (let health = (case tu_unit u of Some su \<Rightarrow> uw_health su | None \<Rightarrow> f_zero);
         max_hp = def_health_of (tu_def u) health in
     \<lparr> ou_unit_id = of_int unit_id, ou_def_id = def_id_of (tu_def u), ou_position = tu_position u, ou_health = health,
       ou_max_health = (if f_less f_zero max_hp then max_hp else health),
       ou_under_construction = (case tu_unit u of Some su \<Rightarrow> uw_being_built su | None \<Rightarrow> False),
       ou_build_progress = (case tu_unit u of Some su \<Rightarrow> uw_build_progress su | None \<Rightarrow> f_zero),
       ou_team_id = w_team_id w \<rparr>)"

definition FillOwnUnits :: "world \<Rightarrow> StateSnapshot \<Rightarrow> StateSnapshot" where
  "FillOwnUnits w snap = fold (\<lambda>(unit_id, unit) out.
     (case unit of None \<Rightarrow> out | Some u \<Rightarrow> out\<lparr>ss_own_units := ss_own_units out @ [own_unit w unit_id u]\<rparr>))
     (w_team_units w) snap"

definition visible_enemy :: "int \<Rightarrow> enemy_unit \<Rightarrow> EnemyUnit" where
  "visible_enemy enemy_id e = \<lparr> eu_unit_id = of_int enemy_id, eu_def_id = def_id_of (en_def e), eu_position = en_position e,
     eu_health = en_health e, eu_max_health = def_health_of (en_def e) (en_health e), eu_los_quality = LOS_VISUAL,
     eu_team_id = -1 \<rparr>"

definition radar_blip :: "int \<Rightarrow> enemy_unit \<Rightarrow> RadarBlip" where
  "radar_blip enemy_id e = \<lparr> rb_blip_id = of_int enemy_id, rb_position = en_position e, rb_suspected_def_id = def_id_of (en_def e) \<rparr>"

definition fill_enemy :: "int \<times> enemy_unit option \<Rightarrow> StateSnapshot \<Rightarrow> StateSnapshot" where
  "fill_enemy entry out = (case entry of (enemy_id, eu) \<Rightarrow> (case eu of
       None \<Rightarrow> out
     | Some e \<Rightarrow>
        if en_in_los e then out\<lparr>ss_visible_enemies := ss_visible_enemies out @ [visible_enemy enemy_id e]\<rparr>
        else out\<lparr>ss_radar_enemies := ss_radar_enemies out @ [radar_blip enemy_id e]\<rparr>))"

definition FillEnemies :: "world \<Rightarrow> StateSnapshot \<Rightarrow> StateSnapshot" where
  "FillEnemies w snap = (case w_enemy_manager w of None \<Rightarrow> snap | Some enemies \<Rightarrow> fold fill_enemy enemies snap)"

definition feature_message :: "economy_manager \<Rightarrow> map_feature \<Rightarrow> MapFeature" where
  "feature_message em f = (case mf_def f of
       None \<Rightarrow> \<lparr> mfe_feature_id = of_int (mf_id f), mfe_def_id = 0, mfe_position = mf_position f,
         mfe_reclaim_metal = f_zero, mfe_reclaim_energy = f_zero \<rparr>
     | Some d \<Rightarrow> \<lparr> mfe_feature_id = of_int (mf_id f), mfe_def_id = of_int (fd_id d), mfe_position = mf_position f,
         mfe_reclaim_metal = (if em_metal_res em then fd_metal d else f_zero),
         mfe_reclaim_energy = (if em_energy_res em then fd_energy d else f_zero) \<rparr>)"

definition FillFeatures :: "world \<Rightarrow> StateSnapshot \<Rightarrow> StateSnapshot" where
  "FillFeatures w snap = (case (w_callback w, w_economy w) of
       (Some features, Some em) \<Rightarrow> fold (\<lambda>f out. (case f of
            None \<Rightarrow> out | Some x \<Rightarrow> out\<lparr>ss_map_features := ss_map_features out @ [feature_message em x]\<rparr>)) features snap
     | _ \<Rightarrow> snap)"

definition FillEconomy :: "world \<Rightarrow> StateSnapshot \<Rightarrow> StateSnapshot" where
  "FillEconomy w snap = (case w_economy w of
       None \<Rightarrow> snap
     | Some em \<Rightarrow> snap\<lparr>ss_economy := Some \<lparr> ec_metal = em_metal em, ec_metal_income = f_zero, ec_metal_storage = em_metal_store em,
         ec_energy = em_energy em, ec_energy_income = f_zero, ec_energy_storage = em_energy_store em \<rparr>\<rparr>)"

text \<open>The map is filled by appending to the message it is given.\<close>

definition FillStaticMap :: "world option \<Rightarrow> StaticMap \<Rightarrow> StaticMap" where
  "FillStaticMap ai out = (case ai of
       None \<Rightarrow> out
     | Some w \<Rightarrow> out\<lparr> sm_metal_spots := sm_metal_spots out @ (case w_metal_spots w of Some spots \<Rightarrow> spots | None \<Rightarrow> []),
         sm_width_cells := 0, sm_height_cells := 0 \<rparr>)"

definition BuildIncremental :: "world option \<Rightarrow> StateSnapshot" where
  "BuildIncremental ai = (case ai of
       None \<Rightarrow> StateSnapshot_new
     | Some w \<Rightarrow> FillEconomy w (FillFeatures w (FillEnemies w (FillOwnUnits w
         (StateSnapshot_new\<lparr>ss_frame_number := Builder_FrameForWire ai\<rparr>)))))"

text \<open>The cache: the message and the flag.\<close>

record SnapshotBuilder =
  sb_static_map_cache :: StaticMap
  sb_static_map_cached :: bool

definition SnapshotBuilder_new :: SnapshotBuilder where
  "SnapshotBuilder_new = \<lparr> sb_static_map_cache = StaticMap_new, sb_static_map_cached = False \<rparr>"

definition Builder_StaticMap :: "world option \<Rightarrow> SnapshotBuilder \<Rightarrow> SnapshotBuilder \<times> StaticMap" where
  "Builder_StaticMap ai b =
    (let b1 = (if \<not> sb_static_map_cached b
               then b\<lparr>sb_static_map_cache := FillStaticMap ai (sb_static_map_cache b), sb_static_map_cached := True\<rparr> else b) in
     (b1, sb_static_map_cache b1))"

definition Builder_Build :: "world option \<Rightarrow> SnapshotBuilder \<Rightarrow> SnapshotBuilder \<times> StateSnapshot" where
  "Builder_Build ai b = (case Builder_StaticMap ai b of (b1, m) \<Rightarrow> (b1, (BuildIncremental ai)\<lparr>ss_static_map := Some m\<rparr>))"


section \<open>What a snapshot contains\<close>

lemma append_fold_own:
  "ss_own_units (fold (\<lambda>(i, u) out. (case u of None \<Rightarrow> out | Some v \<Rightarrow> out\<lparr>ss_own_units := ss_own_units out @ [f i v]\<rparr>)) xs s) =
   ss_own_units s @ [f i v. (i, Some v) \<leftarrow> xs]"
  by (induction xs arbitrary: s) (auto split: option.splits)

lemma fold_keeps: "(\<And>x s. x \<in> set xs \<Longrightarrow> g (h x s) = g s) \<Longrightarrow> g (fold h xs s) = g s"
  by (induction xs arbitrary: s) auto

lemma fill_enemy_fold:
  "ss_visible_enemies (fold fill_enemy xs s) = ss_visible_enemies s @ [visible_enemy i e. (i, Some e) \<leftarrow> xs, en_in_los e]"
  "ss_radar_enemies (fold fill_enemy xs s) = ss_radar_enemies s @ [radar_blip i e. (i, Some e) \<leftarrow> xs, \<not> en_in_los e]"
  "ss_own_units (fold fill_enemy xs s) = ss_own_units s" "ss_frame_number (fold fill_enemy xs s) = ss_frame_number s"
  by (induction xs arbitrary: s) (auto simp: fill_enemy_def split: option.splits)

lemma FillOwnUnits_fields [simp]:
  "ss_own_units (FillOwnUnits w s) = ss_own_units s @ [own_unit w i u. (i, Some u) \<leftarrow> w_team_units w]"
  "ss_visible_enemies (FillOwnUnits w s) = ss_visible_enemies s" "ss_radar_enemies (FillOwnUnits w s) = ss_radar_enemies s"
  "ss_frame_number (FillOwnUnits w s) = ss_frame_number s"
  unfolding FillOwnUnits_def
  by (rule append_fold_own, (rule fold_keeps, auto split: option.splits)+)

lemma FillEnemies_fields [simp]:
  "ss_visible_enemies (FillEnemies w s) = ss_visible_enemies s @
     [visible_enemy i e. (i, Some e) \<leftarrow> (case w_enemy_manager w of Some xs \<Rightarrow> xs | None \<Rightarrow> []), en_in_los e]"
  "ss_radar_enemies (FillEnemies w s) = ss_radar_enemies s @
     [radar_blip i e. (i, Some e) \<leftarrow> (case w_enemy_manager w of Some xs \<Rightarrow> xs | None \<Rightarrow> []), \<not> en_in_los e]"
  "ss_own_units (FillEnemies w s) = ss_own_units s" "ss_frame_number (FillEnemies w s) = ss_frame_number s"
  by (simp_all add: FillEnemies_def fill_enemy_fold split: option.splits)

lemma FillFeatures_fields [simp]:
  "ss_own_units (FillFeatures w s) = ss_own_units s" "ss_visible_enemies (FillFeatures w s) = ss_visible_enemies s"
  "ss_radar_enemies (FillFeatures w s) = ss_radar_enemies s" "ss_frame_number (FillFeatures w s) = ss_frame_number s"
  unfolding FillFeatures_def by (auto split: option.splits intro!: fold_keeps)

lemma FillEconomy_fields [simp]:
  "ss_own_units (FillEconomy w s) = ss_own_units s" "ss_visible_enemies (FillEconomy w s) = ss_visible_enemies s"
  "ss_radar_enemies (FillEconomy w s) = ss_radar_enemies s" "ss_frame_number (FillEconomy w s) = ss_frame_number s"
  by (simp_all add: FillEconomy_def split: option.splits)

text \<open>
  A snapshot describes every unit the engine knows, once.  The own units are the team's units in order, without the null
  entries.  Every known enemy is listed exactly once: as a visible enemy with its health when it is in sight, otherwise as a radar blip,
  which carries neither health nor team.
\<close>

theorem BuildIncremental_lists_units:
  "ss_own_units (BuildIncremental (Some w)) = [own_unit w i u. (i, Some u) \<leftarrow> w_team_units w] \<and>
   (let enemies = [(i, e). (i, Some e) \<leftarrow> (case w_enemy_manager w of Some xs \<Rightarrow> xs | None \<Rightarrow> [])] in
    ss_visible_enemies (BuildIncremental (Some w)) = map (\<lambda>(i, e). visible_enemy i e) (filter (en_in_los \<circ> snd) enemies) \<and>
    ss_radar_enemies (BuildIncremental (Some w)) = map (\<lambda>(i, e). radar_blip i e) (filter (Not \<circ> en_in_los \<circ> snd) enemies) \<and>
    length (ss_visible_enemies (BuildIncremental (Some w))) + length (ss_radar_enemies (BuildIncremental (Some w))) =
      length enemies)"
proof -
  define xs where "xs = (case w_enemy_manager w of Some xs \<Rightarrow> xs | None \<Rightarrow> [])"
  have vis: "[visible_enemy i e. (i, Some e) \<leftarrow> xs, en_in_los e] =
      map (\<lambda>(i, e). visible_enemy i e) (filter (en_in_los \<circ> snd) [(i, e). (i, Some e) \<leftarrow> xs])"
    by (induction xs) (auto split: option.splits)
  have rad: "[radar_blip i e. (i, Some e) \<leftarrow> xs, \<not> en_in_los e] =
      map (\<lambda>(i, e). radar_blip i e) (filter (Not \<circ> en_in_los \<circ> snd) [(i, e). (i, Some e) \<leftarrow> xs])"
    by (induction xs) (auto split: option.splits)
  show ?thesis
    unfolding Let_def BuildIncremental_def option.case xs_def[symmetric]
    using sum_length_filter_compl[of "en_in_los \<circ> snd" "[(i, e). (i, Some e) \<leftarrow> xs]"]
    by (simp add: StateSnapshot_new_def vis rad xs_def[symmetric] comp_def)
qed

section \<open>The first use of the static map by several threads\<close>

text \<open>The lines of \<open>StaticMap\<close>: the test, the filling, the flag.  Readers hold the state lock in shared mode only.\<close>

datatype static_pc = S_test | S_fill | S_flag | S_done

definition static_do :: "world option \<Rightarrow> nat \<Rightarrow> SnapshotBuilder \<times> static_pc list \<Rightarrow> SnapshotBuilder \<times> static_pc list" where
  "static_do ai i s = (case s of (b, pcs) \<Rightarrow> (case pcs ! i of
       S_test \<Rightarrow> (b, pcs[i := if sb_static_map_cached b then S_done else S_fill])
     | S_fill \<Rightarrow> (b\<lparr>sb_static_map_cache := FillStaticMap ai (sb_static_map_cache b)\<rparr>, pcs[i := S_flag])
     | S_flag \<Rightarrow> (b\<lparr>sb_static_map_cached := True\<rparr>, pcs[i := S_done])
     | S_done \<Rightarrow> (b, pcs)))"

text \<open>One thread alone runs the same lines as \<open>Builder_StaticMap\<close>.\<close>

lemma static_do_alone:
  "fst ((static_do ai 0 ^^ 3) (b, [S_test])) = fst (Builder_StaticMap ai b)"
  by (simp add: eval_nat_numeral static_do_def Builder_StaticMap_def Let_def)

text \<open>
  C38: two first readers of the static map corrupt the cache.  When two threads ask for the map before it is cached, an
  interleaving in which both test the flag before either sets it fills the same message twice: every metal spot is then listed
  twice, in this answer and in every later one.
\<close>

theorem StaticMap_race_doubles_spots:
  assumes "w_metal_spots w = Some spots"
  shows "\<exists>schedule b pcs. fold (static_do (Some w)) schedule (SnapshotBuilder_new, [S_test, S_test]) = (b, pcs) \<and>
    pcs = [S_done, S_done] \<and> sm_metal_spots (snd (Builder_StaticMap (Some w') b)) = spots @ spots"
  using assms
  by (intro exI[of _ "[0, 1, 0, 1, 0, 1]"])
    (simp add: static_do_def FillStaticMap_def SnapshotBuilder_new_def StaticMap_new_def Builder_StaticMap_def Let_def)

definition sample_world :: world where
  "sample_world = \<lparr> w_last_frame = 3, w_team_id = 0, w_team_units = [], w_enemy_manager = None, w_callback = None,
     w_economy = None, w_metal_spots = Some [\<lparr> vx = f_one, vy = f_zero, vz = f_zero \<rparr>] \<rparr>"

theorem StaticMap_race_doubles_spots_witness:
  "\<exists>schedule b. fold (static_do (Some sample_world)) schedule (SnapshotBuilder_new, [S_test, S_test]) = (b, [S_done, S_done]) \<and>
     length (sm_metal_spots (snd (Builder_StaticMap (Some sample_world) b))) = 2"
proof -
  have "w_metal_spots sample_world = Some [\<lparr> vx = f_one, vy = f_zero, vz = f_zero \<rparr>]" by (simp add: sample_world_def)
  from StaticMap_race_doubles_spots[OF this, of sample_world] show ?thesis by fastforce
qed

end
