(* ===== verification/Job_Scheduler.thy ===== *)
theory Job_Scheduler
  imports Multi_Queue
begin

text \<open>
  The engine-thread side of the job scheduler (scheduler/Scheduler.h, scheduler/Scheduler.cpp), which is what calls the
  gateway's frame tick.  A job is an opaque value that is compared by identity.  What a job does to the scheduler
  while it runs is a parameter: the calls it makes, which may depend on the frame and on how many jobs ran before.  The
  loops walk lists that grow while they are walked, so they are partial functions; the theorems say when they return.
\<close>

section \<open>State\<close>

datatype 'j job_call =
    Call_run_at 'j int
  | Call_run_after 'j int
  | Call_run_every 'j int int
  | Call_remove 'j
  | Call_run_on_init 'j
  | Call_run_on_release 'j
  | Call_remove_release 'j

text \<open>The trace \<open>sch_ran\<close> lists the jobs in the order in which they were run.\<close>

record 'j Scheduler =
  sch_last_frame :: int
  sch_processing :: bool
  sch_once :: "('j \<times> int) list"
  sch_repeat :: "('j \<times> int \<times> int) list"
  sch_remove :: "'j list"
  sch_finish :: "'j list"
  sch_init :: "'j list"
  sch_release :: "'j list"
  sch_ran :: "'j list"

definition Scheduler_new :: "'j Scheduler" where
  "Scheduler_new = \<lparr> sch_last_frame = 0, sch_processing = False, sch_once = [], sch_repeat = [], sch_remove = [],
     sch_finish = [], sch_init = [], sch_release = [], sch_ran = [] \<rparr>"

section \<open>Registration\<close>

definition RunJobAt :: "'j \<Rightarrow> int \<Rightarrow> 'j Scheduler \<Rightarrow> 'j Scheduler" where
  "RunJobAt task frame s = s\<lparr>sch_once := sch_once s @ [(task, frame)]\<rparr>"

definition RunJobAfter :: "'j \<Rightarrow> int \<Rightarrow> 'j Scheduler \<Rightarrow> 'j Scheduler" where
  "RunJobAfter task frame s = s\<lparr>sch_once := sch_once s @ [(task, sch_last_frame s + frame)]\<rparr>"

definition RunJobEvery :: "'j \<Rightarrow> int \<Rightarrow> int \<Rightarrow> 'j Scheduler \<Rightarrow> 'j Scheduler" where
  "RunJobEvery task interval offset s =
    s\<lparr>sch_repeat := sch_repeat s @ [(task, interval, sch_last_frame s - interval + offset)]\<rparr>"

text \<open>\<open>std::list::remove\<close> compares containers by their job.\<close>

definition remove_tasks :: "'j \<Rightarrow> 'j Scheduler \<Rightarrow> 'j Scheduler" where
  "remove_tasks task s = s
     \<lparr> sch_once := filter (\<lambda>(t, f). t \<noteq> task) (sch_once s),
       sch_repeat := filter (\<lambda>(t, k, l). t \<noteq> task) (sch_repeat s) \<rparr>"

definition RemoveJob :: "'j \<Rightarrow> 'j Scheduler \<Rightarrow> 'j Scheduler" where
  "RemoveJob task s =
    (if sch_processing s then s\<lparr>sch_remove := sch_remove s @ [task]\<rparr> else remove_tasks task s)"

definition RunOnInit :: "'j \<Rightarrow> 'j Scheduler \<Rightarrow> 'j Scheduler" where
  "RunOnInit task s = s\<lparr>sch_init := sch_init s @ [task]\<rparr>"

definition RunOnRelease :: "'j \<Rightarrow> 'j Scheduler \<Rightarrow> 'j Scheduler" where
  "RunOnRelease task s = s\<lparr>sch_release := sch_release s @ [task]\<rparr>"

definition RemoveReleaseJob :: "'j \<Rightarrow> 'j Scheduler \<Rightarrow> 'j Scheduler" where
  "RemoveReleaseJob task s = s\<lparr>sch_release := filter (\<lambda>t. t \<noteq> task) (sch_release s)\<rparr>"

fun do_call :: "'j job_call \<Rightarrow> 'j Scheduler \<Rightarrow> 'j Scheduler" where
  "do_call (Call_run_at t f) = RunJobAt t f"
| "do_call (Call_run_after t f) = RunJobAfter t f"
| "do_call (Call_run_every t k d) = RunJobEvery t k d"
| "do_call (Call_remove t) = RemoveJob t"
| "do_call (Call_run_on_init t) = RunOnInit t"
| "do_call (Call_run_on_release t) = RunOnRelease t"
| "do_call (Call_remove_release t) = RemoveReleaseJob t"

type_synonym 'j job_calls = "'j \<Rightarrow> int \<Rightarrow> nat \<Rightarrow> 'j job_call list"

definition run_job :: "'j job_calls \<Rightarrow> 'j \<Rightarrow> 'j Scheduler \<Rightarrow> 'j Scheduler" where
  "run_job calls t s = fold do_call (calls t (sch_last_frame s) (length (sch_ran s))) (s\<lparr>sch_ran := sch_ran s @ [t]\<rparr>)"

section \<open>Processing\<close>

definition erase_at :: "nat \<Rightarrow> 'a list \<Rightarrow> 'a list" where
  "erase_at i xs = take i xs @ drop (Suc i) xs"

text \<open>The loop over the once tasks.  The current task is erased after it has run; tasks added meanwhile are at the end.\<close>

partial_function (option) once_loop :: "'j job_calls \<Rightarrow> int \<Rightarrow> nat \<Rightarrow> 'j Scheduler \<Rightarrow> 'j Scheduler option" where
  "once_loop calls frame i s =
    (if length (sch_once s) \<le> i then Some s
     else if snd (sch_once s ! i) \<le> frame
     then (let s' = run_job calls (fst (sch_once s ! i)) s in
           once_loop calls frame i (s'\<lparr>sch_once := erase_at i (sch_once s')\<rparr>))
     else once_loop calls frame (i + 1) s)"

definition repeat_due :: "int \<Rightarrow> 'j \<times> int \<times> int \<Rightarrow> bool" where
  "repeat_due frame c = (case c of (t, interval, last_frame) \<Rightarrow> interval \<le> frame - last_frame)"

definition mark_run :: "int \<Rightarrow> 'j \<times> int \<times> int \<Rightarrow> 'j \<times> int \<times> int" where
  "mark_run frame c = (case c of (t, interval, last_frame) \<Rightarrow> (t, interval, frame))"

text \<open>The range loop over the repeat tasks also reaches the ones added while it runs.\<close>

partial_function (option) repeat_loop :: "'j job_calls \<Rightarrow> int \<Rightarrow> nat \<Rightarrow> 'j Scheduler \<Rightarrow> 'j Scheduler option" where
  "repeat_loop calls frame i s =
    (if length (sch_repeat s) \<le> i then Some s
     else if repeat_due frame (sch_repeat s ! i)
     then (let s' = run_job calls (fst (sch_repeat s ! i)) s in
           repeat_loop calls frame (i + 1) (s'\<lparr>sch_repeat := (sch_repeat s')[i := mark_run frame (sch_repeat s' ! i)]\<rparr>))
     else repeat_loop calls frame (i + 1) s)"

declare once_loop.simps [code] repeat_loop.simps [code]

definition finish_tasks :: "'j job_calls \<Rightarrow> 'j Scheduler \<Rightarrow> 'j Scheduler" where
  "finish_tasks calls s = (case PopAndProcessAll (run_job calls) (sch_finish s) s of (q, s') \<Rightarrow> s'\<lparr>sch_finish := q\<rparr>)"

definition update_queues :: "'j Scheduler \<Rightarrow> 'j Scheduler" where
  "update_queues s = (fold remove_tasks (sch_remove s) s)\<lparr>sch_remove := []\<rparr>"

definition ProcessJobs :: "'j job_calls \<Rightarrow> int \<Rightarrow> 'j Scheduler \<Rightarrow> 'j Scheduler option" where
  "ProcessJobs calls frame s =
    Option.bind (once_loop calls frame 0 (s\<lparr>sch_processing := True, sch_last_frame := frame\<rparr>)) (\<lambda>s1.
    Option.bind (repeat_loop calls frame 0 s1) (\<lambda>s2.
    Some ((update_queues (finish_tasks calls s2))\<lparr>sch_processing := False\<rparr>)))"

text \<open>
  The job loops of \<open>ProcessInit\<close> and \<open>ProcessRelease\<close>.  They walk a vector, which the jobs they run must not extend or
  shrink; the walk is over the vector as it is at the start.
\<close>

definition ProcessInit_jobs :: "'j job_calls \<Rightarrow> 'j Scheduler \<Rightarrow> 'j Scheduler" where
  "ProcessInit_jobs calls s = fold (run_job calls) (sch_init s) s"

definition ProcessRelease_jobs :: "'j job_calls \<Rightarrow> 'j Scheduler \<Rightarrow> 'j Scheduler" where
  "ProcessRelease_jobs calls s = (fold (run_job calls) (sch_release s) s)\<lparr>sch_finish := []\<rparr>"

fun process_frames :: "'j job_calls \<Rightarrow> int list \<Rightarrow> 'j Scheduler \<Rightarrow> 'j Scheduler option" where
  "process_frames calls [] s = Some s"
| "process_frames calls (f # fs) s = Option.bind (ProcessJobs calls f s) (process_frames calls fs)"


section \<open>Jobs that leave the current frame alone\<close>

text \<open>A call that adds no job to the pass over frame \<open>frame\<close>.\<close>

fun later_call :: "int \<Rightarrow> 'j job_call \<Rightarrow> bool" where
  "later_call frame (Call_run_at t f) = (frame < f)"
| "later_call frame (Call_run_after t d) = (0 < d)"
| "later_call frame (Call_run_every t k d) = (0 < d)"
| "later_call frame c = True"

text \<open>The calls of a frame are calm if they add no job to its pass and concern only the jobs in \<open>J\<close>.\<close>

definition calm :: "'j job_calls \<Rightarrow> int \<Rightarrow> 'j set \<Rightarrow> bool" where
  "calm calls frame J \<longleftrightarrow> (\<forall>t n. \<forall>c \<in> set (calls t frame n). later_call frame c \<and> set_job_call c \<subseteq> J)"

abbreviation once_due :: "int \<Rightarrow> 'j \<times> int \<Rightarrow> bool" where
  "once_due frame c \<equiv> snd c \<le> frame"

abbreviation fresh_once :: "int \<Rightarrow> 'j set \<Rightarrow> ('j \<times> int) list \<Rightarrow> bool" where
  "fresh_once frame J xs \<equiv> list_all (\<lambda>c. \<not> once_due frame c \<and> fst c \<in> J) xs"

abbreviation fresh_repeat :: "int \<Rightarrow> 'j set \<Rightarrow> ('j \<times> int \<times> int) list \<Rightarrow> bool" where
  "fresh_repeat frame J xs \<equiv> list_all (\<lambda>c. \<not> repeat_due frame c \<and> fst c \<in> J) xs"

text \<open>The state in the middle of a pass, and what calm jobs may do to it.\<close>

definition in_pass :: "int \<Rightarrow> 'j Scheduler \<Rightarrow> bool" where
  "in_pass frame s \<longleftrightarrow> sch_processing s \<and> sch_last_frame s = frame"

definition extended :: "int \<Rightarrow> 'j set \<Rightarrow> 'j Scheduler \<Rightarrow> 'j Scheduler \<Rightarrow> bool" where
  "extended frame J s s' \<longleftrightarrow> in_pass frame s' \<and> sch_finish s' = sch_finish s \<and>
    set (sch_remove s') \<subseteq> set (sch_remove s) \<union> J \<and>
    (\<exists>xs. sch_once s' = sch_once s @ xs \<and> fresh_once frame J xs) \<and>
    (\<exists>ys. sch_repeat s' = sch_repeat s @ ys \<and> fresh_repeat frame J ys)"

lemma extended_refl: "in_pass frame s \<Longrightarrow> extended frame J s s"
  by (simp add: extended_def)

lemma extended_trans [trans]: "extended frame J s t \<Longrightarrow> extended frame J t u \<Longrightarrow> extended frame J s u"
  by (auto simp: extended_def)

lemma do_call_extended:
  "in_pass frame s \<Longrightarrow> later_call frame c \<Longrightarrow> set_job_call c \<subseteq> J \<Longrightarrow> extended frame J s (do_call c s) \<and> sch_ran (do_call c s) = sch_ran s"
  by (cases c) (auto simp: extended_def in_pass_def repeat_due_def RunJobAt_def RunJobAfter_def RunJobEvery_def
      RemoveJob_def RunOnInit_def RunOnRelease_def RemoveReleaseJob_def)

lemma fold_call_extended:
  "in_pass frame s \<Longrightarrow> \<forall>c \<in> set cs. later_call frame c \<and> set_job_call c \<subseteq> J \<Longrightarrow>
   extended frame J s (fold do_call cs s) \<and> sch_ran (fold do_call cs s) = sch_ran s"
proof (induction cs arbitrary: s)
  case (Cons c cs)
  then have c: "extended frame J s (do_call c s)" "sch_ran (do_call c s) = sch_ran s"
    using do_call_extended[of frame s c J] by simp_all
  then have "in_pass frame (do_call c s)" by (simp add: extended_def)
  with Cons c show ?case using extended_trans[of frame J s "do_call c s"] by simp
qed (simp add: extended_refl)

lemma run_job_extended:
  assumes "in_pass frame s" "calm calls frame J"
  shows "extended frame J s (run_job calls t s)" "sch_ran (run_job calls t s) = sch_ran s @ [t]"
proof -
  let ?s = "s\<lparr>sch_ran := sch_ran s @ [t]\<rparr>"
  have "in_pass frame ?s" "\<forall>c \<in> set (calls t frame (length (sch_ran s))). later_call frame c \<and> set_job_call c \<subseteq> J"
    using assms by (auto simp: in_pass_def calm_def)
  from fold_call_extended[OF this] show "extended frame J s (run_job calls t s)" "sch_ran (run_job calls t s) = sch_ran s @ [t]"
    using assms(1) by (simp_all add: run_job_def extended_def in_pass_def)
qed


section \<open>The passes return\<close>

text \<open>How much is left to do at position \<open>i\<close>: the due entries first, then the entries.\<close>

abbreviation work_order :: "('a \<Rightarrow> bool) \<Rightarrow> ((nat \<times> 'a list) \<times> (nat \<times> 'a list)) set" where
  "work_order due \<equiv> measures [\<lambda>(i, xs). length (filter due (drop i xs)), \<lambda>(i, xs). length xs - i]"

lemmas work_induct = wf_induct_rule[OF wf_measures, of "[\<lambda>(i, xs). length (filter due (drop i xs)), \<lambda>(i, xs). length xs - i]" for due]

lemma none_due: "list_all (\<lambda>c. \<not> due c \<and> fst c \<in> J) xs \<Longrightarrow> filter due xs = [] \<and> filter (\<lambda>c. \<not> due c) xs = xs"
  by (auto simp: list_all_iff filter_empty_conv)

definition run_once_at :: "'j job_calls \<Rightarrow> nat \<Rightarrow> 'j Scheduler \<Rightarrow> 'j Scheduler" where
  "run_once_at calls i s =
    (let s' = run_job calls (fst (sch_once s ! i)) s in s'\<lparr>sch_once := erase_at i (sch_once s')\<rparr>)"

lemma once_loop_unfold:
  "length (sch_once s) \<le> i \<Longrightarrow> once_loop calls frame i s = Some s"
  "i < length (sch_once s) \<Longrightarrow> once_due frame (sch_once s ! i) \<Longrightarrow>
    once_loop calls frame i s = once_loop calls frame i (run_once_at calls i s)"
  "i < length (sch_once s) \<Longrightarrow> \<not> once_due frame (sch_once s ! i) \<Longrightarrow>
    once_loop calls frame i s = once_loop calls frame (i + 1) s"
  by (subst once_loop.simps, simp add: run_once_at_def Let_def)+

lemma run_once_at_effect:
  assumes "in_pass frame s" "calm calls frame J" "i < length (sch_once s)"
  obtains xs ys where "in_pass frame (run_once_at calls i s)" "sch_finish (run_once_at calls i s) = sch_finish s"
    "set (sch_remove (run_once_at calls i s)) \<subseteq> set (sch_remove s) \<union> J"
    "sch_ran (run_once_at calls i s) = sch_ran s @ [fst (sch_once s ! i)]"
    "sch_once (run_once_at calls i s) = take i (sch_once s) @ drop (Suc i) (sch_once s) @ xs"
    "fresh_once frame J xs"
    "sch_repeat (run_once_at calls i s) = sch_repeat s @ ys" "fresh_repeat frame J ys"
  using run_job_extended[OF assms(1,2), of "fst (sch_once s ! i)"] assms(3)
  by (auto simp: run_once_at_def Let_def extended_def in_pass_def erase_at_def)

lemma once_loop_returns:
  assumes "in_pass frame s" "calm calls frame J"
  shows "\<exists>s' xs ys. once_loop calls frame i s = Some s' \<and> in_pass frame s' \<and> sch_finish s' = sch_finish s \<and>
    set (sch_remove s') \<subseteq> set (sch_remove s) \<union> J \<and>
    sch_ran s' = sch_ran s @ map fst (filter (once_due frame) (drop i (sch_once s))) \<and>
    sch_once s' = take i (sch_once s) @ filter (\<lambda>c. \<not> once_due frame c) (drop i (sch_once s)) @ xs \<and>
    fresh_once frame J xs \<and>
    sch_repeat s' = sch_repeat s @ ys \<and> fresh_repeat frame J ys"
  using assms(1)
proof (induction "(i, sch_once s)" arbitrary: i s rule: work_induct[of "once_due frame"])
  case (1 i s)
  consider (stop) "length (sch_once s) \<le> i" | (due) "i < length (sch_once s)" "once_due frame (sch_once s ! i)"
    | (later) "i < length (sch_once s)" "\<not> once_due frame (sch_once s ! i)"
    by linarith
  then show ?case
  proof cases
    case stop
    then show ?thesis using "1.prems" by (simp add: once_loop_unfold)
  next
    case due
    let ?s = "run_once_at calls i s"
    have rest: "drop i (sch_once s) = sch_once s ! i # drop (Suc i) (sch_once s)"
      using due by (simp add: Cons_nth_drop_Suc)
    from run_once_at_effect[OF "1.prems" assms(2) due(1)] obtain xs ys where run: "in_pass frame ?s"
        "sch_finish ?s = sch_finish s" "set (sch_remove ?s) \<subseteq> set (sch_remove s) \<union> J" "sch_ran ?s = sch_ran s @ [fst (sch_once s ! i)]"
        "sch_once ?s = take i (sch_once s) @ drop (Suc i) (sch_once s) @ xs" "fresh_once frame J xs"
        "sch_repeat ?s = sch_repeat s @ ys" "fresh_repeat frame J ys" .
    have "((i, sch_once ?s), (i, sch_once s)) \<in> work_order (once_due frame)"
      unfolding run(5) using due rest none_due[OF run(6)] by simp
    from "1.hyps"[OF this run(1)] obtain s' xs' ys' where s': "once_loop calls frame i ?s = Some s'" "in_pass frame s'"
        "sch_finish s' = sch_finish s" "set (sch_remove s') \<subseteq> set (sch_remove ?s) \<union> J"
        "sch_ran s' = sch_ran s @ map fst (filter (once_due frame) (drop i (sch_once s)))"
        "sch_once s' = take i (sch_once s) @ filter (\<lambda>c. \<not> once_due frame c) (drop i (sch_once s)) @ xs @ xs'"
        "fresh_once frame J xs'" "sch_repeat s' = sch_repeat s @ ys @ ys'"
        "fresh_repeat frame J ys'"
      unfolding run(2,4,5,7) rest using due none_due[OF run(6)] by auto
    moreover have "set (sch_remove s') \<subseteq> set (sch_remove s) \<union> J" using s'(4) run(3) by blast
    ultimately show ?thesis
      using due run(6,8) by (intro exI[of _ s'] exI[of _ "xs @ xs'"] exI[of _ "ys @ ys'"]) (simp add: once_loop_unfold)
  next
    case later
    have rest: "drop i (sch_once s) = sch_once s ! i # drop (Suc i) (sch_once s)"
      using later by (simp add: Cons_nth_drop_Suc)
    have "((i + 1, sch_once s), (i, sch_once s)) \<in> work_order (once_due frame)"
      using later rest by auto
    from "1.hyps"[OF this "1.prems"] show ?thesis
      using later rest by (simp add: take_Suc_conv_app_nth once_loop_unfold)
  qed
qed

definition run_repeat_at :: "'j job_calls \<Rightarrow> int \<Rightarrow> nat \<Rightarrow> 'j Scheduler \<Rightarrow> 'j Scheduler" where
  "run_repeat_at calls frame i s =
    (let s' = run_job calls (fst (sch_repeat s ! i)) s in
     s'\<lparr>sch_repeat := (sch_repeat s')[i := mark_run frame (sch_repeat s' ! i)]\<rparr>)"

lemma repeat_loop_unfold:
  "length (sch_repeat s) \<le> i \<Longrightarrow> repeat_loop calls frame i s = Some s"
  "i < length (sch_repeat s) \<Longrightarrow> repeat_due frame (sch_repeat s ! i) \<Longrightarrow>
    repeat_loop calls frame i s = repeat_loop calls frame (i + 1) (run_repeat_at calls frame i s)"
  "i < length (sch_repeat s) \<Longrightarrow> \<not> repeat_due frame (sch_repeat s ! i) \<Longrightarrow>
    repeat_loop calls frame i s = repeat_loop calls frame (i + 1) s"
  by (subst repeat_loop.simps, simp add: run_repeat_at_def Let_def)+

lemma run_repeat_at_effect:
  assumes "in_pass frame s" "calm calls frame J" "i < length (sch_repeat s)"
  obtains xs ys where "in_pass frame (run_repeat_at calls frame i s)" "sch_finish (run_repeat_at calls frame i s) = sch_finish s"
    "set (sch_remove (run_repeat_at calls frame i s)) \<subseteq> set (sch_remove s) \<union> J"
    "sch_ran (run_repeat_at calls frame i s) = sch_ran s @ [fst (sch_repeat s ! i)]"
    "sch_once (run_repeat_at calls frame i s) = sch_once s @ xs" "fresh_once frame J xs"
    "sch_repeat (run_repeat_at calls frame i s) =
       take i (sch_repeat s) @ mark_run frame (sch_repeat s ! i) # drop (Suc i) (sch_repeat s) @ ys"
    "fresh_repeat frame J ys"
  using run_job_extended[OF assms(1,2), of "fst (sch_repeat s ! i)"] assms(3)
  by (auto simp: run_repeat_at_def Let_def extended_def in_pass_def upd_conv_take_nth_drop nth_append)

definition after_pass :: "int \<Rightarrow> 'j \<times> int \<times> int \<Rightarrow> 'j \<times> int \<times> int" where
  "after_pass frame c = (if repeat_due frame c then mark_run frame c else c)"

lemma repeat_loop_returns:
  assumes "in_pass frame s" "calm calls frame J" "i \<le> length (sch_repeat s)"
  shows "\<exists>s' xs ys. repeat_loop calls frame i s = Some s' \<and> in_pass frame s' \<and> sch_finish s' = sch_finish s \<and>
    set (sch_remove s') \<subseteq> set (sch_remove s) \<union> J \<and>
    sch_ran s' = sch_ran s @ map fst (filter (repeat_due frame) (drop i (sch_repeat s))) \<and>
    sch_once s' = sch_once s @ xs \<and> fresh_once frame J xs \<and>
    sch_repeat s' = take i (sch_repeat s) @ map (after_pass frame) (drop i (sch_repeat s)) @ ys \<and>
    fresh_repeat frame J ys"
  using assms(1,3)
proof (induction "(i, sch_repeat s)" arbitrary: i s rule: work_induct[of "repeat_due frame"])
  case (1 i s)
  consider (stop) "i = length (sch_repeat s)" | (due) "i < length (sch_repeat s)" "repeat_due frame (sch_repeat s ! i)"
    | (later) "i < length (sch_repeat s)" "\<not> repeat_due frame (sch_repeat s ! i)"
    using "1.prems"(2) by linarith
  then show ?case
  proof cases
    case stop
    then show ?thesis using "1.prems" by (simp add: repeat_loop_unfold)
  next
    case due
    let ?s = "run_repeat_at calls frame i s"
    have rest: "drop i (sch_repeat s) = sch_repeat s ! i # drop (Suc i) (sch_repeat s)"
      using due by (simp add: Cons_nth_drop_Suc)
    from run_repeat_at_effect[OF "1.prems"(1) assms(2) due(1)] obtain xs ys where run: "in_pass frame ?s"
        "sch_finish ?s = sch_finish s" "set (sch_remove ?s) \<subseteq> set (sch_remove s) \<union> J" "sch_ran ?s = sch_ran s @ [fst (sch_repeat s ! i)]"
        "sch_once ?s = sch_once s @ xs" "fresh_once frame J xs"
        "sch_repeat ?s = take i (sch_repeat s) @ mark_run frame (sch_repeat s ! i) # drop (Suc i) (sch_repeat s) @ ys"
        "fresh_repeat frame J ys" .
    have split: "drop (i + 1) (sch_repeat ?s) = drop (Suc i) (sch_repeat s) @ ys"
        "take (i + 1) (sch_repeat ?s) = take i (sch_repeat s) @ [mark_run frame (sch_repeat s ! i)]"
      unfolding run(7) using due(1) by simp_all
    have "((i + 1, sch_repeat ?s), (i, sch_repeat s)) \<in> work_order (repeat_due frame)"
      using due rest split none_due[OF run(8)] by simp
    moreover have "i + 1 \<le> length (sch_repeat ?s)" unfolding run(7) using due(1) by simp
    ultimately obtain s' xs' ys' where s': "repeat_loop calls frame (i + 1) ?s = Some s'" "in_pass frame s'"
        "sch_finish s' = sch_finish s" "set (sch_remove s') \<subseteq> set (sch_remove ?s) \<union> J"
        "sch_ran s' = sch_ran s @ map fst (filter (repeat_due frame) (drop i (sch_repeat s)))"
        "sch_once s' = sch_once s @ xs @ xs'" "fresh_once frame J xs'"
        "sch_repeat s' = take i (sch_repeat s) @ map (after_pass frame) (drop i (sch_repeat s)) @ map (after_pass frame) ys @ ys'"
        "fresh_repeat frame J ys'"
      using "1.hyps"[of "i + 1" ?s] run(1) due none_due[OF run(8)] unfolding run(2,4,5) rest split
      by (auto simp: after_pass_def)
    moreover have "set (sch_remove s') \<subseteq> set (sch_remove s) \<union> J" using s'(4) run(3) by blast
    moreover have "map (after_pass frame) ys = ys"
      using run(8) by (auto simp: after_pass_def list_all_iff intro: map_idI)
    ultimately show ?thesis
      using due run(6,8) by (intro exI[of _ s'] exI[of _ "xs @ xs'"] exI[of _ "ys @ ys'"]) (simp add: repeat_loop_unfold)
  next
    case later
    have rest: "drop i (sch_repeat s) = sch_repeat s ! i # drop (Suc i) (sch_repeat s)"
      using later by (simp add: Cons_nth_drop_Suc)
    have "((i + 1, sch_repeat s), (i, sch_repeat s)) \<in> work_order (repeat_due frame)"
      using later rest by auto
    from "1.hyps"[OF this "1.prems"(1)] show ?thesis
      using later rest by (simp add: take_Suc_conv_app_nth repeat_loop_unfold after_pass_def)
  qed
qed


section \<open>A whole pass\<close>

lemma finish_tasks_effect:
  assumes "in_pass frame s" "calm calls frame J"
  shows "extended frame J (s\<lparr>sch_finish := []\<rparr>) (finish_tasks calls s)" "sch_ran (finish_tasks calls s) = sch_ran s @ sch_finish s"
proof -
  have "extended frame J s (fold (run_job calls) ts s) \<and> sch_ran (fold (run_job calls) ts s) = sch_ran s @ ts" for ts
    using assms(1)
  proof (induction ts arbitrary: s)
    case (Cons t ts)
    have t: "extended frame J s (run_job calls t s)" "sch_ran (run_job calls t s) = sch_ran s @ [t]"
      using run_job_extended[OF Cons.prems assms(2)] by auto
    then have "in_pass frame (run_job calls t s)" by (simp add: extended_def)
    from Cons.IH[OF this] t show ?case using extended_trans[OF t(1)] by auto
  qed (simp add: extended_refl)
  from this[of "sch_finish s"] show "extended frame J (s\<lparr>sch_finish := []\<rparr>) (finish_tasks calls s)"
      "sch_ran (finish_tasks calls s) = sch_ran s @ sch_finish s"
    by (auto simp: finish_tasks_def PopAndProcessAll_fold extended_def in_pass_def)
qed

lemma remove_tasks_fold:
  "fold remove_tasks ts s = s\<lparr>sch_once := filter (\<lambda>c. fst c \<notin> set ts) (sch_once s),
     sch_repeat := filter (\<lambda>c. fst c \<notin> set ts) (sch_repeat s)\<rparr>"
  by (induction ts arbitrary: s) (auto simp: remove_tasks_def case_prod_beta conj_commute cong: filter_cong)

lemma map_after_pass_fresh: "fresh_repeat frame J ys \<Longrightarrow> map (after_pass frame) ys = ys"
  by (auto simp: after_pass_def list_all_iff intro: map_idI)

lemma ProcessJobs_returns:
  assumes "calm calls frame J"
  shows "\<exists>s' R xs ys. ProcessJobs calls frame s = Some s' \<and> R \<subseteq> set (sch_remove s) \<union> J \<and>
    \<not> sch_processing s' \<and> sch_last_frame s' = frame \<and> sch_finish s' = [] \<and> sch_remove s' = [] \<and>
    sch_ran s' = sch_ran s @ map fst (filter (once_due frame) (sch_once s)) @
      map fst (filter (repeat_due frame) (sch_repeat s)) @ sch_finish s \<and>
    sch_once s' = filter (\<lambda>c. fst c \<notin> R) (filter (\<lambda>c. \<not> once_due frame c) (sch_once s) @ xs) \<and> fresh_once frame J xs \<and>
    sch_repeat s' = filter (\<lambda>c. fst c \<notin> R) (map (after_pass frame) (sch_repeat s) @ ys) \<and> fresh_repeat frame J ys"
proof -
  let ?s = "s\<lparr>sch_processing := True, sch_last_frame := frame\<rparr>"
  have "in_pass frame ?s" by (simp add: in_pass_def)
  from once_loop_returns[OF this assms, of 0] obtain s1 xs1 ys1 where s1: "once_loop calls frame 0 ?s = Some s1" "in_pass frame s1"
      "sch_finish s1 = sch_finish s" "set (sch_remove s1) \<subseteq> set (sch_remove s) \<union> J"
      "sch_ran s1 = sch_ran s @ map fst (filter (once_due frame) (sch_once s))"
      "sch_once s1 = filter (\<lambda>c. \<not> once_due frame c) (sch_once s) @ xs1" "fresh_once frame J xs1"
      "sch_repeat s1 = sch_repeat s @ ys1" "fresh_repeat frame J ys1"
    by auto
  from repeat_loop_returns[OF s1(2) assms, of 0] obtain s2 xs2 ys2 where s2: "repeat_loop calls frame 0 s1 = Some s2"
      "in_pass frame s2" "sch_finish s2 = sch_finish s1" "set (sch_remove s2) \<subseteq> set (sch_remove s1) \<union> J"
      "sch_ran s2 = sch_ran s1 @ map fst (filter (repeat_due frame) (sch_repeat s))"
      "sch_once s2 = sch_once s1 @ xs2" "fresh_once frame J xs2"
      "sch_repeat s2 = map (after_pass frame) (sch_repeat s) @ ys1 @ ys2" "fresh_repeat frame J ys2"
    using none_due[OF s1(9)] map_after_pass_fresh[OF s1(9)] unfolding s1(8) by auto
  let ?f = "finish_tasks calls s2"
  from finish_tasks_effect[OF s2(2) assms] obtain xs3 ys3 where s3: "in_pass frame ?f" "sch_finish ?f = []"
      "set (sch_remove ?f) \<subseteq> set (sch_remove s2) \<union> J" "sch_once ?f = sch_once s2 @ xs3" "fresh_once frame J xs3"
      "sch_repeat ?f = sch_repeat s2 @ ys3" "fresh_repeat frame J ys3" "sch_ran ?f = sch_ran s2 @ sch_finish s2"
    by (auto simp: extended_def)
  have "ProcessJobs calls frame s = Some ((update_queues ?f)\<lparr>sch_processing := False\<rparr>)"
    by (simp add: ProcessJobs_def s1(1) s2(1))
  moreover have "set (sch_remove ?f) \<subseteq> set (sch_remove s) \<union> J"
    using s1(4) s2(4) s3(3) by blast
  ultimately show ?thesis
    using s1 s2 s3
    by (intro exI[of _ "(update_queues ?f)\<lparr>sch_processing := False\<rparr>"] exI[of _ "set (sch_remove ?f)"]
        exI[of _ "xs1 @ xs2 @ xs3"] exI[of _ "ys1 @ ys2 @ ys3"])
      (simp add: update_queues_def remove_tasks_fold in_pass_def)
qed

text \<open>
  C10: a pass of the scheduler returns and runs exactly what is due.  If the jobs of a frame schedule new ones only for later
  frames, \<open>ProcessJobs\<close> returns; it has run the once tasks whose frame has come, then the repeat tasks whose interval has
  elapsed, then the completions of parallel jobs, each once and in the order of their registration, and every once
  task that is left is for a later frame.
\<close>

theorem ProcessJobs_runs_due:
  assumes "calm calls frame UNIV"
  shows "\<exists>s'. ProcessJobs calls frame s = Some s' \<and>
    sch_ran s' = sch_ran s @ map fst (filter (\<lambda>(t, f). f \<le> frame) (sch_once s)) @
      map fst (filter (\<lambda>(t, k, l). k \<le> frame - l) (sch_repeat s)) @ sch_finish s \<and>
    (\<forall>(t, f) \<in> set (sch_once s'). frame < f) \<and> sch_finish s' = [] \<and> sch_last_frame s' = frame"
proof -
  have due: "once_due frame = (\<lambda>(t, f). f \<le> frame)" "repeat_due frame = (\<lambda>(t, k, l). k \<le> frame - l)"
    by (auto simp: repeat_due_def fun_eq_iff)
  from ProcessJobs_returns[OF assms, of s] obtain s' R xs where "ProcessJobs calls frame s = Some s'"
      "sch_last_frame s' = frame" "sch_finish s' = []"
      "sch_ran s' = sch_ran s @ map fst (filter (once_due frame) (sch_once s)) @
        map fst (filter (repeat_due frame) (sch_repeat s)) @ sch_finish s"
      "sch_once s' = filter (\<lambda>c. fst c \<notin> R) (filter (\<lambda>c. \<not> once_due frame c) (sch_once s) @ xs)" "fresh_once frame UNIV xs"
    by blast
  then show ?thesis
    unfolding due by (intro exI[of _ s']) (auto simp: list_all_iff)
qed


text \<open>A job that schedules the second one three frames ahead, run with a repeat task that is not yet due.\<close>

definition sample_calls :: "nat job_calls" where
  "sample_calls t frame n = (if t = 1 then [Call_run_after 2 3] else [])"

definition sample_scheduler :: "nat Scheduler" where
  "sample_scheduler = RunJobEvery 5 10 2 (RunJobAt 1 0 (RunJobEvery 4 1 0 Scheduler_new))"

theorem ProcessJobs_runs_due_witness:
  "\<exists>s'. ProcessJobs sample_calls 1 sample_scheduler = Some s' \<and> sch_ran s' = [1, 4]"
proof -
  have "calm sample_calls 1 UNIV" by (simp add: calm_def sample_calls_def)
  from ProcessJobs_runs_due[OF this, of sample_scheduler] show ?thesis
    by (auto simp: sample_scheduler_def RunJobEvery_def RunJobAt_def Scheduler_new_def)
qed

section \<open>The frame tick\<close>

text \<open>A repeat task that is registered once and that no job touches.\<close>

definition registered :: "'j \<Rightarrow> int \<Rightarrow> int \<Rightarrow> 'j Scheduler \<Rightarrow> bool" where
  "registered t k l s \<longleftrightarrow> filter (\<lambda>c. fst c = t) (sch_repeat s) = [(t, k, l)] \<and>
    t \<notin> fst ` set (sch_once s) \<and> t \<notin> set (sch_finish s) \<and> t \<notin> set (sch_remove s)"

lemma count_runs: "count_list (map fst (filter P xs)) t = length (filter P (filter (\<lambda>c. fst c = t) xs))"
  by (induction xs) auto

lemma count_none: "t \<notin> set xs \<Longrightarrow> count_list xs t = 0"
  by (induction xs) auto

lemma ProcessJobs_registered:
  assumes "calm calls frame (- {t})" "registered t k l s" "k \<le> frame - l"
  shows "\<exists>s'. ProcessJobs calls frame s = Some s' \<and> registered t k frame s' \<and>
    count_list (sch_ran s') t = Suc (count_list (sch_ran s) t)"
proof -
  from ProcessJobs_returns[OF assms(1), of s] obtain s' R xs ys where s': "ProcessJobs calls frame s = Some s'"
      "R \<subseteq> set (sch_remove s) \<union> - {t}" "sch_finish s' = []" "sch_remove s' = []"
      "sch_ran s' = sch_ran s @ map fst (filter (once_due frame) (sch_once s)) @
        map fst (filter (repeat_due frame) (sch_repeat s)) @ sch_finish s"
      "sch_once s' = filter (\<lambda>c. fst c \<notin> R) (filter (\<lambda>c. \<not> once_due frame c) (sch_once s) @ xs)" "fresh_once frame (- {t}) xs"
      "sch_repeat s' = filter (\<lambda>c. fst c \<notin> R) (map (after_pass frame) (sch_repeat s) @ ys)" "fresh_repeat frame (- {t}) ys"
    by blast
  have t: "filter (\<lambda>c. fst c = t) (sch_repeat s) = [(t, k, l)]" "t \<notin> fst ` set (sch_once s)" "t \<notin> set (sch_finish s)" "t \<notin> R"
    using assms(2) s'(2) by (auto simp: registered_def)
  have "fst (after_pass frame c) = fst c" for c :: "'a \<times> int \<times> int"
    by (simp add: after_pass_def mark_run_def split: prod.splits)
  then have "filter (\<lambda>c. fst c = t) (map (after_pass frame) (sch_repeat s)) = map (after_pass frame) [(t, k, l)]"
    unfolding t(1)[symmetric] by (simp add: filter_map comp_def)
  moreover have "filter (\<lambda>c. fst c = t) ys = []"
    using s'(9) by (auto simp: list_all_iff filter_empty_conv)
  moreover have "filter (\<lambda>c. fst c = t) (sch_repeat s') =
      filter (\<lambda>c. fst c = t) (map (after_pass frame) (sch_repeat s) @ ys)"
    unfolding s'(8) filter_filter using t(4) by (intro filter_cong) auto
  ultimately have "filter (\<lambda>c. fst c = t) (sch_repeat s') = [(t, k, frame)]"
    using assms(3) by (simp add: after_pass_def mark_run_def repeat_due_def)
  moreover have "t \<notin> fst ` set (sch_once s')"
    using t(2) s'(7) unfolding s'(6) by (force simp: list_all_iff)
  moreover have "count_list (sch_ran s') t = Suc (count_list (sch_ran s) t)"
    using t(2,3) assms(3) unfolding s'(5)
    by (auto simp: count_runs t(1) repeat_due_def filter_empty_conv image_iff intro!: count_none)
  ultimately show ?thesis
    using s'(1,3,4) by (auto simp: registered_def)
qed

lemma process_frames_registered:
  assumes "\<forall>frame \<in> set frames. calm calls frame (- {t})" "registered t 1 l s" "sorted_wrt (<) (l # frames)"
  shows "\<exists>s'. process_frames calls frames s = Some s' \<and>
    count_list (sch_ran s') t = count_list (sch_ran s) t + length frames"
  using assms
proof (induction frames arbitrary: s l)
  case (Cons f frames)
  then obtain s1 where s1: "ProcessJobs calls f s = Some s1" "registered t 1 f s1"
      "count_list (sch_ran s1) t = Suc (count_list (sch_ran s) t)"
    using ProcessJobs_registered[of calls f t 1 l s] by auto
  with Cons.IH[OF _ s1(2)] Cons.prems show ?case by auto
qed simp

text \<open>
  C9: the gateway is ticked exactly once per frame.  A job registered the way the gateway registers its frame tick, to be run
  every frame from now on, runs exactly once in every later pass of the scheduler, whatever frames are skipped, as
  long as the other jobs neither register nor remove it and schedule nothing for the current frame.
\<close>

theorem RunJobEvery_ticks_each_frame:
  assumes "\<forall>frame \<in> set frames. calm calls frame (- {tick})" "sorted_wrt (<) frames"
    and "\<forall>frame \<in> set frames. sch_last_frame s \<le> frame"
    and "tick \<notin> fst ` set (sch_once s) \<union> fst ` set (sch_repeat s) \<union> set (sch_finish s) \<union> set (sch_remove s)"
  shows "\<exists>s'. process_frames calls frames (RunJobEvery tick 1 0 s) = Some s' \<and>
    count_list (sch_ran s') tick = count_list (sch_ran s) tick + length frames"
proof -
  have "registered tick 1 (sch_last_frame s - 1) (RunJobEvery tick 1 0 s)"
    using assms(4) by (auto simp: registered_def RunJobEvery_def filter_empty_conv)
  moreover have "sorted_wrt (<) ((sch_last_frame s - 1) # frames)"
    using assms(2,3) by auto
  ultimately show ?thesis
    using process_frames_registered[OF assms(1), of _ "RunJobEvery tick 1 0 s"] by (auto simp: RunJobEvery_def)
qed

theorem RunJobEvery_ticks_each_frame_witness:
  "\<exists>s'. process_frames sample_calls [0, 1, 5] (RunJobEvery 9 1 0 (RunJobAt 1 0 Scheduler_new)) = Some s' \<and>
     count_list (sch_ran s') 9 = 3"
proof -
  let ?s = "RunJobAt 1 0 Scheduler_new :: nat Scheduler"
  have "\<forall>frame \<in> set [0, 1, 5]. calm sample_calls frame (- {9})"
    by (simp add: calm_def sample_calls_def)
  moreover have "sorted_wrt (<) [0, 1, 5 :: int]" "\<forall>frame \<in> set [0, 1, 5]. sch_last_frame ?s \<le> frame"
      "9 \<notin> fst ` set (sch_once ?s) \<union> fst ` set (sch_repeat ?s) \<union> set (sch_finish ?s) \<union> set (sch_remove ?s)"
      "count_list (sch_ran ?s) 9 = 0"
    by (simp_all add: RunJobAt_def Scheduler_new_def)
  ultimately show ?thesis
    using RunJobEvery_ticks_each_frame[of "[0, 1, 5]" sample_calls 9 ?s] by (simp add: eval_nat_numeral)
qed

section \<open>A pass that does not return\<close>

lemma once_loop_diverges:
  assumes "\<And>n. calls t frame n = [Call_run_at t f]" "f \<le> frame" "once_loop calls frame i s = Some r"
  shows "i = 0 \<and> in_pass frame s \<and> (\<exists>g \<le> frame. sch_once s = [(t, g)]) \<longrightarrow> False"
proof -
  let ?P = "\<lambda>calls' frame' i s r. calls' = calls \<and> frame' = frame \<longrightarrow>
    \<not> (i = 0 \<and> in_pass frame s \<and> (\<exists>g \<le> frame. sch_once s = [(t, g)]))"
  have "?P calls frame i s r"
    by (rule once_loop.raw_induct[where P = ?P, OF _ assms(3)])
      (use assms(1,2) in \<open>fastforce simp: Let_def run_job_def RunJobAt_def erase_at_def in_pass_def split: if_splits\<close>)
  then show ?thesis by blast
qed

text \<open>
  C37: a job that asks to be run again at once hangs the engine thread.  A once task that re-registers itself with a frame
  that has already come, which the interface describes as running it at the next frame, is reached again by the same
  pass: \<open>ProcessJobs\<close> never returns.
\<close>

theorem RunJobAt_now_diverges:
  assumes "\<And>n. calls t frame n = [Call_run_at t f]" "f \<le> frame" "sch_once s = [(t, g)]" "g \<le> frame"
  shows "ProcessJobs calls frame s = None"
proof -
  let ?s = "s\<lparr>sch_processing := True, sch_last_frame := frame\<rparr>"
  have "in_pass frame ?s" by (simp add: in_pass_def)
  then have "once_loop calls frame 0 ?s = None"
    using once_loop_diverges[of calls t frame f 0 ?s] assms by (cases "once_loop calls frame 0 ?s") auto
  then show ?thesis by (simp add: ProcessJobs_def)
qed

theorem RunJobAt_now_diverges_witness:
  "ProcessJobs (\<lambda>t frame n. [Call_run_at (7 :: nat) 0]) 3 (RunJobAt 7 0 Scheduler_new) = None"
  by (rule RunJobAt_now_diverges[where t = 7 and f = 0 and g = 0]) (simp_all add: RunJobAt_def Scheduler_new_def)

end
