(* ===== verification/Worker_Pool.thy ===== *)
theory Worker_Pool
  imports Multi_Queue
begin

text \<open>
  The worker threads of the job scheduler and the way an instance leaves them (scheduler/Scheduler.cpp: \<open>StartThreads\<close>,
  \<open>RunParallelJob\<close>, \<open>RunPriorityJob\<close>, \<open>Release\<close>, \<open>WorkerThread\<close>).  The threads and their queue are shared by all instances.
  An instance that is released while others remain parks every worker, removes its own jobs from the queue and lets the
  workers go on; the last one stops them.  The threads take turns line by line; a line is one atomic step.  A running job may
  queue further jobs of its instance at any time.  The lemmas show that the dummies which wake the workers are never run, that \<open>Release\<close>
  gets past its wait when every worker has started, and that it can deadlock when one has not.
\<close>

section \<open>State\<close>

text \<open>A queued job with its instance; the dummy that wakes a waiting worker has no job.\<close>

type_synonym work_task = "nat \<times> nat option"

text \<open>Where a worker is: before its first line, at the loop head, at the pause test, about to take the pause mutex, parked under a
  pause number, at the queue, holding an item, running a job, past the loop, or having called a job that is not there.\<close>

datatype worker_pc = W_start | W_head | W_check | W_lock | W_parked nat | W_pop | W_run work_task | W_busy nat nat | W_exit | W_crash

text \<open>Where the engine thread is: idle, or at a line of \<open>Release\<close> for an instance.\<close>

datatype engine_pc =
    E_idle | E_count nat | E_lock nat | E_push nat nat | E_wait nat | E_remove nat | E_proceed nat | E_notify nat
  | X_push nat nat | X_join nat

record worker_pool =
  wp_tasks :: "work_task list"
  wp_threads :: "(worker_pc \<times> nat) list"
  wp_worker_running :: bool
  wp_instances :: "nat list"
  wp_next_instance :: nat
  wp_pause_id :: nat
  wp_pause_count :: nat
  wp_engine :: engine_pc
  wp_completed :: "work_task list"

definition pool_new :: worker_pool where
  "pool_new = \<lparr> wp_tasks = [], wp_threads = [], wp_worker_running = False, wp_instances = [], wp_next_instance = 0,
     wp_pause_id = 0, wp_pause_count = 0, wp_engine = E_idle, wp_completed = [] \<rparr>"

text \<open>The engine thread holds the pause mutex while it pushes the dummies; workers hold it within one step only.\<close>

definition pause_mutex_free :: "worker_pool \<Rightarrow> bool" where
  "pause_mutex_free s = (case wp_engine s of E_push r n \<Rightarrow> False | _ \<Rightarrow> True)"

section \<open>Workers\<close>

definition set_thread :: "nat \<Rightarrow> worker_pc \<Rightarrow> nat \<Rightarrow> worker_pool \<Rightarrow> worker_pool" where
  "set_thread i pc pause_id s = s\<lparr>wp_threads := (wp_threads s)[i := (pc, pause_id)]\<rparr>"

text \<open>
  One line of \<open>WorkerThread\<close>; none when the worker cannot move.  Parking counts the worker as paused and waits until the
  pause number changes.  A job is started only while its instance is running.
\<close>

definition WorkerThread_step :: "nat \<Rightarrow> worker_pool \<Rightarrow> worker_pool option" where
  "WorkerThread_step i s =
    (if length (wp_threads s) \<le> i then None
     else let (pc, pause_id) = wp_threads s ! i in
       case pc of
         W_start \<Rightarrow> Some (set_thread i W_head (wp_pause_id s) s)
       | W_head \<Rightarrow> Some (set_thread i (if wp_worker_running s then W_check else W_exit) pause_id s)
       | W_check \<Rightarrow> Some (set_thread i (if pause_id \<noteq> wp_pause_id s then W_lock else W_pop) pause_id s)
       | W_lock \<Rightarrow>
           if \<not> pause_mutex_free s then None
           else Some ((set_thread i (W_parked (wp_pause_id s)) (wp_pause_id s + 1) s)
             \<lparr>wp_pause_count := wp_pause_count s - 1\<rparr>)
       | W_parked p \<Rightarrow>
           if \<not> pause_mutex_free s \<or> p = wp_pause_id s then None else Some (set_thread i W_pop pause_id s)
       | W_pop \<Rightarrow>
           (case Pop (wp_tasks s) of
              None \<Rightarrow> None
            | Some (item, rest) \<Rightarrow> Some ((set_thread i (W_run item) pause_id s)\<lparr>wp_tasks := rest\<rparr>))
       | W_run (owner, task) \<Rightarrow>
           if owner \<notin> set (wp_instances s) then Some (set_thread i W_head pause_id s)
           else (case task of
              None \<Rightarrow> Some (set_thread i W_crash pause_id s)
            | Some job \<Rightarrow> Some (set_thread i (W_busy owner job) pause_id s))
       | W_busy owner job \<Rightarrow> Some ((set_thread i W_head pause_id s)\<lparr>wp_completed := wp_completed s @ [(owner, Some job)]\<rparr>)
       | W_exit \<Rightarrow> None
       | W_crash \<Rightarrow> None)"

section \<open>The engine thread\<close>

datatype engine_action =
    New_instance | Start_threads nat | Run_parallel nat nat | Run_priority nat nat | Begin_release nat | Continue

text \<open>The number of threads is clamped between 2 and 8.\<close>

definition max_work_threads :: "int \<Rightarrow> nat" where
  "max_work_threads hardware = nat (max 2 (min (hardware - 1) 8))"

definition StartThreads :: "nat \<Rightarrow> worker_pool \<Rightarrow> worker_pool" where
  "StartThreads n s =
    (if wp_worker_running s then s
     else s\<lparr>wp_worker_running := True, wp_threads := wp_threads s @ replicate n (W_start, 0)\<rparr>)"

definition RunParallelJob :: "nat \<Rightarrow> nat \<Rightarrow> worker_pool \<Rightarrow> worker_pool" where
  "RunParallelJob self job s = s\<lparr>wp_tasks := PushBack (self, Some job) (wp_tasks s)\<rparr>"

definition RunPriorityJob :: "nat \<Rightarrow> nat \<Rightarrow> worker_pool \<Rightarrow> worker_pool" where
  "RunPriorityJob self job s = s\<lparr>wp_tasks := PushFront (self, Some job) (wp_tasks s)\<rparr>"

text \<open>The first lines of \<open>Release\<close>, up to the branch.\<close>

definition Release_begin :: "nat \<Rightarrow> worker_pool \<Rightarrow> worker_pool" where
  "Release_begin self s =
    (if self \<notin> set (wp_instances s) then s
     else let s1 = s\<lparr>wp_instances := filter (\<lambda>x. x \<noteq> self) (wp_instances s)\<rparr> in
       if \<not> wp_worker_running s1 then s1
       else if wp_instances s1 = []
       then s1\<lparr>wp_worker_running := False, wp_engine := X_push self (length (wp_threads s1))\<rparr>
       else s1\<lparr>wp_engine := E_count self\<rparr>)"

definition push_dummy :: "nat \<Rightarrow> worker_pool \<Rightarrow> worker_pool" where
  "push_dummy self s = s\<lparr>wp_tasks := PushBack (self, None) (wp_tasks s)\<rparr>"

text \<open>One later line of \<open>Release\<close>.\<close>

definition Release_step :: "worker_pool \<Rightarrow> worker_pool option" where
  "Release_step s = (case wp_engine s of
       E_idle \<Rightarrow> None
     | E_count r \<Rightarrow> Some (s\<lparr>wp_pause_count := length (wp_threads s), wp_engine := E_lock r\<rparr>)
     | E_lock r \<Rightarrow> Some (s\<lparr>wp_pause_id := wp_pause_id s + 1, wp_engine := E_push r (length (wp_threads s))\<rparr>)
     | E_push r (Suc n) \<Rightarrow> Some ((push_dummy r s)\<lparr>wp_engine := E_push r n\<rparr>)
     | E_push r 0 \<Rightarrow> Some (s\<lparr>wp_engine := E_wait r\<rparr>)
     | E_wait r \<Rightarrow> if wp_pause_count s = 0 then Some (s\<lparr>wp_engine := E_remove r\<rparr>) else None
     | E_remove r \<Rightarrow> map_option (\<lambda>q. s\<lparr>wp_tasks := q, wp_engine := E_proceed r\<rparr>) (RemoveAllIf (\<lambda>t. fst t = r) (wp_tasks s))
     | E_proceed r \<Rightarrow> Some (s\<lparr>wp_pause_id := wp_pause_id s + 1, wp_engine := E_notify r\<rparr>)
     | E_notify r \<Rightarrow> Some (s\<lparr>wp_engine := E_idle\<rparr>)
     | X_push r (Suc n) \<Rightarrow> Some ((push_dummy r s)\<lparr>wp_engine := X_push r n\<rparr>)
     | X_push r 0 \<Rightarrow> Some (s\<lparr>wp_engine := X_join r\<rparr>)
     | X_join r \<Rightarrow>
         if list_all (\<lambda>(pc, p). pc = W_exit) (wp_threads s)
         then Some (s\<lparr>wp_threads := [], wp_tasks := [], wp_engine := E_idle\<rparr>) else None)"

definition engine_do :: "engine_action \<Rightarrow> worker_pool \<Rightarrow> worker_pool option" where
  "engine_do a s = (case a of
       Continue \<Rightarrow> Release_step s
     | _ \<Rightarrow> if wp_engine s \<noteq> E_idle then None else Some (case a of
           New_instance \<Rightarrow> s\<lparr>wp_instances := wp_next_instance s # wp_instances s, wp_next_instance := wp_next_instance s + 1\<rparr>
         | Start_threads hardware \<Rightarrow> StartThreads (max_work_threads (int hardware)) s
         | Run_parallel self job \<Rightarrow> RunParallelJob self job s
         | Run_priority self job \<Rightarrow> RunPriorityJob self job s
         | Begin_release self \<Rightarrow> Release_begin self s
         | Continue \<Rightarrow> s))"

text \<open>
  A job may queue further jobs of its instance while it runs, as \<open>CThreatMap::Update\<close> does with \<open>RunPriorityJob\<close>.
\<close>

definition job_spawns :: "nat \<Rightarrow> bool \<Rightarrow> nat \<Rightarrow> worker_pool \<Rightarrow> worker_pool option" where
  "job_spawns i priority job s =
    (if length (wp_threads s) \<le> i then None
     else case fst (wp_threads s ! i) of
       W_busy owner running \<Rightarrow> Some (if priority then RunPriorityJob owner job s else RunParallelJob owner job s)
     | _ \<Rightarrow> None)"

datatype pool_action = Worker nat | Worker_spawns nat bool nat | Engine engine_action

definition pool_do :: "pool_action \<Rightarrow> worker_pool \<Rightarrow> worker_pool option" where
  "pool_do a s = (case a of
       Worker i \<Rightarrow> WorkerThread_step i s
     | Worker_spawns i priority job \<Rightarrow> job_spawns i priority job s
     | Engine e \<Rightarrow> engine_do e s)"

definition pool_step :: "worker_pool \<Rightarrow> worker_pool \<Rightarrow> bool" where
  "pool_step s t \<longleftrightarrow> (\<exists>a. pool_do a s = Some t)"

definition pool_init :: "worker_pool \<Rightarrow> bool" where
  "pool_init s \<longleftrightarrow> s = pool_new"

fun pool_run :: "pool_action list \<Rightarrow> worker_pool \<Rightarrow> worker_pool option" where
  "pool_run [] s = Some s"
| "pool_run (a # as) s = Option.bind (pool_do a s) (pool_run as)"

lemma pool_run_reachable: "pool_run as s = Some t \<Longrightarrow> reachable pool_init pool_step s \<Longrightarrow> reachable pool_init pool_step t"
proof (induction as arbitrary: s)
  case (Cons a as)
  then obtain u where "pool_do a s = Some u" "pool_run as u = Some t"
    by (auto simp: bind_eq_Some_conv)
  with Cons show ?case by (metis pool_step_def reach_step)
qed simp

section \<open>A late worker\<close>

lemma not_none: "\<not> Option.is_none x \<Longrightarrow> x = Some (the x)"
  by (cases x) simp_all

text \<open>Two instances, two workers that have been created but have not run yet, and a release.\<close>

definition late_start :: "pool_action list" where
  "late_start = [Engine New_instance, Engine New_instance, Engine (Start_threads 2), Engine (Begin_release 0)] @
     replicate 5 (Engine Continue) @ replicate 11 (Worker 0) @ replicate 3 (Worker 1)"

definition late_state :: worker_pool where
  "late_state = the (pool_run late_start pool_new)"

lemma late_state_reachable: "reachable pool_init pool_step late_state"
proof -
  have "\<not> Option.is_none (pool_run late_start pool_new)" by code_simp
  then have "pool_run late_start pool_new = Some late_state"
    unfolding late_state_def by (rule not_none)
  then show ?thesis by (rule pool_run_reachable) (simp add: reach_init pool_init_def)
qed

lemma late_state_fields:
  "wp_threads late_state = [(W_pop, 1), (W_pop, 1)]" "wp_tasks late_state = []" "wp_engine late_state = E_wait 0"
  "wp_pause_count late_state = 2"
  by code_simp+

lemma late_state_stuck: "\<not> pool_step late_state t"
proof
  assume "pool_step late_state t"
  then obtain a where a: "pool_do a late_state = Some t" by (auto simp: pool_step_def)
  show False
  proof (cases a)
    case (Worker i)
    then consider "i = 0" | "i = 1" | "2 \<le> i" by linarith
    then show False
      using a Worker by cases (simp_all add: pool_do_def WorkerThread_step_def late_state_fields Pop_def)
  next
    case (Worker_spawns i priority job)
    then consider "i = 0" | "i = 1" | "2 \<le> i" by linarith
    then show False
      using a Worker_spawns by cases (simp_all add: pool_do_def job_spawns_def late_state_fields)
  next
    case (Engine e)
    then show False
      using a by (cases e) (simp_all add: pool_do_def engine_do_def Release_step_def late_state_fields)
  qed
qed

text \<open>
  C36: a worker that starts late deadlocks \<open>Release\<close>.  There is a run in which two instances exist, the workers have just been
  created, and one instance is released: a worker that reads the pause number only after \<open>Release\<close> has advanced it takes the
  new number for its own and never parks.  The engine thread then waits for a count that no step can change any more: neither a
  worker nor the engine thread can move.
\<close>

theorem Release_late_worker_deadlock:
  "\<exists>s. reachable pool_init pool_step s \<and> wp_engine s = E_wait 0 \<and> wp_pause_count s \<noteq> 0 \<and> (\<forall>t. \<not> pool_step s t)"
  using late_state_reachable late_state_stuck late_state_fields by (intro exI[of _ late_state]) simp

section \<open>Invariant\<close>

text \<open>The pause number has been advanced once and not yet a second time.\<close>

definition pausing :: "engine_pc \<Rightarrow> bool" where
  "pausing e = (case e of E_push r n \<Rightarrow> True | E_wait r \<Rightarrow> True | E_remove r \<Rightarrow> True | E_proceed r \<Rightarrow> True | _ \<Rightarrow> False)"

definition parked_at :: "nat \<Rightarrow> worker_pc \<times> nat \<Rightarrow> bool" where
  "parked_at pid w \<longleftrightarrow> fst w = W_parked pid"

text \<open>
  Outside a pause every worker that has started knows the current number.  During a pause it is informed (it holds the
  previous number and will park), parked, or late.
\<close>

definition worker_ok :: "nat \<Rightarrow> bool \<Rightarrow> bool \<Rightarrow> worker_pc \<times> nat \<Rightarrow> bool" where
  "worker_ok pid pause running w = (case w of (pc, p) \<Rightarrow>
     pc = W_start \<or> pc = W_crash \<or> pc = W_exit \<and> \<not> running \<or>
     pc \<noteq> W_exit \<and>
     (if pause
      then p + 1 = pid \<and> (\<forall>q. pc = W_parked q \<longrightarrow> q + 2 = pid) \<or> pc = W_parked pid \<and> p = pid + 1 \<or>
        p = pid \<and> pc \<noteq> W_lock \<and> (\<forall>q. pc \<noteq> W_parked q)
      else p = pid \<and> pc \<noteq> W_lock \<and> (\<forall>q. pc = W_parked q \<longrightarrow> q + 1 = pid)))"

definition unparked :: "worker_pool \<Rightarrow> nat" where
  "unparked s = length (filter (\<lambda>w. \<not> parked_at (wp_pause_id s) w) (wp_threads s))"

definition pool_ok :: "worker_pool \<Rightarrow> bool" where
  "pool_ok s \<longleftrightarrow>
    (\<forall>w \<in> set (wp_threads s). worker_ok (wp_pause_id s) (pausing (wp_engine s)) (wp_worker_running s) w) \<and>
    (case wp_engine s of
       E_idle \<Rightarrow> \<not> wp_worker_running s \<longrightarrow> wp_threads s = []
     | E_count r \<Rightarrow> wp_worker_running s
     | E_lock r \<Rightarrow> wp_worker_running s \<and> wp_pause_count s = length (wp_threads s)
     | E_push r n \<Rightarrow> wp_worker_running s \<and> wp_pause_count s = unparked s
     | E_wait r \<Rightarrow> wp_worker_running s \<and> wp_pause_count s = unparked s
     | E_remove r \<Rightarrow> wp_worker_running s \<and> unparked s = 0
     | E_proceed r \<Rightarrow> wp_worker_running s \<and> unparked s = 0
     | E_notify r \<Rightarrow> wp_worker_running s
     | _ \<Rightarrow> True)"

lemma length_filter_update:
  "i < length xs \<Longrightarrow>
   length (filter P (xs[i := x])) + (if P (xs ! i) then 1 else 0) = length (filter P xs) + (if P x then 1 else 0)"
proof (induction xs arbitrary: i)
  case (Cons y ys)
  then show ?case using Cons.IH[of "i - 1"] by (cases i) (auto split: if_splits)
qed simp

lemma WorkerThread_cases:
  assumes "WorkerThread_step i s = Some t"
  obtains
    (start) p where "i < length (wp_threads s)" "wp_threads s ! i = (W_start, p)" "t = set_thread i W_head (wp_pause_id s) s"
  | (head) p where "i < length (wp_threads s)" "wp_threads s ! i = (W_head, p)"
      "t = set_thread i (if wp_worker_running s then W_check else W_exit) p s"
  | (check) p where "i < length (wp_threads s)" "wp_threads s ! i = (W_check, p)"
      "t = set_thread i (if p \<noteq> wp_pause_id s then W_lock else W_pop) p s"
  | (lock) p where "i < length (wp_threads s)" "wp_threads s ! i = (W_lock, p)" "pause_mutex_free s"
      "t = (set_thread i (W_parked (wp_pause_id s)) (wp_pause_id s + 1) s)\<lparr>wp_pause_count := wp_pause_count s - 1\<rparr>"
  | (wake) p q where "i < length (wp_threads s)" "wp_threads s ! i = (W_parked q, p)" "q \<noteq> wp_pause_id s"
      "t = set_thread i W_pop p s"
  | (pop) p item rest where "i < length (wp_threads s)" "wp_threads s ! i = (W_pop, p)" "wp_tasks s = item # rest"
      "t = (set_thread i (W_run item) p s)\<lparr>wp_tasks := rest\<rparr>"
  | (run) p owner task pc where "i < length (wp_threads s)" "wp_threads s ! i = (W_run (owner, task), p)"
      "pc = W_head \<or> pc = W_crash \<and> owner \<in> set (wp_instances s) \<and> task = None \<or> (\<exists>job. pc = W_busy owner job)"
      "t = set_thread i pc p s"
  | (finish) p owner job where "i < length (wp_threads s)" "wp_threads s ! i = (W_busy owner job, p)"
      "t = (set_thread i W_head p s)\<lparr>wp_completed := wp_completed s @ [(owner, Some job)]\<rparr>"
proof -
  have i: "i < length (wp_threads s)" and t: "case wp_threads s ! i of (pc, p) \<Rightarrow> WorkerThread_step i s = Some t"
    using assms by (auto simp: WorkerThread_step_def split: if_splits prod.splits)
  obtain pc p where w: "wp_threads s ! i = (pc, p)" by fastforce
  show thesis
  proof (cases pc)
    case (W_run item)
    then show ?thesis
      using run[OF i, of "fst item" "snd item" p "fst (wp_threads t ! i)"] w assms i
      by (cases item) (auto simp: WorkerThread_step_def set_thread_def split: if_splits option.splits)
  qed (use assms i w start head check lock wake pop finish in
      \<open>auto simp: WorkerThread_step_def Pop_def split: if_splits list.splits\<close>)
qed

lemmas unparked_update = length_filter_update[where P = "\<lambda>w. \<not> parked_at pid w" for pid]

lemma set_thread_simps [simp]:
  "wp_threads (set_thread i pc p s) = (wp_threads s)[i := (pc, p)]"
  "wp_engine (set_thread i pc p s) = wp_engine s" "wp_pause_id (set_thread i pc p s) = wp_pause_id s"
  "wp_worker_running (set_thread i pc p s) = wp_worker_running s" "wp_tasks (set_thread i pc p s) = wp_tasks s"
  "wp_pause_count (set_thread i pc p s) = wp_pause_count s" "wp_instances (set_thread i pc p s) = wp_instances s"
  "wp_next_instance (set_thread i pc p s) = wp_next_instance s"
  by (simp_all add: set_thread_def)

text \<open>What a worker's step changes: one thread, and the count exactly when it parks.\<close>

lemma worker_frame:
  assumes "WorkerThread_step i s = Some t"
  obtains w where "i < length (wp_threads s)" "wp_threads t = (wp_threads s)[i := w]" "wp_engine t = wp_engine s"
    "wp_pause_id t = wp_pause_id s" "wp_worker_running t = wp_worker_running s" "wp_instances t = wp_instances s"
    "wp_next_instance t = wp_next_instance s" "\<not> parked_at (wp_pause_id s) (wp_threads s ! i)"
    "wp_pause_count t = (if parked_at (wp_pause_id s) w then wp_pause_count s - 1 else wp_pause_count s)"
    "set (wp_tasks t) \<subseteq> set (wp_tasks s)"
  using assms that[of "wp_threads t ! i"] by (cases rule: WorkerThread_cases) (auto simp: parked_at_def)

lemma worker_keeps_ok:
  assumes "WorkerThread_step i s = Some t" "w = wp_threads s ! i" "worker_ok (wp_pause_id s) (pausing (wp_engine s)) (wp_worker_running s) w"
  shows "worker_ok (wp_pause_id s) (pausing (wp_engine s)) (wp_worker_running s) (wp_threads t ! i)"
  using assms by (cases rule: WorkerThread_cases) (auto simp: worker_ok_def split: if_splits)

lemma worker_preserves:
  assumes "WorkerThread_step i s = Some t" "pool_ok s"
  shows "pool_ok t"
proof -
  obtain w where w: "i < length (wp_threads s)" "wp_threads t = (wp_threads s)[i := w]" "wp_engine t = wp_engine s"
      "wp_pause_id t = wp_pause_id s" "wp_worker_running t = wp_worker_running s"
      "\<not> parked_at (wp_pause_id s) (wp_threads s ! i)"
      "wp_pause_count t = (if parked_at (wp_pause_id s) w then wp_pause_count s - 1 else wp_pause_count s)"
    using worker_frame[OF assms(1)] by metis
  have ok: "worker_ok (wp_pause_id s) (pausing (wp_engine s)) (wp_worker_running s) w"
    using worker_keeps_ok[OF assms(1) refl] assms(2) w(1,2) by (simp add: pool_ok_def)
  then have "\<forall>v \<in> set (wp_threads t). worker_ok (wp_pause_id t) (pausing (wp_engine t)) (wp_worker_running t) v"
    using assms(2) set_update_subset_insert[of "wp_threads s" i w] w by (auto simp: pool_ok_def)
  moreover have "unparked t + 1 = unparked s + (if parked_at (wp_pause_id s) w then 0 else 1)"
    using unparked_update[of i "wp_threads s" "wp_pause_id s" w] w by (simp add: unparked_def split: if_splits)
  moreover have "parked_at (wp_pause_id s) w \<Longrightarrow> pausing (wp_engine s)"
    using ok by (cases w) (auto simp: worker_ok_def parked_at_def split: if_splits)
  ultimately show ?thesis
    using assms(2) w by (auto simp: pool_ok_def pausing_def split: engine_pc.splits if_splits)
qed


text \<open>The lines of \<open>Release\<close>, one rule each.\<close>

lemma Release_cases:
  assumes "Release_step s = Some t"
  obtains
    (count) r where "wp_engine s = E_count r" "t = s\<lparr>wp_pause_count := length (wp_threads s), wp_engine := E_lock r\<rparr>"
  | (lock) r where "wp_engine s = E_lock r"
      "t = s\<lparr>wp_pause_id := wp_pause_id s + 1, wp_engine := E_push r (length (wp_threads s))\<rparr>"
  | (push) r n where "wp_engine s = E_push r (Suc n)" "t = (push_dummy r s)\<lparr>wp_engine := E_push r n\<rparr>"
  | (pushed) r where "wp_engine s = E_push r 0" "t = s\<lparr>wp_engine := E_wait r\<rparr>"
  | (waited) r where "wp_engine s = E_wait r" "wp_pause_count s = 0" "t = s\<lparr>wp_engine := E_remove r\<rparr>"
  | (remove) r q where "wp_engine s = E_remove r" "RemoveAllIf (\<lambda>x. fst x = r) (wp_tasks s) = Some q"
      "t = s\<lparr>wp_tasks := q, wp_engine := E_proceed r\<rparr>"
  | (proceed) r where "wp_engine s = E_proceed r" "t = s\<lparr>wp_pause_id := wp_pause_id s + 1, wp_engine := E_notify r\<rparr>"
  | (notify) r where "wp_engine s = E_notify r" "t = s\<lparr>wp_engine := E_idle\<rparr>"
  | (stop) r n where "wp_engine s = X_push r (Suc n)" "t = (push_dummy r s)\<lparr>wp_engine := X_push r n\<rparr>"
  | (stopped) r where "wp_engine s = X_push r 0" "t = s\<lparr>wp_engine := X_join r\<rparr>"
  | (join) r where "wp_engine s = X_join r" "t = s\<lparr>wp_threads := [], wp_tasks := [], wp_engine := E_idle\<rparr>"
proof (cases "wp_engine s")
  case E_idle
  then show thesis using assms by (simp add: Release_step_def)
next
  case (E_push r n)
  then show thesis using assms push[of r] pushed[of r] by (cases n) (simp_all add: Release_step_def)
next
  case (X_push r n)
  then show thesis using assms stop[of r] stopped[of r] by (cases n) (simp_all add: Release_step_def)
next
  case (E_remove r)
  then obtain q where "RemoveAllIf (\<lambda>x. fst x = r) (wp_tasks s) = Some q" "t = s\<lparr>wp_tasks := q, wp_engine := E_proceed r\<rparr>"
    using assms by (auto simp: Release_step_def)
  then show thesis by (rule remove[OF E_remove])
next
  case (E_count r)
  then show thesis using assms by (intro count[of r]) (simp_all add: Release_step_def split: if_splits)
next
  case (E_lock r)
  then show thesis using assms by (intro lock[of r]) (simp_all add: Release_step_def split: if_splits)
next
  case (E_wait r)
  then show thesis using assms by (intro waited[of r]) (simp_all add: Release_step_def split: if_splits)
next
  case (E_proceed r)
  then show thesis using assms by (intro proceed[of r]) (simp_all add: Release_step_def split: if_splits)
next
  case (E_notify r)
  then show thesis using assms by (intro notify[of r]) (simp_all add: Release_step_def split: if_splits)
next
  case (X_join r)
  then show thesis using assms by (intro join[of r]) (simp_all add: Release_step_def split: if_splits)
qed

lemma worker_ok_pause: "worker_ok pid False running w \<Longrightarrow> worker_ok (Suc pid) True running w"
  by (auto simp: worker_ok_def split: prod.splits)

lemma worker_ok_proceed: "parked_at pid w \<Longrightarrow> worker_ok pid True running w \<Longrightarrow> worker_ok (Suc pid) False running w"
  by (auto simp: worker_ok_def parked_at_def split: prod.splits)

lemma worker_ok_stop: "worker_ok pid pause True w \<Longrightarrow> worker_ok pid pause False w"
  by (auto simp: worker_ok_def split: prod.splits)

lemma unparked_zero: "unparked s = 0 \<longleftrightarrow> (\<forall>w \<in> set (wp_threads s). parked_at (wp_pause_id s) w)"
  by (auto simp: unparked_def filter_empty_conv)

lemma not_parked_next: "worker_ok pid False running w \<Longrightarrow> \<not> parked_at (Suc pid) w"
  by (auto simp: worker_ok_def parked_at_def split: prod.splits)

lemma Release_preserves:
  assumes "Release_step s = Some t" "pool_ok s"
  shows "pool_ok t"
  using assms(1)
proof (cases rule: Release_cases)
  case (lock r)
  have "\<forall>w \<in> set (wp_threads s). \<not> parked_at (Suc (wp_pause_id s)) w"
    using assms(2) lock not_parked_next by (auto simp: pool_ok_def pausing_def)
  then have "unparked t = length (wp_threads s)"
    using lock by (simp add: unparked_def)
  then show ?thesis
    using assms(2) lock worker_ok_pause by (auto simp: pool_ok_def pausing_def)
next
  case (proceed r)
  then show ?thesis
    using assms(2) worker_ok_proceed by (auto simp: pool_ok_def pausing_def unparked_zero)
qed (use assms(2) in \<open>auto simp: pool_ok_def pausing_def push_dummy_def unparked_def\<close>)

lemma StartThreads_preserves: "pool_ok s \<Longrightarrow> wp_engine s = E_idle \<Longrightarrow> pool_ok (StartThreads n s)"
  by (auto simp: StartThreads_def pool_ok_def pausing_def worker_ok_def)

lemma Release_begin_preserves: "pool_ok s \<Longrightarrow> wp_engine s = E_idle \<Longrightarrow> pool_ok (Release_begin r s)"
  using worker_ok_stop by (auto simp: Release_begin_def Let_def pool_ok_def pausing_def)

lemma pool_ok_frame:
  "wp_engine t = wp_engine s \<Longrightarrow> wp_pause_id t = wp_pause_id s \<Longrightarrow> wp_worker_running t = wp_worker_running s \<Longrightarrow>
   wp_threads t = wp_threads s \<Longrightarrow> wp_pause_count t = wp_pause_count s \<Longrightarrow> pool_ok t = pool_ok s"
  by (cases "wp_engine s") (simp_all add: pool_ok_def unparked_def)

lemma engine_do_cases:
  assumes "engine_do a s = Some t"
  obtains (continue) "a = Continue" "Release_step s = Some t"
  | (new) "a = New_instance" "wp_engine s = E_idle"
      "t = s\<lparr>wp_instances := wp_next_instance s # wp_instances s, wp_next_instance := wp_next_instance s + 1\<rparr>"
  | (start) n where "wp_engine s = E_idle" "t = StartThreads n s"
  | (parallel) self job where "wp_engine s = E_idle" "t = RunParallelJob self job s"
  | (priority) self job where "wp_engine s = E_idle" "t = RunPriorityJob self job s"
  | (release) self where "wp_engine s = E_idle" "t = Release_begin self s"
  using assms by (cases a) (auto simp: engine_do_def split: if_splits)

lemma engine_preserves:
  assumes "engine_do a s = Some t" "pool_ok s"
  shows "pool_ok t"
  using assms(1)
proof (cases rule: engine_do_cases)
  case new
  then show ?thesis using assms(2) by (subst pool_ok_frame[of _ s]) simp_all
next
  case (parallel self job)
  then show ?thesis using assms(2) by (subst pool_ok_frame[of _ s]) (simp_all add: RunParallelJob_def)
next
  case (priority self job)
  then show ?thesis using assms(2) by (subst pool_ok_frame[of _ s]) (simp_all add: RunPriorityJob_def)
qed (use assms(2) in \<open>auto intro: Release_preserves StartThreads_preserves Release_begin_preserves\<close>)

lemma job_spawns_frame:
  assumes "job_spawns i priority job s = Some t"
  obtains q owner where "t = s\<lparr>wp_tasks := q\<rparr>" "set q = insert (owner, Some job) (set (wp_tasks s))"
    "length q = Suc (length (wp_tasks s))"
  using assms that
  by (auto simp: job_spawns_def RunPriorityJob_def RunParallelJob_def PushBack_def PushFront_def
      split: if_splits worker_pc.splits)

lemma spawn_preserves:
  assumes "job_spawns i priority job s = Some t" "pool_ok s"
  shows "pool_ok t"
proof -
  obtain q where "t = s\<lparr>wp_tasks := q\<rparr>"
    using job_spawns_frame[OF assms(1)] by metis
  then show ?thesis using assms(2) by (subst pool_ok_frame[of _ s]) simp_all
qed

lemma pool_step_cases:
  assumes "pool_step s t"
  obtains (worker) i where "WorkerThread_step i s = Some t" | (engine) e where "engine_do e s = Some t"
  | (spawn) i priority job where "job_spawns i priority job s = Some t"
proof -
  obtain a where "pool_do a s = Some t" using assms by (auto simp: pool_step_def)
  then show thesis by (cases a) (auto simp: pool_do_def intro: that)
qed

lemma reachable_pool_ok: "reachable pool_init pool_step s \<Longrightarrow> pool_ok s"
proof (erule reachable_invariant)
  show "pool_init s \<Longrightarrow> pool_ok s" for s
    by (simp add: pool_init_def pool_new_def pool_ok_def)
  show "pool_ok s \<Longrightarrow> pool_step s t \<Longrightarrow> pool_ok t" for s t
    by (erule pool_step_cases) (auto intro: worker_preserves engine_preserves spawn_preserves)
qed

section \<open>Dummies are never run\<close>

text \<open>A dummy belongs to an instance that has been released, and instance numbers are not used again.\<close>

definition releasing :: "engine_pc \<Rightarrow> nat set" where
  "releasing e = (case e of E_count r \<Rightarrow> {r} | E_lock r \<Rightarrow> {r} | E_push r n \<Rightarrow> {r} | X_push r n \<Rightarrow> {r} | _ \<Rightarrow> {})"

definition dummies :: "worker_pool \<Rightarrow> nat set" where
  "dummies s = {r. (r, None) \<in> set (wp_tasks s)} \<union> {r. W_run (r, None) \<in> fst ` set (wp_threads s)} \<union> releasing (wp_engine s)"

definition dummy_ok :: "worker_pool \<Rightarrow> bool" where
  "dummy_ok s \<longleftrightarrow> (\<forall>r \<in> set (wp_instances s). r < wp_next_instance s) \<and>
    (\<forall>r \<in> dummies s. r < wp_next_instance s \<and> r \<notin> set (wp_instances s)) \<and> W_crash \<notin> fst ` set (wp_threads s)"

lemma worker_pcs:
  assumes "WorkerThread_step i s = Some t" "dummy_ok s"
  shows "fst (wp_threads t ! i) \<noteq> W_crash"
    and "fst (wp_threads t ! i) = W_run (r, None) \<Longrightarrow> (r, None) \<in> set (wp_tasks s)"
proof -
  have "owner \<notin> set (wp_instances s)" if "i < length (wp_threads s)" "wp_threads s ! i = (W_run (owner, None), p)" for owner p
  proof -
    have "(W_run (owner, None), p) \<in> set (wp_threads s)" using that nth_mem by metis
    then have "owner \<in> dummies s" by (force simp: dummies_def)
    then show ?thesis using assms(2) by (simp add: dummy_ok_def)
  qed
  with assms(1) show "fst (wp_threads t ! i) \<noteq> W_crash"
    by (cases rule: WorkerThread_cases) (auto split: if_splits)
  show "fst (wp_threads t ! i) = W_run (r, None) \<Longrightarrow> (r, None) \<in> set (wp_tasks s)"
    using assms(1) by (cases rule: WorkerThread_cases) (auto split: if_splits)
qed

lemma dummy_ok_worker:
  assumes "WorkerThread_step i s = Some t" "dummy_ok s"
  shows "dummy_ok t"
proof -
  obtain w where w: "i < length (wp_threads s)" "wp_threads t = (wp_threads s)[i := w]" "wp_engine t = wp_engine s"
      "wp_instances t = wp_instances s" "wp_next_instance t = wp_next_instance s" "set (wp_tasks t) \<subseteq> set (wp_tasks s)"
    using worker_frame[OF assms(1)] by metis
  have "fst ` set (wp_threads t) \<subseteq> insert (fst w) (fst ` set (wp_threads s))"
    unfolding w(2) using set_update_subset_insert[of "wp_threads s" i w] by blast
  moreover have "wp_threads t ! i = w" using w(1,2) by simp
  ultimately have "dummies t \<subseteq> dummies s" "W_crash \<in> fst ` set (wp_threads t) \<Longrightarrow> W_crash \<in> fst ` set (wp_threads s)"
    using worker_pcs[OF assms] w(3,6) by (auto simp: dummies_def)
  then show ?thesis
    using assms(2) w(4,5) by (auto simp: dummy_ok_def)
qed

lemma dummy_ok_release:
  assumes "Release_step s = Some t" "dummy_ok s"
  shows "dummy_ok t"
  using assms(1)
proof (cases rule: Release_cases)
  case (remove r q)
  then show ?thesis using assms(2) RemoveAllIf_set[OF remove(2)] by (auto simp: dummy_ok_def dummies_def releasing_def)
qed (use assms(2) in \<open>auto simp: dummy_ok_def dummies_def releasing_def push_dummy_def PushBack_def\<close>)

lemma dummy_ok_engine:
  assumes "engine_do a s = Some t" "dummy_ok s"
  shows "dummy_ok t"
  using assms(1)
proof (cases rule: engine_do_cases)
  case continue
  then show ?thesis using assms(2) by (auto intro: dummy_ok_release)
next
  case new
  then show ?thesis using assms(2) by (auto simp: dummy_ok_def dummies_def releasing_def less_SucI)
next
  case (start n)
  then show ?thesis using assms(2) by (auto simp: dummy_ok_def dummies_def releasing_def StartThreads_def image_Un)
next
  case (parallel self job)
  then show ?thesis using assms(2) by (auto simp: dummy_ok_def dummies_def releasing_def RunParallelJob_def PushBack_def)
next
  case (priority self job)
  then show ?thesis using assms(2) by (auto simp: dummy_ok_def dummies_def releasing_def RunPriorityJob_def PushFront_def)
next
  case (release self)
  then show ?thesis using assms(2) by (auto simp: dummy_ok_def dummies_def releasing_def Release_begin_def Let_def)
qed

lemma dummy_ok_spawn:
  assumes "job_spawns i priority job s = Some t" "dummy_ok s"
  shows "dummy_ok t"
proof -
  obtain q owner where "t = s\<lparr>wp_tasks := q\<rparr>" "set q = insert (owner, Some job) (set (wp_tasks s))"
    using job_spawns_frame[OF assms(1)] by metis
  then have "dummies t = dummies s" "wp_instances t = wp_instances s" "wp_next_instance t = wp_next_instance s"
      "wp_threads t = wp_threads s"
    by (simp_all add: dummies_def)
  then show ?thesis using assms(2) by (simp add: dummy_ok_def)
qed

lemma reachable_dummy_ok: "reachable pool_init pool_step s \<Longrightarrow> dummy_ok s"
proof (erule reachable_invariant)
  show "pool_init s \<Longrightarrow> dummy_ok s" for s
    by (simp add: pool_init_def pool_new_def dummy_ok_def dummies_def releasing_def)
  show "dummy_ok s \<Longrightarrow> pool_step s t \<Longrightarrow> dummy_ok t" for s t
    by (erule pool_step_cases) (auto intro: dummy_ok_worker dummy_ok_engine dummy_ok_spawn)
qed


section \<open>The pause ends\<close>

text \<open>
  \<open>Release\<close> once it has advanced the pause number, when every worker had started: each worker is informed, so it takes at most
  one more item before it parks, and there is a dummy for each.
\<close>

definition may_pop :: "nat \<Rightarrow> worker_pc \<times> nat \<Rightarrow> bool" where
  "may_pop pid w = (case fst w of W_pop \<Rightarrow> True | W_parked q \<Rightarrow> q \<noteq> pid | _ \<Rightarrow> False)"

definition poppers :: "worker_pool \<Rightarrow> nat" where
  "poppers s = length (filter (may_pop (wp_pause_id s)) (wp_threads s))"

definition waiting :: "nat \<Rightarrow> engine_pc \<Rightarrow> bool" where
  "waiting r e = (case e of E_push r' n \<Rightarrow> r' = r | E_wait r' \<Rightarrow> r' = r | _ \<Rightarrow> False)"

definition to_push :: "engine_pc \<Rightarrow> nat" where
  "to_push e = (case e of E_push r n \<Rightarrow> n | _ \<Rightarrow> 0)"

definition informed :: "nat \<Rightarrow> worker_pool \<Rightarrow> bool" where
  "informed r s \<longleftrightarrow> pool_ok s \<and> dummy_ok s \<and> waiting r (wp_engine s) \<and>
    (\<forall>w \<in> set (wp_threads s). fst w \<noteq> W_start \<and> snd w \<noteq> wp_pause_id s) \<and>
    poppers s \<le> length (wp_tasks s) + to_push (wp_engine s)"

text \<open>A bound on the steps that are left, apart from those in which a running job queues another.\<close>

definition worker_left :: "nat \<Rightarrow> worker_pc \<times> nat \<Rightarrow> nat" where
  "worker_left pid w = (case fst w of W_busy x y \<Rightarrow> 4 | W_run x \<Rightarrow> 5 | W_head \<Rightarrow> 3 | W_check \<Rightarrow> 2 | W_lock \<Rightarrow> 1 | W_pop \<Rightarrow> 6
     | W_parked q \<Rightarrow> if q = pid then 0 else 7 | _ \<Rightarrow> 0)"

definition engine_left :: "engine_pc \<Rightarrow> nat" where
  "engine_left e = (case e of E_push r k \<Rightarrow> k + 1 | _ \<Rightarrow> 0)"

definition steps_left :: "worker_pool \<Rightarrow> nat" where
  "steps_left s = engine_left (wp_engine s) + sum_list (map (worker_left (wp_pause_id s)) (wp_threads s))"

definition is_spawn :: "pool_action \<Rightarrow> bool" where
  "is_spawn a = (case a of Worker_spawns i priority job \<Rightarrow> True | _ \<Rightarrow> False)"

lemma sum_list_map_update:
  "i < length xs \<Longrightarrow> sum_list (map f (xs[i := x])) + f (xs ! i) = sum_list (map f xs) + (f x :: nat)"
proof (induction xs arbitrary: i)
  case (Cons y ys)
  then show ?case using Cons.IH[of "i - 1"] by (cases i) auto
qed simp

text \<open>The effect of an informed worker's step on the items it may still take and on the bound.\<close>

lemma worker_progress:
  assumes "WorkerThread_step i s = Some t" "wp_worker_running s" "fst (wp_threads s ! i) \<noteq> W_start" "dummy_ok s"
    and "snd (wp_threads s ! i) \<noteq> wp_pause_id s"
  obtains w where "wp_threads t = (wp_threads s)[i := w]" "fst w \<noteq> W_start"
    "snd w = snd (wp_threads s ! i) \<or> snd w = wp_pause_id s + 1"
    "worker_left (wp_pause_id s) w < worker_left (wp_pause_id s) (wp_threads s ! i)"
    "length (wp_tasks s) + (if may_pop (wp_pause_id s) w then 1 else 0) \<le>
       length (wp_tasks t) + (if may_pop (wp_pause_id s) (wp_threads s ! i) then 1 else 0)"
proof -
  have "fst (wp_threads t ! i) \<noteq> W_crash" by (rule worker_pcs(1)[OF assms(1,4)])
  with assms(1) show thesis
    by (cases rule: WorkerThread_cases)
      (use assms(2,3,5) that[of "wp_threads t ! i"] in \<open>auto simp: worker_left_def may_pop_def\<close>)
qed

lemma worker_informed:
  assumes "WorkerThread_step i s = Some t" "informed r s"
  shows "informed r t" "steps_left t < steps_left s"
proof -
  obtain v where v: "i < length (wp_threads s)" "wp_threads t = (wp_threads s)[i := v]" "wp_engine t = wp_engine s"
      "wp_pause_id t = wp_pause_id s" "wp_worker_running t = wp_worker_running s"
    using worker_frame[OF assms(1)] by metis
  have run: "wp_worker_running s"
    using assms(2) by (auto simp: informed_def waiting_def pool_ok_def split: engine_pc.splits)
  have mem: "wp_threads s ! i \<in> set (wp_threads s)" using v(1) by simp
  obtain w where w: "wp_threads t = (wp_threads s)[i := w]" "fst w \<noteq> W_start"
      "snd w = snd (wp_threads s ! i) \<or> snd w = wp_pause_id s + 1"
      "worker_left (wp_pause_id s) w < worker_left (wp_pause_id s) (wp_threads s ! i)"
      "length (wp_tasks s) + (if may_pop (wp_pause_id s) w then 1 else 0) \<le>
       length (wp_tasks t) + (if may_pop (wp_pause_id s) (wp_threads s ! i) then 1 else 0)"
    using worker_progress[OF assms(1) run] assms(2) mem unfolding informed_def by metis
  show "steps_left t < steps_left s"
    using sum_list_map_update[OF v(1), of "worker_left (wp_pause_id s)" w] w(1,4) v(3,4) by (simp add: steps_left_def)
  have "poppers t \<le> length (wp_tasks t) + to_push (wp_engine t)"
    using length_filter_update[OF v(1), of "may_pop (wp_pause_id s)" w] w(1,5) v(3,4) assms(2) mem
    by (auto simp: informed_def poppers_def split: if_splits)
  moreover have "\<forall>u \<in> set (wp_threads t). fst u \<noteq> W_start \<and> snd u \<noteq> wp_pause_id t"
    using assms(2) set_update_subset_insert[of "wp_threads s" i w] w(1-3) v(3,4) mem by (fastforce simp: informed_def)
  ultimately show "informed r t"
    using assms worker_preserves dummy_ok_worker v(3) by (auto simp: informed_def)
qed

lemma spawn_informed:
  assumes "job_spawns i priority job s = Some t" "informed r s"
  shows "informed r t" "steps_left t = steps_left s"
proof -
  obtain q owner where "t = s\<lparr>wp_tasks := q\<rparr>" "length q = Suc (length (wp_tasks s))"
    using job_spawns_frame[OF assms(1)] by metis
  then show "informed r t" "steps_left t = steps_left s"
    using assms(2) spawn_preserves[OF assms(1)] dummy_ok_spawn[OF assms(1)]
    by (simp_all add: informed_def steps_left_def poppers_def)
qed

lemma informed_workers:
  assumes "informed r s" "w \<in> set (wp_threads s)"
  shows "fst w \<notin> {W_start, W_crash, W_exit}"
proof -
  have run: "wp_worker_running s"
    using assms(1) by (auto simp: informed_def waiting_def pool_ok_def split: engine_pc.splits)
  have "fst w \<in> fst ` set (wp_threads s)" using assms(2) by (rule imageI)
  then have "fst w \<noteq> W_crash" using assms(1) by (metis informed_def dummy_ok_def)
  then have "worker_ok (wp_pause_id s) (pausing (wp_engine s)) (wp_worker_running s) w" "fst w \<noteq> W_start" "fst w \<noteq> W_crash"
    using assms by (simp_all add: informed_def pool_ok_def)
  with run show ?thesis
    by (cases w) (auto simp: worker_ok_def)
qed

text \<open>Advancing the pause number informs every worker that has started.\<close>

lemma informed_lock:
  assumes "pool_ok s" "dummy_ok s" "wp_engine s = E_lock r" "W_start \<notin> fst ` set (wp_threads s)"
    and "Release_step s = Some t"
  shows "informed r t" "steps_left t \<le> 8 * length (wp_threads s) + 1"
proof -
  have t: "t = s\<lparr>wp_pause_id := wp_pause_id s + 1, wp_engine := E_push r (length (wp_threads s))\<rparr>"
    using assms(3,5) by (simp add: Release_step_def)
  have "snd w = wp_pause_id s \<and> fst w \<noteq> W_start" if "w \<in> set (wp_threads s)" for w
  proof -
    have mem: "fst w \<in> fst ` set (wp_threads s)" using that by (rule imageI)
    then have "fst w \<noteq> W_crash" "fst w \<noteq> W_start"
      using assms(2,4) by (metis dummy_ok_def)+
    then show ?thesis
      using assms(1,3) that by (cases w) (auto simp: pool_ok_def pausing_def worker_ok_def)
  qed
  moreover have "poppers t \<le> length (wp_threads s)"
    using t by (simp add: poppers_def)
  ultimately show "informed r t"
    using t Release_preserves[OF assms(5,1)] dummy_ok_release[OF assms(5,2)]
    by (auto simp: informed_def waiting_def to_push_def)
  have "sum_list (map (worker_left pid) ws) \<le> 7 * length ws" for pid ws
    by (induction ws) (auto simp: worker_left_def split: worker_pc.splits)
  then show "steps_left t \<le> 8 * length (wp_threads s) + 1"
    using t by (simp add: steps_left_def engine_left_def)
qed

lemma engine_informed:
  assumes "engine_do e s = Some t" "informed r s"
  shows "informed r t \<and> steps_left t < steps_left s \<or> wp_engine t = E_remove r \<and> wp_engine s = E_wait r"
proof -
  have ok: "pool_ok t" "dummy_ok t"
    using assms engine_preserves dummy_ok_engine by (auto simp: informed_def)
  have wait: "waiting r (wp_engine s)" using assms(2) by (simp add: informed_def)
  from assms(1) have "Release_step s = Some t"
    by (cases rule: engine_do_cases) (use wait in \<open>auto simp: waiting_def\<close>)
  then show ?thesis
    by (cases rule: Release_cases)
      (use assms(2) ok wait in
        \<open>auto simp: informed_def waiting_def to_push_def push_dummy_def PushBack_def poppers_def steps_left_def engine_left_def\<close>)
qed

text \<open>Until the engine thread has counted every worker as parked, some thread can move, without any job queueing another.\<close>

lemma worker_can_move:
  assumes "i < length (wp_threads s)" "fst (wp_threads s ! i) \<notin> {W_start, W_crash, W_exit}" "pause_mutex_free s"
    and "\<not> parked_at (wp_pause_id s) (wp_threads s ! i)" "fst (wp_threads s ! i) = W_pop \<Longrightarrow> wp_tasks s \<noteq> []"
  shows "\<exists>t. WorkerThread_step i s = Some t"
  using assms
  by (cases "wp_threads s ! i"; cases "fst (wp_threads s ! i)")
    (auto simp: WorkerThread_step_def parked_at_def Pop_def split: list.splits option.splits)

lemma informed_can_move:
  assumes "informed r s"
  shows "\<exists>a u. \<not> is_spawn a \<and> pool_do a s = Some u"
proof (cases "\<exists>t. Release_step s = Some t")
  case True
  then obtain t where "Release_step s = Some t" by blast
  then have "pool_do (Engine Continue) s = Some t" by (simp add: pool_do_def engine_do_def)
  moreover have "\<not> is_spawn (Engine Continue)" by (simp add: is_spawn_def)
  ultimately show ?thesis by blast
next
  case False
  then have wait: "wp_engine s = E_wait r" "wp_pause_count s \<noteq> 0"
    using assms by (auto simp: informed_def waiting_def Release_step_def split: engine_pc.splits nat.splits if_splits)
  then have "unparked s \<noteq> 0" using assms by (simp add: informed_def pool_ok_def)
  then obtain i where i: "i < length (wp_threads s)" "\<not> parked_at (wp_pause_id s) (wp_threads s ! i)"
    by (auto simp: unparked_zero in_set_conv_nth)
  have "wp_tasks s \<noteq> []" if "fst (wp_threads s ! i) = W_pop"
  proof -
    have "wp_threads s ! i \<in> set (filter (may_pop (wp_pause_id s)) (wp_threads s))"
      using i(1) that by (simp add: may_pop_def)
    then have "0 < poppers s" unfolding poppers_def by (rule length_pos_if_in_set)
    then show ?thesis using assms wait by (auto simp: informed_def to_push_def)
  qed
  then obtain t where "WorkerThread_step i s = Some t"
    using worker_can_move[OF i(1) _ _ i(2)] informed_workers[OF assms nth_mem[OF i(1)]] wait(1)
    by (auto simp: pause_mutex_free_def)
  then have "pool_do (Worker i) s = Some t" by (simp add: pool_do_def)
  moreover have "\<not> is_spawn (Worker i)" by (simp add: is_spawn_def)
  ultimately show ?thesis by blast
qed

lemma pool_do_informed:
  assumes "pool_do a s = Some t" "informed r s"
  shows "informed r t \<and> steps_left t + (if is_spawn a then 0 else 1) \<le> steps_left s \<or> wp_engine t = E_remove r"
proof (cases a)
  case (Worker i)
  then show ?thesis using assms worker_informed[of i s t r] by (simp add: pool_do_def is_spawn_def)
next
  case (Worker_spawns i priority job)
  then show ?thesis using assms spawn_informed[of i priority job s t r] by (simp add: pool_do_def is_spawn_def)
next
  case (Engine e)
  then show ?thesis using assms engine_informed[of e s t r] by (auto simp: pool_do_def is_spawn_def)
qed

abbreviation own_steps :: "pool_action list \<Rightarrow> nat" where
  "own_steps as \<equiv> length (filter (\<lambda>a. \<not> is_spawn a) as)"

lemma informed_run:
  assumes "informed r s" "pool_run as s = Some t"
  shows "informed r t \<and> own_steps as \<le> steps_left s \<or>
    (\<exists>bs cs u. as = bs @ cs \<and> own_steps bs \<le> steps_left s + 1 \<and> pool_run bs s = Some u \<and> wp_engine u = E_remove r)"
  using assms
proof (induction as arbitrary: s)
  case (Cons a as)
  then obtain u where u: "pool_do a s = Some u" "pool_run as u = Some t"
    by (auto simp: bind_eq_Some_conv)
  show ?case
  proof (cases "wp_engine u = E_remove r")
    case True
    then show ?thesis using u(1) by (intro disjI2 exI[of _ "[a]"] exI[of _ as] exI[of _ u]) simp
  next
    case False
    then have inf: "informed r u" "steps_left u + (if is_spawn a then 0 else 1) \<le> steps_left s"
      using pool_do_informed[OF u(1) Cons.prems(1)] by auto
    from Cons.IH[OF inf(1) u(2)] show ?thesis
    proof (elim disjE exE conjE)
      fix bs cs v
      assume "as = bs @ cs" "own_steps bs \<le> steps_left u + 1" "pool_run bs u = Some v" "wp_engine v = E_remove r"
      then show ?thesis
        using u(1) inf(2) by (intro disjI2 exI[of _ "a # bs"] exI[of _ cs] exI[of _ v]) (simp split: if_splits)
    qed (use inf(2) in \<open>simp split: if_splits\<close>)
  qed
qed simp

text \<open>
  C11: releasing an instance does not hang when the workers have started.  Take any reachable state in which \<open>Release\<close> takes
  the pause mutex to advance the pause number, none of the workers still having to run its first line.  Whatever the
  interleaving, and however many further jobs the running jobs queue in the meantime, the engine thread gets past its
  wait within 8 steps per worker plus two, not counting the steps in which a job queues another: each worker finishes at most
  one item that it still takes.  Until then some thread can always move.
\<close>

theorem Release_pause_terminates:
  assumes "reachable pool_init pool_step s" "wp_engine s = E_lock r" "W_start \<notin> fst ` set (wp_threads s)"
    and "pool_do (Engine Continue) s = Some s'" "pool_run as s' = Some t"
  shows "(\<exists>bs cs u. as = bs @ cs \<and> length (filter (\<lambda>a. \<not> is_spawn a) bs) \<le> 8 * length (wp_threads s) + 2 \<and>
      pool_run bs s' = Some u \<and> wp_engine u = E_remove r) \<or>
    length (filter (\<lambda>a. \<not> is_spawn a) as) \<le> 8 * length (wp_threads s) + 1 \<and> (\<exists>a u. \<not> is_spawn a \<and> pool_do a t = Some u)"
proof -
  have "Release_step s = Some s'"
    using assms(4) by (simp add: pool_do_def engine_do_def)
  note start = informed_lock[OF reachable_pool_ok[OF assms(1)] reachable_dummy_ok[OF assms(1)] assms(2,3) this]
  from informed_run[OF start(1) assms(5)] show ?thesis
  proof (elim disjE exE conjE)
    assume "informed r t" "own_steps as \<le> steps_left s'"
    then show ?thesis using start(2) informed_can_move[of r t] by simp
  next
    fix bs cs u
    assume "as = bs @ cs" "own_steps bs \<le> steps_left s' + 1" "pool_run bs s' = Some u" "wp_engine u = E_remove r"
    then show ?thesis using start(2) by (intro disjI1 exI[of _ bs] exI[of _ cs] exI[of _ u]) simp
  qed
qed

text \<open>
  Two workers that have started, one of them running a job, and a release of the other instance: the job queues two more and
  the run goes on until the wait is over.
\<close>

definition prompt_start :: "pool_action list" where
  "prompt_start = [Engine New_instance, Engine New_instance, Engine (Start_threads 2), Worker 0, Worker 1,
     Engine (Run_parallel 1 5), Worker 0, Worker 0, Worker 0, Worker 0, Engine (Begin_release 0), Engine Continue]"

definition prompt_state :: worker_pool where
  "prompt_state = the (pool_run prompt_start pool_new)"

definition prompt_paused :: worker_pool where
  "prompt_paused = the (pool_do (Engine Continue) prompt_state)"

definition prompt_run :: "pool_action list" where
  "prompt_run = Worker_spawns 0 True 6 # replicate 3 (Engine Continue) @ [Worker_spawns 0 False 7] @
     replicate 4 (Worker 0) @ replicate 3 (Worker 1) @ [Engine Continue]"

definition prompt_end :: worker_pool where
  "prompt_end = the (pool_run prompt_run prompt_paused)"

lemma prompt_state_reachable: "reachable pool_init pool_step prompt_state"
proof -
  have "\<not> Option.is_none (pool_run prompt_start pool_new)" by code_simp
  then have "pool_run prompt_start pool_new = Some prompt_state"
    unfolding prompt_state_def by (rule not_none)
  then show ?thesis by (rule pool_run_reachable) (simp add: reach_init pool_init_def)
qed

lemma prompt_state_fields:
  "wp_engine prompt_state = E_lock 0" "wp_threads prompt_state = [(W_busy 1 5, 0), (W_head, 0)]"
  by code_simp+

lemma prompt_pauses: "pool_do (Engine Continue) prompt_state = Some prompt_paused"
proof -
  have "\<not> Option.is_none (pool_do (Engine Continue) prompt_state)" by code_simp
  then show ?thesis unfolding prompt_paused_def by (rule not_none)
qed

lemma prompt_end_run: "pool_run prompt_run prompt_paused = Some prompt_end"
proof -
  have "\<not> Option.is_none (pool_run prompt_run prompt_paused)" by code_simp
  then show ?thesis unfolding prompt_end_def by (rule not_none)
qed

theorem Release_pause_terminates_witness:
  "wp_engine prompt_end = E_remove 0 \<and>
   ((\<exists>bs cs u. prompt_run = bs @ cs \<and> length (filter (\<lambda>a. \<not> is_spawn a) bs) \<le> 18 \<and> pool_run bs prompt_paused = Some u \<and>
       wp_engine u = E_remove 0) \<or>
    length (filter (\<lambda>a. \<not> is_spawn a) prompt_run) \<le> 17 \<and> (\<exists>a u. \<not> is_spawn a \<and> pool_do a prompt_end = Some u))"
proof -
  have bound: "8 * length (wp_threads prompt_state) + 2 = 18" "8 * length (wp_threads prompt_state) + 1 = 17"
    by (simp_all add: prompt_state_fields)
  have start: "W_start \<notin> fst ` set (wp_threads prompt_state)" by (simp add: prompt_state_fields)
  have "wp_engine prompt_end = E_remove 0" by code_simp
  then show ?thesis
    using Release_pause_terminates[OF prompt_state_reachable prompt_state_fields(1) start prompt_pauses prompt_end_run]
    unfolding bound by (rule conjI)
qed

text \<open>
  The dummies that wake the workers are never run as jobs.  In every reachable state no worker has called a job that is
  not there: a dummy carries an instance that is no longer running, so the worker drops it.
\<close>

theorem dummies_never_run:
  assumes "reachable pool_init pool_step s" "(pc, p) \<in> set (wp_threads s)"
  shows "pc \<noteq> W_crash \<and> (pc = W_run (owner, None) \<longrightarrow> owner \<notin> set (wp_instances s))"
proof -
  have "pc \<in> fst ` set (wp_threads s)" using assms(2) by force
  then show ?thesis
    using reachable_dummy_ok[OF assms(1)] unfolding dummy_ok_def dummies_def by blast
qed

theorem dummies_never_run_witness: "\<forall>w \<in> set (wp_threads late_state). fst w \<noteq> W_crash"
  using dummies_never_run[OF late_state_reachable] by fastforce

end
