(* ===== verification/Block_Mask.thy ===== *)
theory Block_Mask
  imports Prelude
begin

text \<open>
  Footprints of buildings (terrain/BlockMask.h, terrain/BlockMask.cpp, terrain/BlockRectangle.cpp, terrain/BlockCircle.cpp): a mask of
  cells around a structure, stored for the south facing and read rotated for the others.  The engine's \<open>int2\<close> is a pair of
  integers with componentwise arithmetic.  The lemmas say where the structure lies in the rotated mask, and that the
  offset the code keeps for the north facing is the wrong one when the margins left and right of the structure differ.
\<close>

section \<open>Model\<close>

type_synonym int2 = "int \<times> int"

text \<open>Division by a positive number rounds towards zero.\<close>

definition quot :: "int \<Rightarrow> int \<Rightarrow> int" where
  "quot a n = (if a < 0 then - ((- a) div n) else a div n)"

abbreviation half :: "int \<Rightarrow> int" where
  "half a \<equiv> quot a 2"

datatype BlockType = OPEN | BLOCK | STRUCT

datatype StructType =
    ST_FACTORY | ST_MEX | ST_GEO | ST_PYLON | ST_CONVERT | ST_ENGY_LOW | ST_ENGY_MID | ST_ENGY_HIGH | ST_DEF_LOW | ST_DEF_MID
  | ST_DEF_HIGH | ST_SPECIAL | ST_NANO | ST_TERRA | ST_UNKNOWN

text \<open>The facings by their numbers; any other number is treated as south.\<close>

definition UNIT_FACING_SOUTH :: int where "UNIT_FACING_SOUTH = 0"
definition UNIT_FACING_EAST :: int where "UNIT_FACING_EAST = 1"
definition UNIT_FACING_NORTH :: int where "UNIT_FACING_NORTH = 2"
definition UNIT_FACING_WEST :: int where "UNIT_FACING_WEST = 3"

lemmas facing_defs = UNIT_FACING_SOUTH_def UNIT_FACING_EAST_def UNIT_FACING_NORTH_def UNIT_FACING_WEST_def

record IBlockMask =
  bm_mask :: "BlockType list"
  bm_xsize :: int
  bm_zsize :: int
  bm_offsetSouth :: int2
  bm_offsetEast :: int2
  bm_offsetNorth :: int2
  bm_offsetWest :: int2
  bm_structType :: StructType
  bm_ignoreMask :: u32

definition IBlockMask_new :: "StructType \<Rightarrow> u32 \<Rightarrow> IBlockMask" where
  "IBlockMask_new st ignore = \<lparr> bm_mask = [], bm_xsize = 0, bm_zsize = 0, bm_offsetSouth = (0, 0), bm_offsetEast = (0, 0),
     bm_offsetNorth = (0, 0), bm_offsetWest = (0, 0), bm_structType = st, bm_ignoreMask = ignore \<rparr>"

definition GetTypeSouth :: "IBlockMask \<Rightarrow> int \<Rightarrow> int \<Rightarrow> BlockType" where
  "GetTypeSouth m x z = bm_mask m ! nat (z * bm_xsize m + x)"

definition GetTypeEast :: "IBlockMask \<Rightarrow> int \<Rightarrow> int \<Rightarrow> BlockType" where
  "GetTypeEast m x z = bm_mask m ! nat ((x + 1) * bm_xsize m - 1 - z)"

definition GetTypeNorth :: "IBlockMask \<Rightarrow> int \<Rightarrow> int \<Rightarrow> BlockType" where
  "GetTypeNorth m x z = bm_mask m ! nat ((bm_zsize m - z) * bm_xsize m - 1 - x)"

definition GetTypeWest :: "IBlockMask \<Rightarrow> int \<Rightarrow> int \<Rightarrow> BlockType" where
  "GetTypeWest m x z = bm_mask m ! nat ((bm_zsize m - 1 - x) * bm_xsize m + z)"

definition GetStructOffset :: "int \<Rightarrow> IBlockMask \<Rightarrow> int2" where
  "GetStructOffset facing m =
    (if facing = UNIT_FACING_NORTH then bm_offsetNorth m
     else if facing = UNIT_FACING_EAST then bm_offsetEast m
     else if facing = UNIT_FACING_WEST then bm_offsetWest m
     else bm_offsetSouth m)"

text \<open>The rectangles of the blocker and of the structure, by their corners.\<close>

record BlockRects =
  rect_b1 :: int2
  rect_b2 :: int2
  rect_s1 :: int2
  rect_s2 :: int2

text \<open>One axis of \<open>Init\<close>: the ends of the two intervals, moved so that the smaller begins at 0.\<close>

definition axis_spans :: "int \<Rightarrow> int \<Rightarrow> int \<Rightarrow> (int \<times> int) \<times> (int \<times> int)" where
  "axis_spans offset bsize ssize =
    (let b1 = offset - half bsize; s1 = - half ssize; addon = min b1 s1 in
     ((b1 - addon, b1 + bsize - addon), (s1 - addon, s1 + ssize - addon)))"

definition Init :: "int2 \<Rightarrow> int2 \<Rightarrow> int2 \<Rightarrow> IBlockMask \<Rightarrow> IBlockMask \<times> BlockRects" where
  "Init offset bsize ssize m =
    (case (axis_spans (fst offset) (fst bsize) (fst ssize), axis_spans (snd offset) (snd bsize) (snd ssize)) of
       (((b1x, b2x), (s1x, s2x)), ((b1y, b2y), (s1y, s2y))) \<Rightarrow>
     let xsize = max b2x s2x - min b1x s1x;
         zsize = max b2y s2y - min b1y s1y;
         south = (if b1x < s1x then s1x - b1x else 0, if b1y < s1y then s1y - b1y else 0);
         east = (snd south, if b2x > s2x then b2x - s2x else 0);
         north = (fst south, if b2y > s2y then b2y - s2y else 0);
         west = (snd north, fst south)
     in (m\<lparr> bm_xsize := xsize, bm_zsize := zsize, bm_offsetSouth := south, bm_offsetEast := east, bm_offsetNorth := north,
           bm_offsetWest := west, bm_mask := replicate (nat (xsize * zsize)) OPEN \<rparr>,
         \<lparr> rect_b1 = (b1x, b1y), rect_b2 = (b2x, b2y), rect_s1 = (s1x, s1y), rect_s2 = (s2x, s2y) \<rparr>))"

text \<open>The cells of a rectangle in the order of the nested loops, row by row.\<close>

definition cells :: "int2 \<Rightarrow> int2 \<Rightarrow> int2 list" where
  "cells c1 c2 = [(x, z). z \<leftarrow> [snd c1..snd c2 - 1], x \<leftarrow> [fst c1..fst c2 - 1]]"

definition within :: "int2 \<Rightarrow> int2 \<Rightarrow> int2 \<Rightarrow> bool" where
  "within c1 c2 p \<longleftrightarrow> fst c1 \<le> fst p \<and> fst p < fst c2 \<and> snd c1 \<le> snd p \<and> snd p < snd c2"

text \<open>The loops of the two constructors, which differ in the test for the blocker only.\<close>

definition fill_mask :: "(int2 \<Rightarrow> bool) \<Rightarrow> BlockRects \<Rightarrow> IBlockMask \<Rightarrow> IBlockMask" where
  "fill_mask blocked rects m = m\<lparr>bm_mask := fold (\<lambda>p cs. cs[nat (snd p * bm_xsize m + fst p) :=
       (if within (rect_s1 rects) (rect_s2 rects) p then STRUCT else if blocked p then BLOCK else OPEN)])
     (cells (0, 0) (bm_xsize m, bm_zsize m)) (bm_mask m)\<rparr>"

definition CBlockRectangle :: "int2 \<Rightarrow> int2 \<Rightarrow> int2 \<Rightarrow> StructType \<Rightarrow> u32 \<Rightarrow> IBlockMask" where
  "CBlockRectangle offset bsize ssize st ignore =
    (case Init offset bsize ssize (IBlockMask_new st ignore) of (m, rects) \<Rightarrow>
       fill_mask (within (rect_b1 rects) (rect_b2 rects)) rects m)"

definition CBlockCircle :: "int2 \<Rightarrow> int \<Rightarrow> int2 \<Rightarrow> StructType \<Rightarrow> u32 \<Rightarrow> IBlockMask" where
  "CBlockCircle offset radius ssize st ignore =
    (case Init offset (radius * 2, radius * 2) ssize (IBlockMask_new st ignore) of (m, rects) \<Rightarrow>
       let c = (half (fst (rect_b1 rects) + fst (rect_b2 rects)), half (snd (rect_b1 rects) + snd (rect_b2 rects))) in
       fill_mask (\<lambda>p. (fst p - fst c)\<^sup>2 + (snd p - snd c)\<^sup>2 \<le> radius\<^sup>2) rects m)"

section \<open>Reading a filled mask\<close>

lemma set_cells [simp]: "set (cells c1 c2) = {p. within c1 c2 p}"
  by (cases c1; cases c2) (auto simp: cells_def within_def)

lemma distinct_cells [simp]: "distinct (cells c1 c2)"
proof -
  have "cells c1 c2 = map (\<lambda>(z, x). (x, z)) (List.product [snd c1..snd c2 - 1] [fst c1..fst c2 - 1])"
    by (simp add: cells_def product_concat_map map_concat comp_def)
  then show ?thesis by (simp add: distinct_map distinct_product inj_on_def)
qed

lemma length_updates [simp]: "length (fold (\<lambda>k m. m[f k := g k]) ks m) = length m"
  by (induction ks arbitrary: m) auto

lemma nth_updates_other: "i \<notin> f ` set ks \<Longrightarrow> fold (\<lambda>k m. m[f k := g k]) ks m ! i = m ! i"
  by (induction ks arbitrary: m) auto

lemma nth_updates:
  "distinct ks \<Longrightarrow> inj_on f (set ks) \<Longrightarrow> k \<in> set ks \<Longrightarrow> f k < length m \<Longrightarrow> fold (\<lambda>k m. m[f k := g k]) ks m ! f k = g k"
proof (induction ks arbitrary: m)
  case (Cons a ks)
  then show ?case
  proof (cases "k = a")
    case True
    with Cons.prems have "f a \<notin> f ` set ks" by auto
    with True Cons.prems show ?thesis by (simp add: nth_updates_other)
  qed simp
qed simp

lemma cell_index_bound:
  fixes x z X Z :: int
  assumes "0 \<le> x" "x < X" "0 \<le> z" "z < Z"
  shows "0 \<le> z * X + x" "z * X + x < X * Z"
proof -
  have "z * X + x < z * X + X" using assms by simp
  also have "\<dots> = (z + 1) * X" by (simp add: algebra_simps)
  also have "\<dots> \<le> Z * X" using assms by (intro mult_right_mono) auto
  finally show "z * X + x < X * Z" by (simp add: mult.commute)
qed (use assms in simp)

lemma cell_index_inj:
  fixes x z x' z' X :: int
  assumes "z * X + x = z' * X + x'" "0 \<le> x" "x < X" "0 \<le> x'" "x' < X"
  shows "x = x' \<and> z = z'"
proof -
  have "(z * X + x) div X = z" "(z' * X + x') div X = z'" using assms(2-) by simp_all
  with assms(1) show ?thesis by simp
qed

lemma inj_cell_index: "inj_on (\<lambda>p. nat (snd p * X + fst p)) {p. within (0, 0) (X, Z) p}"
proof (rule inj_onI)
  fix p q
  assume p: "p \<in> {p. within (0, 0) (X, Z) p}" and q: "q \<in> {p. within (0, 0) (X, Z) p}"
    and eq: "nat (snd p * X + fst p) = nat (snd q * X + fst q)"
  from p q have "0 \<le> snd p * X + fst p" "0 \<le> snd q * X + fst q" by (auto simp: within_def)
  with eq have "snd p * X + fst p = snd q * X + fst q" by simp
  from cell_index_inj[OF this] p q show "p = q" by (auto simp: within_def prod_eq_iff)
qed

lemma fill_mask_sizes [simp]:
  "bm_xsize (fill_mask b r m) = bm_xsize m" "bm_zsize (fill_mask b r m) = bm_zsize m"
  "GetStructOffset f (fill_mask b r m) = GetStructOffset f m" "length (bm_mask (fill_mask b r m)) = length (bm_mask m)"
  by (simp_all add: fill_mask_def GetStructOffset_def)

lemma fill_mask_cell:
  assumes "0 \<le> x" "x < bm_xsize m" "0 \<le> z" "z < bm_zsize m" "length (bm_mask m) = nat (bm_xsize m * bm_zsize m)"
  shows "GetTypeSouth (fill_mask blocked rects m) x z =
    (if within (rect_s1 rects) (rect_s2 rects) (x, z) then STRUCT else if blocked (x, z) then BLOCK else OPEN)"
proof -
  let ?f = "\<lambda>p. nat (snd p * bm_xsize m + fst p)"
  have "inj_on ?f (set (cells (0, 0) (bm_xsize m, bm_zsize m)))" by (simp add: inj_cell_index)
  moreover have "(x, z) \<in> set (cells (0, 0) (bm_xsize m, bm_zsize m))" using assms by (simp add: within_def)
  moreover have "?f (x, z) < length (bm_mask m)" using cell_index_bound[OF assms(1-4)] assms(5) by simp
  ultimately show ?thesis
    unfolding GetTypeSouth_def fill_mask_def
    using nth_updates[of "cells (0, 0) (bm_xsize m, bm_zsize m)" ?f "(x, z)" "bm_mask m"
        "\<lambda>p. if within (rect_s1 rects) (rect_s2 rects) p then STRUCT else if blocked p then BLOCK else OPEN"]
    by (simp split del: if_split)
qed

section \<open>Rotation\<close>

text \<open>The getters read the cell of the south mask that the rotation takes to the given place.\<close>

lemma GetTypeEast_rotates: "GetTypeEast m x z = GetTypeSouth m (bm_xsize m - 1 - z) x"
  by (simp add: GetTypeEast_def GetTypeSouth_def algebra_simps)

lemma GetTypeNorth_rotates: "GetTypeNorth m x z = GetTypeSouth m (bm_xsize m - 1 - x) (bm_zsize m - 1 - z)"
  by (simp add: GetTypeNorth_def GetTypeSouth_def algebra_simps)

lemma GetTypeWest_rotates: "GetTypeWest m x z = GetTypeSouth m z (bm_zsize m - 1 - x)"
  by (simp add: GetTypeWest_def GetTypeSouth_def algebra_simps)

lemmas rotations = GetTypeEast_rotates GetTypeNorth_rotates GetTypeWest_rotates

definition GetType_facing :: "int \<Rightarrow> IBlockMask \<Rightarrow> int \<Rightarrow> int \<Rightarrow> BlockType" where
  "GetType_facing facing =
    (if facing = UNIT_FACING_EAST then GetTypeEast
     else if facing = UNIT_FACING_NORTH then GetTypeNorth
     else if facing = UNIT_FACING_WEST then GetTypeWest
     else GetTypeSouth)"

text \<open>Sizes, of the mask or of the structure, are exchanged when the building faces east or west.\<close>

definition turned :: "int \<Rightarrow> int2 \<Rightarrow> int2" where
  "turned facing dims = (if facing = UNIT_FACING_EAST \<or> facing = UNIT_FACING_WEST then (snd dims, fst dims) else dims)"

text \<open>A mask whose structure has the given size and whose margins are what the offsets say.\<close>

definition mask_ok :: "int2 \<Rightarrow> BlockRects \<Rightarrow> IBlockMask \<Rightarrow> bool" where
  "mask_ok ssize r m \<longleftrightarrow>
     fst (rect_s2 r) = fst (rect_s1 r) + fst ssize \<and> snd (rect_s2 r) = snd (rect_s1 r) + snd ssize \<and>
     0 \<le> fst (rect_s1 r) \<and> 0 \<le> snd (rect_s1 r) \<and> fst (rect_s2 r) \<le> bm_xsize m \<and> snd (rect_s2 r) \<le> bm_zsize m \<and>
     bm_offsetSouth m = rect_s1 r \<and>
     bm_offsetEast m = (snd (rect_s1 r), bm_xsize m - fst (rect_s2 r)) \<and>
     bm_offsetNorth m = (fst (rect_s1 r), bm_zsize m - snd (rect_s2 r)) \<and>
     bm_offsetWest m = (bm_zsize m - snd (rect_s2 r), fst (rect_s1 r)) \<and>
     (\<forall>x z. within (0, 0) (bm_xsize m, bm_zsize m) (x, z) \<longrightarrow>
        (GetTypeSouth m x z = STRUCT \<longleftrightarrow> within (rect_s1 r) (rect_s2 r) (x, z)))"

lemma axis_spans_zero:
  "axis_spans offset bsize ssize = ((b1, b2), (s1, s2)) \<Longrightarrow>
   b2 = b1 + bsize \<and> s2 = s1 + ssize \<and> 0 \<le> b1 \<and> 0 \<le> s1 \<and> (b1 = 0 \<or> s1 = 0)"
  by (auto simp: axis_spans_def Let_def min_def split: if_splits)

lemma filled_mask_ok:
  assumes "Init offset bsize ssize m0 = (m, r)" "0 \<le> fst ssize" "0 \<le> snd ssize" "0 \<le> fst bsize" "0 \<le> snd bsize"
  shows "mask_ok ssize r (fill_mask blocked r m)"
proof -
  obtain b1x b2x s1x s2x where x: "axis_spans (fst offset) (fst bsize) (fst ssize) = ((b1x, b2x), (s1x, s2x))"
    by (metis prod.exhaust)
  obtain b1y b2y s1y s2y where y: "axis_spans (snd offset) (snd bsize) (snd ssize) = ((b1y, b2y), (s1y, s2y))"
    by (metis prod.exhaust)
  note ax = axis_spans_zero[OF x] axis_spans_zero[OF y]
  from assms(1) x y have m: "bm_xsize m = max b2x s2x" "bm_zsize m = max b2y s2y" "rect_s1 r = (s1x, s1y)" "rect_s2 r = (s2x, s2y)"
      "bm_offsetSouth m = (s1x, s1y)" "bm_offsetEast m = (s1y, max b2x s2x - s2x)" "bm_offsetNorth m = (s1x, max b2y s2y - s2y)"
      "bm_offsetWest m = (max b2y s2y - s2y, s1x)" "length (bm_mask m) = nat (bm_xsize m * bm_zsize m)"
    using ax by (auto simp: Init_def Let_def)
  have "fill_mask blocked r m = (fill_mask blocked r m)\<lparr>bm_mask := bm_mask (fill_mask blocked r m)\<rparr>" by simp
  moreover have "bm_offsetSouth (fill_mask blocked r m) = bm_offsetSouth m" "bm_offsetEast (fill_mask blocked r m) = bm_offsetEast m"
      "bm_offsetNorth (fill_mask blocked r m) = bm_offsetNorth m" "bm_offsetWest (fill_mask blocked r m) = bm_offsetWest m"
    by (simp_all add: fill_mask_def)
  ultimately show ?thesis
    using ax m assms(2-5) unfolding mask_ok_def by (auto simp: within_def fill_mask_cell split: if_splits)
qed

definition is_footprint :: "int2 \<Rightarrow> IBlockMask \<Rightarrow> bool" where
  "is_footprint ssize m \<longleftrightarrow> (\<exists>offset bsize radius st ignore. 0 \<le> fst bsize \<and> 0 \<le> snd bsize \<and> 0 \<le> radius \<and>
     (m = CBlockRectangle offset bsize ssize st ignore \<or> m = CBlockCircle offset radius ssize st ignore))"

lemma CBlockRectangle_ok:
  assumes "0 \<le> fst ssize" "0 \<le> snd ssize" "0 \<le> fst bsize" "0 \<le> snd bsize"
  shows "\<exists>r. mask_ok ssize r (CBlockRectangle offset bsize ssize st ignore)"
proof -
  obtain m r where "Init offset bsize ssize (IBlockMask_new st ignore) = (m, r)" by fastforce
  with filled_mask_ok[OF this assms] show ?thesis by (auto simp: CBlockRectangle_def)
qed

lemma CBlockCircle_ok:
  assumes "0 \<le> fst ssize" "0 \<le> snd ssize" "0 \<le> radius"
  shows "\<exists>r. mask_ok ssize r (CBlockCircle offset radius ssize st ignore)"
proof -
  obtain m r where "Init offset (radius * 2, radius * 2) ssize (IBlockMask_new st ignore) = (m, r)" by fastforce
  with filled_mask_ok[OF this assms(1,2)] assms(3) show ?thesis by (auto simp: CBlockCircle_def Let_def)
qed

lemma footprint_ok:
  assumes "is_footprint ssize m" "0 \<le> fst ssize" "0 \<le> snd ssize"
  obtains r where "mask_ok ssize r m"
  using assms(1) CBlockRectangle_ok[OF assms(2,3)] CBlockCircle_ok[OF assms(2,3)] that unfolding is_footprint_def by blast

lemma mask_ok_facing:
  assumes "mask_ok ssize r m" "within (0, 0) (turned facing (bm_xsize m, bm_zsize m)) (x, z)"
  shows "GetType_facing facing m x z = STRUCT \<longleftrightarrow>
    (if facing = UNIT_FACING_EAST then within (snd (rect_s1 r), bm_xsize m - fst (rect_s2 r)) (snd (rect_s2 r), bm_xsize m - fst (rect_s1 r)) (x, z)
     else if facing = UNIT_FACING_NORTH then within (bm_xsize m - fst (rect_s2 r), bm_zsize m - snd (rect_s2 r))
       (bm_xsize m - fst (rect_s1 r), bm_zsize m - snd (rect_s1 r)) (x, z)
     else if facing = UNIT_FACING_WEST then within (bm_zsize m - snd (rect_s2 r), fst (rect_s1 r)) (bm_zsize m - snd (rect_s1 r), fst (rect_s2 r)) (x, z)
     else within (rect_s1 r) (rect_s2 r) (x, z))"
proof -
  have read: "GetTypeSouth m u v = STRUCT \<longleftrightarrow> within (rect_s1 r) (rect_s2 r) (u, v)"
    if "within (0, 0) (bm_xsize m, bm_zsize m) (u, v)" for u v
    using assms(1) that by (simp add: mask_ok_def)
  show ?thesis
    using assms(2) by (auto simp: GetType_facing_def rotations turned_def facing_defs read within_def split: if_splits)
qed

text \<open>
  The structure lies at its offset.  In the mask of a building, rectangular or round, turned to its facing, the cells of the
  structure are exactly the rectangle of the structure's turned size whose corner is the offset for that
  facing.  For the north facing this needs equal margins left and right of the structure.
\<close>

theorem structure_at_offset:
  assumes "is_footprint ssize m" "0 \<le> fst ssize" "0 \<le> snd ssize"
    and "facing = UNIT_FACING_NORTH \<longrightarrow> bm_xsize m = 2 * fst (bm_offsetSouth m) + fst ssize"
    and "within (0, 0) (turned facing (bm_xsize m, bm_zsize m)) (x, z)"
  shows "GetType_facing facing m x z = STRUCT \<longleftrightarrow>
    within (GetStructOffset facing m)
      (fst (GetStructOffset facing m) + fst (turned facing ssize), snd (GetStructOffset facing m) + snd (turned facing ssize)) (x, z)"
proof -
  obtain r where r: "mask_ok ssize r m" using footprint_ok[OF assms(1-3)] .
  with assms(4) show ?thesis
    unfolding mask_ok_facing[OF r assms(5)]
    by (auto simp: mask_ok_def GetStructOffset_def turned_def facing_defs within_def)
qed

theorem structure_at_offset_witness:
  "GetType_facing UNIT_FACING_EAST (CBlockCircle (1, 0) 3 (3, 2) ST_DEF_LOW 0) 2 2 = STRUCT"
proof -
  let ?m = "CBlockCircle (1, 0) 3 (3, 2) ST_DEF_LOW 0"
  have "is_footprint (3, 2) ?m"
    unfolding is_footprint_def by (intro exI[of _ "(1, 0)"] exI[of _ "(0, 0)"] exI[of _ 3] exI[of _ ST_DEF_LOW] exI[of _ 0]) simp
  moreover have "bm_xsize ?m = 6" "bm_zsize ?m = 6" "bm_offsetEast ?m = (2, 2)" by code_simp+
  ultimately show ?thesis
    using structure_at_offset[of "(3, 2)" ?m UNIT_FACING_EAST 2 2]
    by (simp add: facing_defs turned_def within_def GetStructOffset_def)
qed

text \<open>
  C39: the north offset is wrong for uneven margins.  When the margins left and right of the structure differ, as they do
  around every round blocker of an odd-sized structure, some cell of the structure in the mask turned north lies outside
  the rectangle at the north offset.
\<close>

theorem north_offset_wrong:
  assumes "is_footprint ssize m" "0 < fst ssize" "0 < snd ssize" "bm_xsize m \<noteq> 2 * fst (bm_offsetSouth m) + fst ssize"
  shows "\<exists>x z. within (0, 0) (bm_xsize m, bm_zsize m) (x, z) \<and> GetType_facing UNIT_FACING_NORTH m x z = STRUCT \<and>
    \<not> within (GetStructOffset UNIT_FACING_NORTH m)
      (fst (GetStructOffset UNIT_FACING_NORTH m) + fst ssize, snd (GetStructOffset UNIT_FACING_NORTH m) + snd ssize) (x, z)"
proof -
  obtain r where r: "mask_ok ssize r m" using footprint_ok[OF assms(1)] assms(2,3) by auto
  let ?l = "bm_xsize m - fst (rect_s2 r)" and ?x = "if bm_xsize m - fst (rect_s2 r) < fst (rect_s1 r)
    then bm_xsize m - fst (rect_s2 r) else bm_xsize m - fst (rect_s1 r) - 1" and ?z = "bm_zsize m - snd (rect_s2 r)"
  have frame: "within (0, 0) (bm_xsize m, bm_zsize m) (?x, ?z)"
    using r assms(2,3) by (auto simp: mask_ok_def within_def)
  then have "within (0, 0) (turned UNIT_FACING_NORTH (bm_xsize m, bm_zsize m)) (?x, ?z)"
    by (simp add: turned_def facing_defs)
  from mask_ok_facing[OF r this] have "GetType_facing UNIT_FACING_NORTH m ?x ?z = STRUCT"
    using r assms(2,3) by (simp add: facing_defs mask_ok_def within_def split del: if_split) (auto split: if_splits)
  then show ?thesis
    using frame r assms(2-4)
    by (intro exI[of _ ?x] exI[of _ ?z]) (auto simp: mask_ok_def within_def GetStructOffset_def facing_defs)
qed

theorem north_offset_wrong_witness:
  "\<exists>x z. GetType_facing UNIT_FACING_NORTH (CBlockCircle (0, 0) 3 (3, 3) ST_DEF_LOW 0) x z = STRUCT \<and> \<not> within (2, 1) (5, 4) (x, z)"
proof -
  let ?m = "CBlockCircle (0, 0) 3 (3, 3) ST_DEF_LOW 0"
  have "is_footprint (3, 3) ?m"
    unfolding is_footprint_def by (intro exI[of _ "(0, 0)"] exI[of _ "(0, 0)"] exI[of _ 3] exI[of _ ST_DEF_LOW] exI[of _ 0]) simp
  moreover have "bm_xsize ?m = 6" "bm_offsetSouth ?m = (2, 2)" "bm_offsetNorth ?m = (2, 1)" by code_simp+
  ultimately show ?thesis
    using north_offset_wrong[of "(3, 3)" ?m] by (auto simp: GetStructOffset_def facing_defs)
qed

end
