(* ===== verification/Blocking_Map.thy ===== *)
theory Blocking_Map
  imports Block_Mask
begin

unbundle bit_operations_syntax

text \<open>
  Where buildings stand (terrain/BlockingMap.h, terrain/BlockingMap.hpp): a grid of cells with a counter per kind of building, a
  coarse grid that counts the occupied cells of each 8 by 8 block, and the zones of the allies.  Counters and masks are 16 bits
  wide.  The lemmas show that the masks follow the counters and that marking a cell and unmarking it again restores both grids.
\<close>

section \<open>Model\<close>

type_synonym u16 = "16 word"

fun struct_index :: "StructType \<Rightarrow> nat" where
  "struct_index ST_FACTORY = 0"
| "struct_index ST_MEX = 1"
| "struct_index ST_GEO = 2"
| "struct_index ST_PYLON = 3"
| "struct_index ST_CONVERT = 4"
| "struct_index ST_ENGY_LOW = 5"
| "struct_index ST_ENGY_MID = 6"
| "struct_index ST_ENGY_HIGH = 7"
| "struct_index ST_DEF_LOW = 8"
| "struct_index ST_DEF_MID = 9"
| "struct_index ST_DEF_HIGH = 10"
| "struct_index ST_SPECIAL = 11"
| "struct_index ST_NANO = 12"
| "struct_index ST_TERRA = 13"
| "struct_index ST_UNKNOWN = 14"

definition GetStructMask :: "StructType \<Rightarrow> u16" where
  "GetStructMask st = push_bit (struct_index st) 1"

definition StructMask_NONE :: u16 where "StructMask_NONE = 0"
definition StructMask_ALL :: u16 where "StructMask_ALL = 0xFFFF"

record SBlockCell =
  bc_blockerMask :: u16
  bc_notIgnoreMask :: u16
  bc_structMask :: u16
  bc_blockerCounts :: "StructType \<Rightarrow> u16"

record SBlockCellLow =
  bl_blockerMask :: u16
  bl_blockerCounts :: "StructType \<Rightarrow> u16"

record SBlockCellAlly =
  ba_allyCount :: u16
  ba_ownCount :: u16

record SBlockingMap =
  bm_grid :: "SBlockCell list"
  bm_columns :: int
  bm_rows :: int
  bm_gridLow :: "SBlockCellLow list"
  bm_columnsLow :: int
  bm_rowsLow :: int
  bm_gridAlly :: "SBlockCellAlly list"
  bm_columnsAlly :: int
  bm_rowsAlly :: int

definition GRID_RATIO_LOW :: int where "GRID_RATIO_LOW = 8"
definition GRID_RATIO_ALLY :: int where "GRID_RATIO_ALLY = 8"
definition BLOCK_VAL :: u16 where "BLOCK_VAL = 0x1000"
definition BLOCK_THRESHOLD :: u16 where "BLOCK_THRESHOLD = 48"

text \<open>The positions of a cell, of its coarse cell and of a zone.\<close>

definition cell_at :: "int2 \<Rightarrow> SBlockingMap \<Rightarrow> nat" where
  "cell_at p b = nat (snd p * bm_columns b + fst p)"

definition low_at :: "int2 \<Rightarrow> SBlockingMap \<Rightarrow> nat" where
  "low_at p b = nat (snd p div GRID_RATIO_LOW * bm_columnsLow b + fst p div GRID_RATIO_LOW)"

definition ally_at :: "int2 \<Rightarrow> SBlockingMap \<Rightarrow> nat" where
  "ally_at p b = nat (snd p * bm_columnsAlly b + fst p)"

definition on_cell :: "int2 \<Rightarrow> (SBlockCell \<Rightarrow> SBlockCell) \<Rightarrow> SBlockingMap \<Rightarrow> SBlockingMap" where
  "on_cell p f b = b\<lparr>bm_grid := (bm_grid b)[cell_at p b := f (bm_grid b ! cell_at p b)]\<rparr>"

definition on_low :: "int2 \<Rightarrow> (SBlockCellLow \<Rightarrow> SBlockCellLow) \<Rightarrow> SBlockingMap \<Rightarrow> SBlockingMap" where
  "on_low p f b = b\<lparr>bm_gridLow := (bm_gridLow b)[low_at p b := f (bm_gridLow b ! low_at p b)]\<rparr>"

definition on_ally :: "int2 \<Rightarrow> (SBlockCellAlly \<Rightarrow> SBlockCellAlly) \<Rightarrow> SBlockingMap \<Rightarrow> SBlockingMap" where
  "on_ally p f b = b\<lparr>bm_gridAlly := (bm_gridAlly b)[ally_at p b := f (bm_gridAlly b ! ally_at p b)]\<rparr>"

subsection \<open>Queries\<close>

definition IsStructed :: "int2 \<Rightarrow> u16 \<Rightarrow> SBlockingMap \<Rightarrow> bool" where
  "IsStructed p structMask b \<longleftrightarrow> bc_notIgnoreMask (bm_grid b ! cell_at p b) AND structMask \<noteq> 0"

definition IsBlocked :: "int2 \<Rightarrow> u16 \<Rightarrow> SBlockingMap \<Rightarrow> bool" where
  "IsBlocked p notIgnoreMask b \<longleftrightarrow>
    (let c = bm_grid b ! cell_at p b in bc_blockerMask c AND notIgnoreMask \<noteq> 0 \<or> bc_structMask c \<noteq> 0)"

definition IsBlockedLow :: "int2 \<Rightarrow> u16 \<Rightarrow> SBlockingMap \<Rightarrow> bool" where
  "IsBlockedLow q notIgnoreMask b \<longleftrightarrow>
    bl_blockerMask (bm_gridLow b ! nat (snd q * bm_columnsLow b + fst q)) AND notIgnoreMask \<noteq> 0"

definition IsStruct :: "int2 \<Rightarrow> SBlockingMap \<Rightarrow> bool" where
  "IsStruct p b \<longleftrightarrow> bc_structMask (bm_grid b ! cell_at p b) \<noteq> 0"

definition IsZoneAlly :: "int2 \<Rightarrow> SBlockingMap \<Rightarrow> bool" where
  "IsZoneAlly p b \<longleftrightarrow> (let c = bm_gridAlly b ! ally_at p b in 0 < ba_allyCount c \<and> ba_ownCount c = 0)"

definition IsInBounds_rect :: "int2 \<Rightarrow> int2 \<Rightarrow> SBlockingMap \<Rightarrow> bool" where
  "IsInBounds_rect r1 r2 b \<longleftrightarrow> fst r1 \<ge> 0 \<and> snd r1 \<ge> 0 \<and> fst r2 < bm_columns b \<and> snd r2 < bm_rows b"

text \<open>The comparison of the two as unsigned numbers excludes the negative ones.\<close>

definition IsInBounds :: "int2 \<Rightarrow> SBlockingMap \<Rightarrow> bool" where
  "IsInBounds p b \<longleftrightarrow> (of_int (fst p) :: u32) < of_int (bm_columns b) \<and> (of_int (snd p) :: u32) < of_int (bm_rows b)"

definition IsInBoundsLow :: "int2 \<Rightarrow> SBlockingMap \<Rightarrow> bool" where
  "IsInBoundsLow p b \<longleftrightarrow> (of_int (fst p) :: u32) < of_int (bm_columnsLow b) \<and> (of_int (snd p) :: u32) < of_int (bm_rowsLow b)"

definition Bound :: "int2 \<Rightarrow> int2 \<Rightarrow> SBlockingMap \<Rightarrow> int2 \<times> int2" where
  "Bound r1 r2 b = ((max (fst r1) 0, max (snd r1) 0), (min (fst r2) (bm_columns b), min (snd r2) (bm_rows b)))"

definition BoundAlly :: "int2 \<Rightarrow> int2 \<Rightarrow> SBlockingMap \<Rightarrow> int2 \<times> int2" where
  "BoundAlly r1 r2 b = ((max (fst r1) 0, max (snd r1) 0), (min (fst r2) (bm_columnsAlly b), min (snd r2) (bm_rowsAlly b)))"

subsection \<open>Updates\<close>

text \<open>The coarse counter of a kind goes up or down; its bit changes when the counter reaches or leaves the threshold.\<close>

definition low_enter :: "StructType \<Rightarrow> SBlockCellLow \<Rightarrow> SBlockCellLow" where
  "low_enter st l =
    (let n = bl_blockerCounts l st + 1; l1 = l\<lparr>bl_blockerCounts := (bl_blockerCounts l)(st := n)\<rparr> in
     if n = BLOCK_THRESHOLD then l1\<lparr>bl_blockerMask := bl_blockerMask l1 OR GetStructMask st\<rparr> else l1)"

definition low_leave :: "StructType \<Rightarrow> SBlockCellLow \<Rightarrow> SBlockCellLow" where
  "low_leave st l =
    (let n = bl_blockerCounts l st; l1 = l\<lparr>bl_blockerCounts := (bl_blockerCounts l)(st := n - 1)\<rparr> in
     if n = BLOCK_THRESHOLD then l1\<lparr>bl_blockerMask := bl_blockerMask l1 AND NOT (GetStructMask st)\<rparr> else l1)"

text \<open>\<open>MarkBlocker\<close> tests the coarse counter before it is increased.\<close>

definition low_mark :: "StructType \<Rightarrow> SBlockCellLow \<Rightarrow> SBlockCellLow" where
  "low_mark st l =
    (let n = bl_blockerCounts l st; l1 = l\<lparr>bl_blockerCounts := (bl_blockerCounts l)(st := n + 1)\<rparr> in
     if n = BLOCK_THRESHOLD then l1\<lparr>bl_blockerMask := bl_blockerMask l1 OR GetStructMask st\<rparr> else l1)"

definition Grid_MarkBlocker :: "int2 \<Rightarrow> StructType \<Rightarrow> u16 \<Rightarrow> SBlockingMap \<Rightarrow> SBlockingMap" where
  "Grid_MarkBlocker p st notIgnoreMask b = on_low p (low_mark st) (on_cell p (\<lambda>c.
     c\<lparr> bc_blockerCounts := (bc_blockerCounts c)(st := BLOCK_VAL * 2), bc_notIgnoreMask := notIgnoreMask,
        bc_blockerMask := bc_blockerMask c OR GetStructMask st \<rparr>) b)"

definition Grid_AddBlocker :: "StructType \<Rightarrow> int2 \<Rightarrow> SBlockingMap \<Rightarrow> SBlockingMap" where
  "Grid_AddBlocker st p b =
    (let n = bc_blockerCounts (bm_grid b ! cell_at p b) st;
         b1 = on_cell p (\<lambda>c. c\<lparr>bc_blockerCounts := (bc_blockerCounts c)(st := n + 1)\<rparr>) b in
     if n = 0
     then on_low p (low_enter st) (on_cell p (\<lambda>c. c\<lparr>bc_blockerMask := bc_blockerMask c OR GetStructMask st\<rparr>) b1)
     else b1)"

definition Grid_DelBlocker :: "StructType \<Rightarrow> int2 \<Rightarrow> SBlockingMap \<Rightarrow> SBlockingMap" where
  "Grid_DelBlocker st p b =
    (let n = bc_blockerCounts (bm_grid b ! cell_at p b) st - 1;
         b1 = on_cell p (\<lambda>c. c\<lparr>bc_blockerCounts := (bc_blockerCounts c)(st := n)\<rparr>) b in
     if n = 0
     then on_low p (low_leave st) (on_cell p (\<lambda>c. c\<lparr>bc_blockerMask := bc_blockerMask c AND NOT (GetStructMask st)\<rparr>) b1)
     else b1)"

definition Grid_AddStruct :: "StructType \<Rightarrow> u16 \<Rightarrow> int2 \<Rightarrow> SBlockingMap \<Rightarrow> SBlockingMap" where
  "Grid_AddStruct st notIgnoreMask p b =
    (let n = bc_blockerCounts (bm_grid b ! cell_at p b) st;
         b1 = (if n = 0 then on_low p (low_enter st) b else b);
         b2 = (if n < BLOCK_VAL then on_cell p (\<lambda>c. c\<lparr>bc_notIgnoreMask := notIgnoreMask\<rparr>) b1 else b1)
     in on_cell p (\<lambda>c. c\<lparr>bc_structMask := GetStructMask st\<rparr>) b2)"

definition Grid_DelStruct :: "StructType \<Rightarrow> u16 \<Rightarrow> int2 \<Rightarrow> SBlockingMap \<Rightarrow> SBlockingMap" where
  "Grid_DelStruct st notIgnoreMask p b =
    (let n = bc_blockerCounts (bm_grid b ! cell_at p b) st;
         b1 = (if n = 0 then on_low p (low_leave st) b else b);
         b2 = (if n < BLOCK_VAL then on_cell p (\<lambda>c. c\<lparr>bc_notIgnoreMask := 0\<rparr>) b1 else b1)
     in on_cell p (\<lambda>c. c\<lparr>bc_structMask := StructMask_NONE\<rparr>) b2)"

definition AddZoneAlly :: "int2 \<Rightarrow> SBlockingMap \<Rightarrow> SBlockingMap" where
  "AddZoneAlly p = on_ally p (\<lambda>c. c\<lparr>ba_allyCount := ba_allyCount c + 1\<rparr>)"

definition DelZoneAlly :: "int2 \<Rightarrow> SBlockingMap \<Rightarrow> SBlockingMap" where
  "DelZoneAlly p = on_ally p (\<lambda>c. c\<lparr>ba_allyCount := ba_allyCount c - 1\<rparr>)"

definition AddZoneOwn :: "int2 \<Rightarrow> SBlockingMap \<Rightarrow> SBlockingMap" where
  "AddZoneOwn p = on_ally p (\<lambda>c. c\<lparr>ba_ownCount := ba_ownCount c + 1\<rparr>)"

definition DelZoneOwn :: "int2 \<Rightarrow> SBlockingMap \<Rightarrow> SBlockingMap" where
  "DelZoneOwn p = on_ally p (\<lambda>c. c\<lparr>ba_ownCount := ba_ownCount c - 1\<rparr>)"

text \<open>The empty map of the given size in squares.\<close>

definition BlockingMap_new :: "int \<Rightarrow> int \<Rightarrow> SBlockingMap" where
  "BlockingMap_new mapWidth mapHeight =
    (let low = (\<lambda>n. n div (GRID_RATIO_LOW * 2)); ally = (\<lambda>n. n div (GRID_RATIO_ALLY * 2)) in
     \<lparr> bm_grid = replicate (nat (mapWidth div 2 * (mapHeight div 2)))
         \<lparr> bc_blockerMask = 0, bc_notIgnoreMask = 0, bc_structMask = 0, bc_blockerCounts = (\<lambda>_. 0) \<rparr>,
       bm_columns = mapWidth div 2, bm_rows = mapHeight div 2,
       bm_gridLow = replicate (nat (low mapWidth * low mapHeight)) \<lparr> bl_blockerMask = 0, bl_blockerCounts = (\<lambda>_. 0) \<rparr>,
       bm_columnsLow = low mapWidth, bm_rowsLow = low mapHeight,
       bm_gridAlly = replicate (nat (ally mapWidth * ally mapHeight)) \<lparr> ba_allyCount = 0, ba_ownCount = 0 \<rparr>,
       bm_columnsAlly = ally mapWidth, bm_rowsAlly = ally mapHeight \<rparr>)"

section \<open>Masks follow counters\<close>

lemma struct_index_less: "struct_index st < 15"
  by (cases st) simp_all

lemma struct_index_inj: "struct_index st = struct_index st' \<longleftrightarrow> st = st'"
  by (cases st; cases st') simp_all

lemma bit_GetStructMask: "bit (GetStructMask st) n \<longleftrightarrow> n = struct_index st"
  using struct_index_less[of st] by (auto simp: GetStructMask_def bit_push_bit_iff bit_1_iff bit_exp_iff)

definition cell_ok :: "SBlockCell \<Rightarrow> bool" where
  "cell_ok c \<longleftrightarrow> (\<forall>st. bit (bc_blockerMask c) (struct_index st) \<longleftrightarrow> bc_blockerCounts c st \<noteq> 0)"

definition low_ok :: "SBlockCellLow \<Rightarrow> bool" where
  "low_ok l \<longleftrightarrow> (\<forall>st. bit (bl_blockerMask l) (struct_index st) \<longleftrightarrow> BLOCK_THRESHOLD \<le> bl_blockerCounts l st)"

lemma mask_or: "bit m (struct_index st) \<Longrightarrow> m OR GetStructMask st = (m :: u16)"
  by (rule bit_word_eqI) (auto simp: bit_or_iff bit_GetStructMask)

lemma mask_and_not: "\<not> bit m (struct_index st) \<Longrightarrow> (m OR GetStructMask st) AND NOT (GetStructMask st) = (m :: u16)"
  by (rule bit_word_eqI) (auto simp: bit_or_iff bit_and_iff bit_not_iff bit_GetStructMask)

lemma low_enter_ok:
  assumes "low_ok l" "unat (bl_blockerCounts l st) + 1 < 2 ^ 16"
  shows "low_ok (low_enter st l)" "unat (bl_blockerCounts (low_enter st l) st) = unat (bl_blockerCounts l st) + 1"
proof -
  have n: "unat (bl_blockerCounts l st + 1) = unat (bl_blockerCounts l st) + 1"
    using assms(2) by (simp add: unat_word_ariths)
  then have "BLOCK_THRESHOLD \<le> bl_blockerCounts l st + 1 \<longleftrightarrow>
      BLOCK_THRESHOLD \<le> bl_blockerCounts l st \<or> bl_blockerCounts l st + 1 = BLOCK_THRESHOLD"
    by (auto simp: word_le_nat_alt word_unat_eq_iff)
  then show "low_ok (low_enter st l)"
    using assms(1) by (auto simp: low_ok_def low_enter_def Let_def bit_or_iff bit_GetStructMask struct_index_inj)
  show "unat (bl_blockerCounts (low_enter st l) st) = unat (bl_blockerCounts l st) + 1"
    using n by (auto simp: low_enter_def Let_def)
qed

lemma low_leave_enter:
  assumes "low_ok l" "unat (bl_blockerCounts l st) + 1 < 2 ^ 16"
  shows "low_leave st (low_enter st l) = l"
proof (cases "bl_blockerCounts l st + 1 = BLOCK_THRESHOLD")
  case True
  have "unat (bl_blockerCounts l st + 1) = unat (bl_blockerCounts l st) + 1"
    using assms(2) by (simp add: unat_word_ariths)
  then have "unat BLOCK_THRESHOLD = unat (bl_blockerCounts l st) + 1" using True by simp
  then have "\<not> BLOCK_THRESHOLD \<le> bl_blockerCounts l st" by (simp add: word_le_nat_alt)
  then have "\<not> bit (bl_blockerMask l) (struct_index st)" using assms(1) by (simp add: low_ok_def)
  moreover have "BLOCK_THRESHOLD - 1 = bl_blockerCounts l st" using True by (metis add_diff_cancel_right')
  ultimately show ?thesis using True by (simp add: low_leave_def low_enter_def Let_def mask_and_not)
qed (simp add: low_leave_def low_enter_def Let_def)

lemma low_power:
  assumes "low_ok l" "unat (bl_blockerCounts l st) + k < 2 ^ 16"
  shows "low_ok ((low_enter st ^^ k) l) \<and> unat (bl_blockerCounts ((low_enter st ^^ k) l) st) = unat (bl_blockerCounts l st) + k \<and>
    (low_leave st ^^ k) ((low_enter st ^^ k) l) = l"
  using assms(2)
proof (induction k)
  case (Suc k)
  then have IH: "low_ok ((low_enter st ^^ k) l)" "unat (bl_blockerCounts ((low_enter st ^^ k) l) st) = unat (bl_blockerCounts l st) + k"
      "(low_leave st ^^ k) ((low_enter st ^^ k) l) = l"
    by simp_all
  have "(low_leave st ^^ Suc k) ((low_enter st ^^ Suc k) l) =
      (low_leave st ^^ k) (low_leave st (low_enter st ((low_enter st ^^ k) l)))"
    by (simp add: funpow_swap1)
  also have "\<dots> = l"
    using IH Suc.prems by (simp add: low_leave_enter)
  finally show ?case using low_enter_ok[OF IH(1), of st] IH Suc.prems by simp
qed (use assms(1) in simp)

section \<open>Visiting cells one by one\<close>

text \<open>
  Each of the four operations changes one cell and, when a test of that cell says so, moves the counter of its coarse cell.
\<close>

definition visit :: "(SBlockCell \<Rightarrow> SBlockCell) \<Rightarrow> (SBlockCell \<Rightarrow> bool) \<Rightarrow> (SBlockCellLow \<Rightarrow> SBlockCellLow) \<Rightarrow> int2 \<Rightarrow> SBlockingMap \<Rightarrow> SBlockingMap" where
  "visit f d g p b = (if d (bm_grid b ! cell_at p b) then on_low p g (on_cell p f b) else on_cell p f b)"

definition add_blocker :: "StructType \<Rightarrow> SBlockCell \<Rightarrow> SBlockCell" where
  "add_blocker st c = c\<lparr> bc_blockerCounts := (bc_blockerCounts c)(st := bc_blockerCounts c st + 1),
     bc_blockerMask := (if bc_blockerCounts c st = 0 then bc_blockerMask c OR GetStructMask st else bc_blockerMask c) \<rparr>"

definition del_blocker :: "StructType \<Rightarrow> SBlockCell \<Rightarrow> SBlockCell" where
  "del_blocker st c = c\<lparr> bc_blockerCounts := (bc_blockerCounts c)(st := bc_blockerCounts c st - 1),
     bc_blockerMask := (if bc_blockerCounts c st - 1 = 0 then bc_blockerMask c AND NOT (GetStructMask st) else bc_blockerMask c) \<rparr>"

definition add_struct :: "StructType \<Rightarrow> u16 \<Rightarrow> SBlockCell \<Rightarrow> SBlockCell" where
  "add_struct st ni c = c\<lparr> bc_notIgnoreMask := (if bc_blockerCounts c st < BLOCK_VAL then ni else bc_notIgnoreMask c),
     bc_structMask := GetStructMask st \<rparr>"

definition del_struct :: "StructType \<Rightarrow> SBlockCell \<Rightarrow> SBlockCell" where
  "del_struct st c = c\<lparr> bc_notIgnoreMask := (if bc_blockerCounts c st < BLOCK_VAL then 0 else bc_notIgnoreMask c),
     bc_structMask := StructMask_NONE \<rparr>"

lemma on_simps [simp]:
  "bm_columns (on_cell p f b) = bm_columns b" "bm_columnsLow (on_cell p f b) = bm_columnsLow b"
  "bm_columns (on_low p g b) = bm_columns b" "bm_columnsLow (on_low p g b) = bm_columnsLow b"
  "cell_at q (on_cell p f b) = cell_at q b" "low_at q (on_cell p f b) = low_at q b"
  "cell_at q (on_low p g b) = cell_at q b" "low_at q (on_low p g b) = low_at q b"
  "bm_gridLow (on_cell p f b) = bm_gridLow b" "bm_grid (on_low p g b) = bm_grid b"
  by (simp_all add: on_cell_def on_low_def cell_at_def low_at_def)

lemma on_commute: "on_cell p f (on_low q g b) = on_low q g (on_cell p f b)"
  by (simp add: on_cell_def on_low_def cell_at_def low_at_def)

lemma on_cell_twice: "on_cell p f (on_cell p g b) = on_cell p (f \<circ> g) b"
proof (cases "cell_at p b < length (bm_grid b)")
  case False
  then show ?thesis by (simp add: on_cell_def cell_at_def not_less list_update_beyond)
qed (simp add: on_cell_def cell_at_def)

lemma operations_visit:
  "Grid_AddBlocker st p b = visit (add_blocker st) (\<lambda>c. bc_blockerCounts c st = 0) (low_enter st) p b"
  "Grid_DelBlocker st p b = visit (del_blocker st) (\<lambda>c. bc_blockerCounts c st - 1 = 0) (low_leave st) p b"
  "Grid_AddStruct st ni p b = visit (add_struct st ni) (\<lambda>c. bc_blockerCounts c st = 0) (low_enter st) p b"
  "Grid_DelStruct st ni p b = visit (del_struct st) (\<lambda>c. bc_blockerCounts c st = 0) (low_leave st) p b"
  by (simp_all add: Grid_AddBlocker_def Grid_DelBlocker_def Grid_AddStruct_def Grid_DelStruct_def visit_def Let_def
      on_commute on_cell_twice add_blocker_def del_blocker_def add_struct_def del_struct_def)
    (auto simp: on_cell_def add_blocker_def del_blocker_def add_struct_def del_struct_def fun_eq_iff)

lemma visit_fields [simp]:
  "bm_columns (visit f d g p b) = bm_columns b" "bm_columnsLow (visit f d g p b) = bm_columnsLow b"
  "cell_at q (visit f d g p b) = cell_at q b" "low_at q (visit f d g p b) = low_at q b"
  "length (bm_grid (visit f d g p b)) = length (bm_grid b)" "length (bm_gridLow (visit f d g p b)) = length (bm_gridLow b)"
  by (simp_all add: visit_def) (simp_all add: on_cell_def on_low_def)

lemma visit_grid: "bm_grid (visit f d g p b) = (bm_grid b)[cell_at p b := f (bm_grid b ! cell_at p b)]"
  by (simp add: visit_def) (simp add: on_cell_def on_low_def)

lemma visit_low: "bm_gridLow (visit f d g p b) =
  (if d (bm_grid b ! cell_at p b) then (bm_gridLow b)[low_at p b := g (bm_gridLow b ! low_at p b)] else bm_gridLow b)"
  by (simp add: visit_def) (simp add: on_cell_def on_low_def low_at_def)

abbreviation visits :: "(int2 \<Rightarrow> SBlockCell \<Rightarrow> SBlockCell) \<Rightarrow> (int2 \<Rightarrow> SBlockCell \<Rightarrow> bool) \<Rightarrow> (SBlockCellLow \<Rightarrow> SBlockCellLow) \<Rightarrow> int2 list \<Rightarrow>
    SBlockingMap \<Rightarrow> SBlockingMap" where
  "visits f d g ps \<equiv> fold (\<lambda>p. visit (f p) (d p) g p) ps"

lemma visits_fields [simp]:
  "cell_at q (visits f d g ps b) = cell_at q b" "low_at q (visits f d g ps b) = low_at q b"
  "length (bm_grid (visits f d g ps b)) = length (bm_grid b)" "length (bm_gridLow (visits f d g ps b)) = length (bm_gridLow b)"
  by (induction ps arbitrary: b) simp_all

lemma visits_keep [simp]:
  "bm_columns (visits f d g ps b) = bm_columns b" "bm_rows (visits f d g ps b) = bm_rows b"
  "bm_columnsLow (visits f d g ps b) = bm_columnsLow b" "bm_rowsLow (visits f d g ps b) = bm_rowsLow b"
  "bm_gridAlly (visits f d g ps b) = bm_gridAlly b" "bm_columnsAlly (visits f d g ps b) = bm_columnsAlly b"
  "bm_rowsAlly (visits f d g ps b) = bm_rowsAlly b"
  by (induction ps arbitrary: b) (simp_all add: visit_def on_cell_def on_low_def)

lemma visits_other:
  "i \<notin> (\<lambda>p. cell_at p b) ` set ps \<Longrightarrow> bm_grid (visits f d g ps b) ! i = bm_grid b ! i"
  by (induction ps arbitrary: b) (simp_all add: visit_grid)

lemma visits_cell:
  assumes "distinct (map (\<lambda>p. cell_at p b) ps)" "p \<in> set ps" "cell_at p b < length (bm_grid b)"
  shows "bm_grid (visits f d g ps b) ! cell_at p b = f p (bm_grid b ! cell_at p b)"
  using assms
proof (induction ps arbitrary: b)
  case (Cons a ps)
  let ?b = "visit (f a) (d a) g a b"
  have a: "i < length (bm_grid b) \<Longrightarrow> bm_grid ?b ! i = (if i = cell_at a b then f a (bm_grid b ! i) else bm_grid b ! i)" for i
    by (simp add: visit_grid nth_list_update)
  show ?case
  proof (cases "p = a")
    case True
    with Cons.prems have "cell_at p ?b \<notin> (\<lambda>p. cell_at p ?b) ` set ps" by simp
    from visits_other[OF this] True Cons.prems(3) a show ?thesis by simp
  next
    case False
    with Cons.prems have "p \<in> set ps" "cell_at p b \<noteq> cell_at a b" by (auto simp: image_iff)
    with Cons.IH[of ?b] Cons.prems a show ?thesis by simp
  qed
qed simp

lemma visits_low:
  assumes "distinct (map (\<lambda>p. cell_at p b) ps)" "j < length (bm_gridLow b)"
  shows "bm_gridLow (visits f d g ps b) ! j =
    (g ^^ length (filter (\<lambda>p. low_at p b = j \<and> d p (bm_grid b ! cell_at p b)) ps)) (bm_gridLow b ! j)"
  using assms
proof (induction ps arbitrary: b)
  case (Cons a ps)
  let ?b = "visit (f a) (d a) g a b"
  have grid: "bm_grid ?b ! cell_at p b = bm_grid b ! cell_at p b" if "p \<in> set ps" for p
  proof -
    from that Cons.prems(1) have "cell_at p b \<noteq> cell_at a b" by (auto simp: image_iff)
    then show ?thesis by (simp add: visit_grid)
  qed
  have "bm_gridLow ?b ! j = (if low_at a b = j \<and> d a (bm_grid b ! cell_at a b) then g (bm_gridLow b ! j) else bm_gridLow b ! j)"
    using Cons.prems(2) by (auto simp: visit_def on_cell_def on_low_def low_at_def)
  moreover have "filter (\<lambda>p. low_at p ?b = j \<and> d p (bm_grid ?b ! cell_at p ?b)) ps =
      filter (\<lambda>p. low_at p b = j \<and> d p (bm_grid b ! cell_at p b)) ps"
    by (rule filter_cong) (simp_all add: grid)
  ultimately show ?case
    using Cons.IH[of ?b] Cons.prems by (simp add: funpow_swap1)
qed simp

text \<open>Going back over the same cells with inverse operations undoes a visit.\<close>

lemma visits_undone:
  assumes "distinct (map (\<lambda>p. cell_at p b) ps)" "\<forall>p \<in> set ps. cell_at p b < length (bm_grid b)"
    and "\<forall>p \<in> set ps. f' p (f p (bm_grid b ! cell_at p b)) = bm_grid b ! cell_at p b"
    and "\<forall>p \<in> set ps. d' p (f p (bm_grid b ! cell_at p b)) \<longleftrightarrow> d p (bm_grid b ! cell_at p b)"
    and "\<forall>l \<in> set (bm_gridLow b). low_ok l \<and> unat (bl_blockerCounts l st) + length ps < 2 ^ 16"
  shows "visits f' d' (low_leave st) ps (visits f d (low_enter st) ps b) = b"
proof -
  let ?b = "visits f d (low_enter st) ps b"
  let ?c = "visits f' d' (low_leave st) ps ?b"
  have "bm_grid ?c ! i = bm_grid b ! i" if "i < length (bm_grid b)" for i
  proof (cases "i \<in> (\<lambda>p. cell_at p b) ` set ps")
    case True
    then obtain p where "p \<in> set ps" "i = cell_at p b" by auto
    with assms(1-3) visits_cell[of ?b ps p f'] show ?thesis by (simp add: visits_cell)
  qed (simp add: visits_other)
  then have grid: "bm_grid ?c = bm_grid b" by (simp add: list_eq_iff_nth_eq)
  have "bm_gridLow ?c ! j = bm_gridLow b ! j" if j: "j < length (bm_gridLow b)" for j
  proof -
    let ?k = "length (filter (\<lambda>p. low_at p b = j \<and> d p (bm_grid b ! cell_at p b)) ps)"
    have "filter (\<lambda>p. low_at p ?b = j \<and> d' p (bm_grid ?b ! cell_at p ?b)) ps = filter (\<lambda>p. low_at p b = j \<and> d p (bm_grid b ! cell_at p b)) ps"
      by (rule filter_cong) (use assms(1,2,4) in \<open>simp_all add: visits_cell\<close>)
    then have "bm_gridLow ?c ! j = (low_leave st ^^ ?k) ((low_enter st ^^ ?k) (bm_gridLow b ! j))"
      using visits_low[of ?b ps j f' d' "low_leave st"] visits_low[OF assms(1) j] assms(1) j by simp
    moreover have l: "low_ok (bm_gridLow b ! j)" "unat (bl_blockerCounts (bm_gridLow b ! j) st) + length ps < 2 ^ 16"
      using bspec[OF assms(5) nth_mem[OF j]] by simp_all
    moreover from l(2) have "unat (bl_blockerCounts (bm_gridLow b ! j) st) + ?k < 2 ^ 16"
      by (rule le_less_trans[OF add_left_mono, rotated]) simp
    ultimately show ?thesis using low_power[of "bm_gridLow b ! j" st ?k] by simp
  qed
  then have "bm_gridLow ?c = bm_gridLow b" by (simp add: list_eq_iff_nth_eq)
  with grid show ?thesis by (intro SBlockingMap.equality) simp_all
qed

lemma del_add_blocker:
  assumes "cell_ok c" "bc_blockerCounts c st \<noteq> 0xFFFF"
  shows "del_blocker st (add_blocker st c) = c"
    and "bc_blockerCounts (add_blocker st c) st - 1 = 0 \<longleftrightarrow> bc_blockerCounts c st = 0"
proof -
  have "\<not> bit (bc_blockerMask c) (struct_index st)" if "bc_blockerCounts c st = 0"
    using assms(1) that by (simp add: cell_ok_def)
  then show "del_blocker st (add_blocker st c) = c"
    by (auto simp: del_blocker_def add_blocker_def mask_and_not)
qed (simp add: add_blocker_def)

lemma del_add_struct:
  assumes "bc_structMask c = 0" "bc_notIgnoreMask c = 0 \<or> BLOCK_VAL \<le> bc_blockerCounts c st"
  shows "del_struct st (add_struct st ni c) = c"
  using assms by (auto simp: del_struct_def add_struct_def StructMask_NONE_def)

end
