(* ===== verification/Building_Site.thy ===== *)
theory Building_Site
  imports Blocking_Map "HOL-Library.Multiset"
begin

unbundle bit_operations_syntax

text \<open>
  Finding a place for a building and marking it on the map (terrain/TerrainManager.cpp).  A search starts from the cell that the code
  truncates from the coordinates; what the engine says of a candidate (\<open>CanBeBuiltAtSafe\<close>, \<open>IsPossibleToBuildAt\<close> and the caller's predicate) is
  one parameter, and so is the library's sort, of which only the order of the result is used.  The engine's
  sizes of a square (\<open>sq\<close>) and of a build square (\<open>bsq\<close>) are parameters too.  The lemmas show that a search returns
  the nearest open site, that marking a building and unmarking it restores the map, and that two overlapping buildings
  of one kind need not.
\<close>

section \<open>Searching\<close>

definition qdist :: "int2 \<Rightarrow> int" where
  "qdist o' = fst o' * fst o' + snd o' * snd o'"

text \<open>The table is kept between calls and only rebuilt for a larger radius.\<close>

definition GetSearchOffsetTable :: "(int2 list \<Rightarrow> int2 list) \<Rightarrow> int \<Rightarrow> int2 list \<Rightarrow> int2 list" where
  "GetSearchOffsetTable sort_fn radius searchOffsets =
    (if nat (radius * radius * 4) > length searchOffsets
     then sort_fn [(x - radius, y - radius). y \<leftarrow> [0..radius * 2 - 1], x \<leftarrow> [0..radius * 2 - 1]]
     else searchOffsets)"

abbreviation plus2 :: "int2 \<Rightarrow> int2 \<Rightarrow> int2" where
  "plus2 p q \<equiv> (fst p + fst q, snd p + snd q)"

abbreviation minus2 :: "int2 \<Rightarrow> int2 \<Rightarrow> int2" where
  "minus2 p q \<equiv> (fst p - fst q, snd p - snd q)"

text \<open>The part of the mask that lies on the map, and how much of it was cut off at the top left.\<close>

definition mask_area :: "int \<Rightarrow> IBlockMask \<Rightarrow> int2 \<Rightarrow> SBlockingMap \<Rightarrow> int2 \<times> int2 \<times> int2" where
  "mask_area facing bmask m1 b =
    (case Bound m1 (plus2 m1 (turned facing (bm_xsize bmask, bm_zsize bmask))) b of (c1, c2) \<Rightarrow> (c1, c2, minus2 c1 m1))"

definition mask_type :: "int \<Rightarrow> IBlockMask \<Rightarrow> int2 \<Rightarrow> int2 \<Rightarrow> int2 \<Rightarrow> BlockType" where
  "mask_type facing bmask c1 om p = GetType_facing facing bmask (fst p - fst c1 + fst om) (snd p - snd c1 + snd om)"

definition not_ignore :: "IBlockMask \<Rightarrow> u16" where
  "not_ignore bmask = ucast (NOT (bm_ignoreMask bmask))"

definition is_open_mask :: "int \<Rightarrow> IBlockMask \<Rightarrow> int2 \<times> int2 \<times> int2 \<Rightarrow> SBlockingMap \<Rightarrow> bool" where
  "is_open_mask facing bmask area b = (case area of (c1, c2, om) \<Rightarrow>
     list_all (\<lambda>p. case mask_type facing bmask c1 om p of
         BLOCK \<Rightarrow> \<not> IsStructed p (GetStructMask (bm_structType bmask)) b
       | STRUCT \<Rightarrow> \<not> IsBlocked p (not_ignore bmask) b
       | OPEN \<Rightarrow> True) (cells c1 c2))"

definition is_open_site :: "u16 \<Rightarrow> int2 \<Rightarrow> int2 \<Rightarrow> SBlockingMap \<Rightarrow> bool" where
  "is_open_site notIgnore s1 s2 b = list_all (\<lambda>p. \<not> IsBlocked p notIgnore b) (cells s1 s2)"

text \<open>The corner of a structure of the given size around a cell, and around a position.\<close>

definition cell_corner :: "int2 \<Rightarrow> int2 \<Rightarrow> int2" where
  "cell_corner cell ssize = (fst cell - fst ssize div 2, snd cell - snd ssize div 2)"

definition struct_corner :: "int \<Rightarrow> int2 \<Rightarrow> int2 \<Rightarrow> int2" where
  "struct_corner sq pos ssize = cell_corner (quot (fst pos) (sq * 2), quot (snd pos) (sq * 2)) ssize"

definition probe_pos :: "int \<Rightarrow> int2 \<Rightarrow> int2 \<Rightarrow> int2" where
  "probe_pos sq s1 s2 = ((fst s1 + fst s2) * sq, (snd s1 + snd s2) * sq)"

text \<open>Without a mask, sizes are exchanged for odd facings.\<close>

definition turned_odd :: "int \<Rightarrow> int2 \<Rightarrow> int2" where
  "turned_odd facing dims = (if facing mod 2 = 1 then (snd dims, fst dims) else dims)"

text \<open>
  The size of the structure is that of the south facing.  The searches take the cell of the position, which the code truncates
  from its coordinates, and the table kept so far; they return the position found and the table.
\<close>

definition FindBuildSite ::
    "(int2 list \<Rightarrow> int2 list) \<Rightarrow> int \<Rightarrow> (int2 \<Rightarrow> bool) \<Rightarrow> int \<Rightarrow> int2 \<Rightarrow> int \<Rightarrow> int2 \<Rightarrow> bool \<Rightarrow> SBlockingMap \<Rightarrow> int2 list \<Rightarrow>
     int2 option \<times> int2 list" where
  "FindBuildSite sort_fn sq engine_ok endr cell facing size2 isIgnore b table =
    (let ofs = GetSearchOffsetTable sort_fn endr table; ssize = turned_odd facing size2; corner = cell_corner cell ssize;
         notIgnore = (if isIgnore then StructMask_NONE else StructMask_ALL) in
     (map_option (\<lambda>d. probe_pos sq (plus2 corner d) (plus2 (plus2 corner d) ssize))
       (find (\<lambda>d. let s1 = plus2 corner d; s2 = plus2 s1 ssize in
          IsInBounds_rect s1 s2 b \<and> is_open_site notIgnore s1 s2 b \<and> engine_ok (probe_pos sq s1 s2))
        (take (nat (endr * endr * 4)) ofs)), ofs))"

definition FindBuildSiteByMask ::
    "(int2 list \<Rightarrow> int2 list) \<Rightarrow> int \<Rightarrow> (int2 \<Rightarrow> bool) \<Rightarrow> int \<Rightarrow> int2 \<Rightarrow> int \<Rightarrow> int2 \<Rightarrow> IBlockMask \<Rightarrow> SBlockingMap \<Rightarrow> int2 list \<Rightarrow>
     int2 option \<times> int2 list" where
  "FindBuildSiteByMask sort_fn sq engine_ok endr cell facing size2 bmask b table =
    (let ofs = GetSearchOffsetTable sort_fn endr table; ssize = turned facing size2; corner = cell_corner cell ssize;
         mask_corner = minus2 corner (GetStructOffset facing bmask) in
     (map_option (\<lambda>d. probe_pos sq (plus2 corner d) (plus2 (plus2 corner d) ssize))
       (find (\<lambda>d. let s1 = plus2 corner d; s2 = plus2 s1 ssize in
          IsInBounds_rect s1 s2 b \<and> engine_ok (probe_pos sq s1 s2) \<and>
          is_open_mask facing bmask (mask_area facing bmask (plus2 mask_corner d) b) b)
        (take (nat (endr * endr * 4)) ofs)), ofs))"

section \<open>Marking\<close>

definition mark_mask_cell :: "bool \<Rightarrow> IBlockMask \<Rightarrow> BlockType \<Rightarrow> int2 \<Rightarrow> SBlockingMap \<Rightarrow> SBlockingMap" where
  "mark_mask_cell block bmask t p b = (case t of
       BLOCK \<Rightarrow> (if block then Grid_AddBlocker (bm_structType bmask) p b else Grid_DelBlocker (bm_structType bmask) p b)
     | STRUCT \<Rightarrow> (if block then Grid_AddStruct (bm_structType bmask) (not_ignore bmask) p b
                  else Grid_DelStruct (bm_structType bmask) (not_ignore bmask) p b)
     | OPEN \<Rightarrow> b)"

definition MarkBlockerByMask :: "int \<Rightarrow> int \<Rightarrow> int2 \<Rightarrow> int2 \<Rightarrow> bool \<Rightarrow> IBlockMask \<Rightarrow> SBlockingMap \<Rightarrow> SBlockingMap" where
  "MarkBlockerByMask sq facing pos size2 block bmask b =
    (let corner = struct_corner sq pos (turned facing size2) in
     case mask_area facing bmask (minus2 corner (GetStructOffset facing bmask)) b of (c1, c2, om) \<Rightarrow>
       fold (\<lambda>p. mark_mask_cell block bmask (mask_type facing bmask c1 om p) p) (cells c1 c2) b)"

text \<open>Without a mask the structure alone is marked, column by column.\<close>

definition columns_of :: "int2 \<Rightarrow> int2 \<Rightarrow> int2 list" where
  "columns_of c1 c2 = [(x, z). x \<leftarrow> [fst c1..fst c2 - 1], z \<leftarrow> [snd c1..snd c2 - 1]]"

definition MarkBlocker_plain :: "int \<Rightarrow> int \<Rightarrow> int2 \<Rightarrow> int2 \<Rightarrow> bool \<Rightarrow> SBlockingMap \<Rightarrow> SBlockingMap" where
  "MarkBlocker_plain sq facing pos size2 block b =
    (let ssize = turned_odd facing size2; corner = struct_corner sq pos ssize in
     case Bound corner (plus2 corner ssize) b of (c1, c2) \<Rightarrow>
       fold (\<lambda>p. (if block then Grid_AddStruct else Grid_DelStruct) ST_UNKNOWN StructMask_ALL p) (columns_of c1 c2) b)"

definition TM_MarkBlocker :: "int \<Rightarrow> (nat \<Rightarrow> IBlockMask option) \<Rightarrow> nat \<Rightarrow> int \<Rightarrow> int2 \<Rightarrow> int2 \<Rightarrow> bool \<Rightarrow> SBlockingMap \<Rightarrow> SBlockingMap" where
  "TM_MarkBlocker sq blockInfos def_id facing pos size2 block b = (case blockInfos def_id of
       Some bmask \<Rightarrow> MarkBlockerByMask sq facing pos size2 block bmask b
     | None \<Rightarrow> MarkBlocker_plain sq facing pos size2 block b)"

definition zone_cells :: "int \<Rightarrow> int2 \<Rightarrow> int \<Rightarrow> SBlockingMap \<Rightarrow> int2 list" where
  "zone_cells bsq pos n b =
    (let c = (quot (fst pos) (GRID_RATIO_ALLY * bsq) - quot n 2, quot (snd pos) (GRID_RATIO_ALLY * bsq) - quot n 2) in
     case BoundAlly c (plus2 c (n, n)) b of (c1, c2) \<Rightarrow> columns_of c1 c2)"

definition MarkZoneAlly :: "int \<Rightarrow> int2 \<Rightarrow> int \<Rightarrow> bool \<Rightarrow> SBlockingMap \<Rightarrow> SBlockingMap" where
  "MarkZoneAlly bsq pos allyZoneCells block b = fold (if block then AddZoneAlly else DelZoneAlly) (zone_cells bsq pos allyZoneCells b) b"

definition MarkZoneOwn :: "int \<Rightarrow> int2 \<Rightarrow> int \<Rightarrow> bool \<Rightarrow> SBlockingMap \<Rightarrow> SBlockingMap" where
  "MarkZoneOwn bsq pos allyZoneCells block b = fold (if block then AddZoneOwn else DelZoneOwn) (zone_cells bsq pos allyZoneCells b) b"

section \<open>The nearest site\<close>

definition sorts_by_distance :: "(int2 list \<Rightarrow> int2 list) \<Rightarrow> bool" where
  "sorts_by_distance sort_fn \<longleftrightarrow> (\<forall>xs. mset (sort_fn xs) = mset xs \<and> sorted_wrt (\<lambda>a b. qdist a \<le> qdist b) (sort_fn xs))"

text \<open>The table after searches with the given radii.\<close>

definition offset_table :: "(int2 list \<Rightarrow> int2 list) \<Rightarrow> int list \<Rightarrow> int2 list" where
  "offset_table sort_fn radii = fold (GetSearchOffsetTable sort_fn) radii []"

text \<open>The offsets of a square, as the table lists them before it is sorted.\<close>

definition square_offsets :: "int \<Rightarrow> int2 list" where
  "square_offsets r = [(x - r, y - r). y \<leftarrow> [0..r * 2 - 1], x \<leftarrow> [0..r * 2 - 1]]"

lemma length_square_offsets: "0 \<le> r \<Longrightarrow> length (square_offsets r) = nat (r * r * 4)"
proof -
  assume "0 \<le> r"
  then have "length (square_offsets r) = nat (r * 2) * nat (r * 2)"
    by (simp add: square_offsets_def length_concat comp_def sum_list_triv)
  also have "\<dots> = nat (r * r * 4)"
    using \<open>0 \<le> r\<close> by (simp add: nat_mult_distrib[symmetric] algebra_simps)
  finally show ?thesis .
qed

lemma set_square_offsets: "set (square_offsets r) = {- r..r - 1} \<times> {- r..r - 1}"
proof (intro set_eqI iffI)
  fix d
  assume "d \<in> {- r..r - 1} \<times> {- r..r - 1}"
  then have "fst d + r \<in> set [0..r * 2 - 1]" "snd d + r \<in> set [0..r * 2 - 1]" by auto
  then have "(fst d + r - r, snd d + r - r) \<in> (\<Union>y \<in> set [0..r * 2 - 1]. (\<lambda>x. (x - r, y - r)) ` set [0..r * 2 - 1])"
    by blast
  then have "(fst d + r - r, snd d + r - r) \<in> set (square_offsets r)"
    by (simp only: square_offsets_def set_concat set_map image_image UN_simps)
  then show "d \<in> set (square_offsets r)" by simp
qed (auto simp: square_offsets_def)

lemma distinct_square_offsets: "0 \<le> r \<Longrightarrow> distinct (square_offsets r)"
proof (rule card_distinct)
  assume r: "0 \<le> r"
  have "nat (r + r) * nat (r + r) = nat (r * r * 4)"
    using r by (simp add: nat_mult_distrib[symmetric] algebra_simps)
  then show "card (set (square_offsets r)) = length (square_offsets r)"
    using r by (simp add: set_square_offsets card_cartesian_product length_square_offsets)
qed

text \<open>The table in use is the sorted square of a radius at least as large as the one asked for.\<close>

lemma offset_table_square:
  assumes "\<forall>r \<in> set radii. 0 \<le> r"
  shows "offset_table sort_fn radii = [] \<or> (\<exists>r \<ge> 0. offset_table sort_fn radii = sort_fn (square_offsets r))"
  using assms
proof (induction radii rule: rev_induct)
  case (snoc r radii)
  then show ?case
    by (auto simp: offset_table_def GetSearchOffsetTable_def square_offsets_def[symmetric])
qed (simp add: offset_table_def)

lemma GetSearchOffsetTable_square:
  assumes "sorts_by_distance sort_fn" "0 \<le> endr" "\<forall>r \<in> set radii. 0 \<le> r"
  obtains r where "endr \<le> r" "GetSearchOffsetTable sort_fn endr (offset_table sort_fn radii) = sort_fn (square_offsets r)"
proof -
  let ?t = "offset_table sort_fn radii"
  have len: "length (sort_fn xs) = length xs" for xs
    using assms(1) by (metis size_mset sorts_by_distance_def)
  show thesis
  proof (cases "nat (endr * endr * 4) > length ?t")
    case True
    then show ?thesis
      using that[of endr] by (simp add: GetSearchOffsetTable_def square_offsets_def)
  next
    case small: False
    then have table: "GetSearchOffsetTable sort_fn endr ?t = ?t" by (simp add: GetSearchOffsetTable_def)
    consider "?t = []" | r where "0 \<le> r" "?t = sort_fn (square_offsets r)"
      using offset_table_square[OF assms(3)] by blast
    then show ?thesis
    proof cases
      case 1
      then have "endr = 0" using small assms(2) by (simp add: zero_less_mult_iff)
      moreover have "square_offsets 0 = []" by (simp add: square_offsets_def)
      then have "sort_fn (square_offsets 0) = []" using len[of "square_offsets 0"] by simp
      ultimately show ?thesis using that[of 0] table 1 by simp
    next
      case 2
      then have "nat (endr * endr * 4) \<le> nat (r * r * 4)"
        using small len[of "square_offsets r"] length_square_offsets[of r] by (metis not_le)
      then have "endr * endr \<le> r * r"
        using nat_le_eq_zle[of "endr * endr * 4" "r * r * 4"] zero_le_square[of r] by linarith
      then have "endr \<le> r"
        using 2(1) by (metis abs_le_square_iff abs_of_nonneg assms(2) power2_eq_square)
      then show ?thesis using that 2(2) table by simp
    qed
  qed
qed

text \<open>In a sorted list the elements below a bound come first.\<close>

lemma sorted_filter_take:
  "sorted_wrt (\<lambda>a b. q a \<le> (q b :: int)) xs \<Longrightarrow>
   filter (\<lambda>x. q x < B) xs = take (length (filter (\<lambda>x. q x < B) xs)) xs"
proof (induction xs)
  case (Cons x xs)
  show ?case
  proof (cases "q x < B")
    case False
    then have "filter (\<lambda>x. q x < B) xs = []" using Cons.prems by (auto simp: filter_empty_conv)
    then show ?thesis using False by simp
  qed (use Cons in simp)
qed simp

lemma table_count:
  assumes "sorts_by_distance sort_fn" "0 \<le> r"
  shows "length (filter P (sort_fn (square_offsets r))) = card {d \<in> set (square_offsets r). P d}"
proof -
  have "length (filter P (sort_fn (square_offsets r))) = length (filter P (square_offsets r))"
    using assms(1) by (metis mset_filter size_mset sorts_by_distance_def)
  also have "\<dots> = card (set (filter P (square_offsets r)))"
    using distinct_card[OF distinct_filter[OF distinct_square_offsets[OF assms(2)]], of P] by simp
  also have "set (filter P (square_offsets r)) = {d \<in> set (square_offsets r). P d}"
    by simp
  finally show ?thesis .
qed

lemma abs_less_of_square: "x * x < r * (r :: int) \<Longrightarrow> 0 \<le> r \<Longrightarrow> \<bar>x\<bar> < r"
  using abs_le_square_iff[of r x] by (simp add: power2_eq_square not_le[symmetric])

lemma square_le: "- r \<le> x \<Longrightarrow> x \<le> r - 1 \<Longrightarrow> x * x \<le> r * (r :: int)"
  by (metis abs_le_square_iff abs_le_iff abs_of_nonneg dual_order.trans minus_le_iff order_refl power2_eq_square
      zle_diff1_eq order_less_imp_le abs_ge_self)

text \<open>The searched part of the table holds every offset nearer than the radius and none beyond the corner of its square.\<close>

lemma searched_offsets:
  assumes "sorts_by_distance sort_fn" "0 \<le> endr" "endr \<le> r"
  defines "searched \<equiv> take (nat (endr * endr * 4)) (sort_fn (square_offsets r))"
  shows "qdist d < endr * endr \<Longrightarrow> d \<in> set searched" "d \<in> set searched \<Longrightarrow> qdist d \<le> 2 * (endr * endr)"
proof -
  let ?t = "sort_fn (square_offsets r)" and ?n = "nat (endr * endr * 4)"
  have sorted: "sorted_wrt (\<lambda>a b. qdist a \<le> qdist b) ?t" and set_t: "set ?t = set (square_offsets r)"
    using assms(1) by (simp_all add: sorts_by_distance_def) (metis set_mset_mset)
  have n: "card (set (square_offsets endr)) = ?n"
    using distinct_card[OF distinct_square_offsets] length_square_offsets assms(2) by simp
  have near: "d \<in> set (square_offsets endr)" if "qdist d < endr * endr" for d
  proof -
    have "fst d * fst d < endr * endr" "snd d * snd d < endr * endr"
      using that zero_le_square[of "fst d"] zero_le_square[of "snd d"] unfolding qdist_def by linarith+
    then have "\<bar>fst d\<bar> < endr" "\<bar>snd d\<bar> < endr"
      using assms(2) abs_less_of_square by blast+
    then show ?thesis by (cases d) (auto simp: set_square_offsets)
  qed
  have sub: "set (square_offsets endr) \<subseteq> set (square_offsets r)"
    using assms(3) by (auto simp: set_square_offsets)
  have "length (filter (\<lambda>x. qdist x < endr * endr) ?t) \<le> ?n"
    unfolding table_count[OF assms(1) order_trans[OF assms(2,3)]] n[symmetric]
    by (rule card_mono) (auto dest: near)
  moreover assume "qdist d < endr * endr"
  moreover from this have "d \<in> set (filter (\<lambda>x. qdist x < endr * endr) ?t)"
    using near[of d] sub set_t by (simp add: subsetD)
  ultimately show "d \<in> set searched"
    unfolding searched_def using sorted_filter_take[OF sorted, of "endr * endr"] set_take_subset_set_take by (metis subsetD)
next
  let ?t = "sort_fn (square_offsets r)" and ?n = "nat (endr * endr * 4)" and ?B = "2 * (endr * endr) + 1"
  have sorted: "sorted_wrt (\<lambda>a b. qdist a \<le> qdist b) ?t"
    using assms(1) by (simp add: sorts_by_distance_def)
  have n: "card (set (square_offsets endr)) = ?n"
    using distinct_card[OF distinct_square_offsets] length_square_offsets assms(2) by simp
  have "qdist d < ?B" if "d \<in> set (square_offsets endr)" for d
  proof -
    have "fst d * fst d \<le> endr * endr" "snd d * snd d \<le> endr * endr"
      using that by (auto simp: set_square_offsets intro!: square_le)
    then show ?thesis unfolding qdist_def by linarith
  qed
  then have "set (square_offsets endr) \<subseteq> {d \<in> set (square_offsets r). qdist d < ?B}"
    using assms(3) by (auto simp: set_square_offsets)
  then have "?n \<le> length (filter (\<lambda>x. qdist x < ?B) ?t)"
    unfolding table_count[OF assms(1) order_trans[OF assms(2,3)]] n[symmetric] by (intro card_mono) auto
  moreover assume "d \<in> set searched"
  ultimately have "d \<in> set (filter (\<lambda>x. qdist x < ?B) ?t)"
    unfolding searched_def using sorted_filter_take[OF sorted, of ?B] set_take_subset_set_take by (metis subsetD)
  then show "qdist d \<le> 2 * (endr * endr)" by simp
qed

lemma find_first:
  assumes "sorted_wrt (\<lambda>a b. q a \<le> (q b :: int)) xs" "find P xs = Some d"
  shows "d \<in> set xs \<and> P d \<and> (\<forall>e \<in> set xs. P e \<longrightarrow> q d \<le> q e)"
  using assms by (induction xs) (auto split: if_splits)

text \<open>The tests a candidate has to pass.\<close>

definition site_ok :: "int \<Rightarrow> (int2 \<Rightarrow> bool) \<Rightarrow> int \<Rightarrow> int2 \<Rightarrow> IBlockMask \<Rightarrow> SBlockingMap \<Rightarrow> int2 \<Rightarrow> bool" where
  "site_ok sq engine_ok facing ssize bmask b s1 \<longleftrightarrow> IsInBounds_rect s1 (plus2 s1 ssize) b \<and> engine_ok (probe_pos sq s1 (plus2 s1 ssize)) \<and>
     is_open_mask facing bmask (mask_area facing bmask (minus2 s1 (GetStructOffset facing bmask)) b) b"

lemma FindBuildSiteByMask_find:
  "fst (FindBuildSiteByMask sort_fn sq engine_ok endr cell facing size2 bmask b table) =
    (let ssize = turned facing size2; corner = cell_corner cell ssize in
     map_option (\<lambda>d. probe_pos sq (plus2 corner d) (plus2 (plus2 corner d) ssize))
       (find (\<lambda>d. site_ok sq engine_ok facing ssize bmask b (plus2 corner d))
         (take (nat (endr * endr * 4)) (GetSearchOffsetTable sort_fn endr table))))"
  by (simp add: FindBuildSiteByMask_def site_ok_def Let_def algebra_simps)

lemma FindBuildSiteByMask_Some:
  assumes "fst (FindBuildSiteByMask sort_fn sq engine_ok endr cell facing size2 bmask b table) = Some pos'"
  obtains s1 where "pos' = probe_pos sq s1 (plus2 s1 (turned facing size2))" "site_ok sq engine_ok facing (turned facing size2) bmask b s1"
proof -
  let ?corner = "cell_corner cell (turned facing size2)"
  from assms obtain d where "find (\<lambda>d. site_ok sq engine_ok facing (turned facing size2) bmask b (plus2 ?corner d))
        (take (nat (endr * endr * 4)) (GetSearchOffsetTable sort_fn endr table)) = Some d"
      "pos' = probe_pos sq (plus2 ?corner d) (plus2 (plus2 ?corner d) (turned facing size2))"
    unfolding FindBuildSiteByMask_find Let_def by auto
  then show thesis using that[of "plus2 ?corner d"] by (auto simp: find_Some_iff)
qed

text \<open>
  C30: a search returns the nearest acceptable site within its radius.  For any sort of the library and any searches before this one,
  a position that \<open>FindBuildSiteByMask\<close> returns belongs to an offset whose site is on the map, open under the building's mask and accepted by
  the engine; the offset lies within the corner of the searched square and no acceptable site anywhere nearer than the radius is
  nearer than it.  When the search returns none, no site nearer than the radius is acceptable.  The table it leaves behind is again
  one of this kind.
\<close>

theorem FindBuildSiteByMask_nearest:
  assumes "sorts_by_distance sort_fn" "0 \<le> endr" "\<forall>r \<in> set radii. 0 \<le> r"
  shows "let ssize = turned facing size2; corner = cell_corner cell ssize;
      ok = (\<lambda>d. site_ok sq engine_ok facing ssize bmask b (plus2 corner d));
      (found, table) = FindBuildSiteByMask sort_fn sq engine_ok endr cell facing size2 bmask b (offset_table sort_fn radii) in
    table = offset_table sort_fn (radii @ [endr]) \<and>
    (case found of
      Some pos' \<Rightarrow> \<exists>d. pos' = probe_pos sq (plus2 corner d) (plus2 (plus2 corner d) ssize) \<and> ok d \<and> qdist d \<le> 2 * (endr * endr) \<and>
        (\<forall>e. qdist e < endr * endr \<longrightarrow> ok e \<longrightarrow> qdist d \<le> qdist e)
    | None \<Rightarrow> \<forall>e. qdist e < endr * endr \<longrightarrow> \<not> ok e)"
proof -
  let ?table = "offset_table sort_fn radii" and ?corner = "cell_corner cell (turned facing size2)"
  let ?ok = "\<lambda>d. site_ok sq engine_ok facing (turned facing size2) bmask b (plus2 ?corner d)"
  let ?find = "FindBuildSiteByMask sort_fn sq engine_ok endr cell facing size2 bmask b ?table"
  obtain r where r: "endr \<le> r" "GetSearchOffsetTable sort_fn endr ?table = sort_fn (square_offsets r)"
    using GetSearchOffsetTable_square[OF assms] by blast
  let ?searched = "take (nat (endr * endr * 4)) (sort_fn (square_offsets r))"
  note searched = searched_offsets[OF assms(1,2) r(1)]
  have sorted: "sorted_wrt (\<lambda>a b. qdist a \<le> qdist b) ?searched"
    using assms(1) by (simp add: sorts_by_distance_def sorted_wrt_take)
  have found: "fst ?find = map_option (\<lambda>d. probe_pos sq (plus2 ?corner d) (plus2 (plus2 ?corner d) (turned facing size2))) (find ?ok ?searched)"
    by (simp add: FindBuildSiteByMask_find r(2) Let_def)
  have "snd ?find = offset_table sort_fn (radii @ [endr])"
    by (simp add: FindBuildSiteByMask_def offset_table_def Let_def)
  moreover have "case fst ?find of
      Some pos' \<Rightarrow> \<exists>d. pos' = probe_pos sq (plus2 ?corner d) (plus2 (plus2 ?corner d) (turned facing size2)) \<and> ?ok d \<and>
        qdist d \<le> 2 * (endr * endr) \<and> (\<forall>e. qdist e < endr * endr \<longrightarrow> ?ok e \<longrightarrow> qdist d \<le> qdist e)
    | None \<Rightarrow> \<forall>e. qdist e < endr * endr \<longrightarrow> \<not> ?ok e"
  proof (cases "find ?ok ?searched")
    case None
    then have "\<forall>e \<in> set ?searched. \<not> ?ok e" by (simp add: find_None_iff)
    then show ?thesis unfolding found None using searched(1) by auto
  next
    case (Some d)
    note first = find_first[OF sorted Some]
    then have "\<forall>e. qdist e < endr * endr \<longrightarrow> ?ok e \<longrightarrow> qdist d \<le> qdist e" "qdist d \<le> 2 * (endr * endr)"
      using searched by blast+
    with first show ?thesis unfolding found Some option.map option.case by blast
  qed
  ultimately show ?thesis by (simp add: Let_def case_prod_beta)
qed

section \<open>Marking and unmarking\<close>

definition map_sound :: "SBlockingMap \<Rightarrow> bool" where
  "map_sound b \<longleftrightarrow> length (bm_grid b) = nat (bm_columns b * bm_rows b) \<and> (\<forall>c \<in> set (bm_grid b). cell_ok c) \<and>
     (\<forall>l \<in> set (bm_gridLow b). low_ok l)"

lemma mask_area_eq:
  assumes "mask_area facing bmask m1 b = (c1, c2, om)"
  shows "0 \<le> fst c1" "0 \<le> snd c1" "fst c2 \<le> bm_columns b" "snd c2 \<le> bm_rows b" "om = minus2 c1 m1"
  using assms by (auto simp: mask_area_def Bound_def)

lemma area_cells:
  assumes "map_sound b" "0 \<le> fst c1" "0 \<le> snd c1" "fst c2 \<le> bm_columns b" "snd c2 \<le> bm_rows b"
  shows "distinct (map (\<lambda>p. cell_at p b) (cells c1 c2))" "p \<in> set (cells c1 c2) \<Longrightarrow> cell_at p b < length (bm_grid b)"
proof -
  have sub: "{p. within c1 c2 p} \<subseteq> {p. within (0, 0) (bm_columns b, bm_rows b) p}"
    using assms(2-) by (auto simp: within_def)
  have "inj_on (\<lambda>p. cell_at p b) (set (cells c1 c2))"
    unfolding cell_at_def set_cells by (rule inj_on_subset[OF inj_cell_index sub])
  then show "distinct (map (\<lambda>p. cell_at p b) (cells c1 c2))" by (simp add: distinct_map)
  assume "p \<in> set (cells c1 c2)"
  with sub have "within (0, 0) (bm_columns b, bm_rows b) p" by auto
  then show "cell_at p b < length (bm_grid b)"
    using cell_index_bound[of "fst p" "bm_columns b" "snd p" "bm_rows b"] assms(1) by (simp add: within_def map_sound_def cell_at_def)
qed

text \<open>The marking of one cell as a visit; an open cell is visited without effect.\<close>

definition mark_f :: "bool \<Rightarrow> IBlockMask \<Rightarrow> BlockType \<Rightarrow> SBlockCell \<Rightarrow> SBlockCell" where
  "mark_f block bmask t = (case t of
       BLOCK \<Rightarrow> (if block then add_blocker (bm_structType bmask) else del_blocker (bm_structType bmask))
     | STRUCT \<Rightarrow> (if block then add_struct (bm_structType bmask) (not_ignore bmask) else del_struct (bm_structType bmask))
     | OPEN \<Rightarrow> id)"

definition mark_d :: "bool \<Rightarrow> IBlockMask \<Rightarrow> BlockType \<Rightarrow> SBlockCell \<Rightarrow> bool" where
  "mark_d block bmask t = (case t of
       BLOCK \<Rightarrow> (if block then (\<lambda>c. bc_blockerCounts c (bm_structType bmask) = 0) else (\<lambda>c. bc_blockerCounts c (bm_structType bmask) - 1 = 0))
     | STRUCT \<Rightarrow> (\<lambda>c. bc_blockerCounts c (bm_structType bmask) = 0)
     | OPEN \<Rightarrow> (\<lambda>c. False))"

lemma mark_mask_cell_visit:
  "mark_mask_cell block bmask t p = visit (mark_f block bmask t) (mark_d block bmask t)
     (if block then low_enter (bm_structType bmask) else low_leave (bm_structType bmask)) p"
  by (rule ext, cases t; cases block) (simp_all add: mark_mask_cell_def mark_f_def mark_d_def operations_visit, simp_all add: visit_def on_cell_def)

lemma mark_unmark:
  assumes "cell_ok c" "t = BLOCK \<Longrightarrow> bc_blockerCounts c (bm_structType bmask) \<noteq> 0xFFFF"
    and "t = STRUCT \<Longrightarrow> bc_structMask c = 0 \<and> (bc_notIgnoreMask c = 0 \<or> BLOCK_VAL \<le> bc_blockerCounts c (bm_structType bmask))"
  shows "mark_f False bmask t (mark_f True bmask t c) = c" "mark_d False bmask t (mark_f True bmask t c) \<longleftrightarrow> mark_d True bmask t c"
proof -
  have "mark_f False bmask t (mark_f True bmask t c) = c \<and> (mark_d False bmask t (mark_f True bmask t c) \<longleftrightarrow> mark_d True bmask t c)"
  proof (cases t)
    case BLOCK
    with del_add_blocker[OF assms(1,2)] show ?thesis by (simp add: mark_f_def mark_d_def)
  next
    case STRUCT
    with del_add_struct[of c "bm_structType bmask"] assms(3) show ?thesis
      by (simp add: mark_f_def mark_d_def) (simp add: add_struct_def)
  qed (simp add: mark_f_def mark_d_def)
  then show "mark_f False bmask t (mark_f True bmask t c) = c" "mark_d False bmask t (mark_f True bmask t c) \<longleftrightarrow> mark_d True bmask t c"
    by simp_all
qed

text \<open>What a marked footprint needs besides an open site: no counter overflows and no other mark under the structure is lost.\<close>

definition footprint_free :: "int \<Rightarrow> IBlockMask \<Rightarrow> int2 \<Rightarrow> SBlockingMap \<Rightarrow> bool" where
  "footprint_free facing bmask s1 b = (case mask_area facing bmask (minus2 s1 (GetStructOffset facing bmask)) b of (c1, c2, om) \<Rightarrow>
     list_all (\<lambda>p. let c = bm_grid b ! cell_at p b; n = bc_blockerCounts c (bm_structType bmask) in
       case mask_type facing bmask c1 om p of
         BLOCK \<Rightarrow> n \<noteq> 0xFFFF | STRUCT \<Rightarrow> bc_notIgnoreMask c = 0 \<or> BLOCK_VAL \<le> n | OPEN \<Rightarrow> True) (cells c1 c2) \<and>
     list_all (\<lambda>l. uint (bl_blockerCounts l (bm_structType bmask)) + int (length (cells c1 c2)) < 2 ^ 16) (bm_gridLow b))"

lemma open_footprint_cell:
  assumes "map_sound b" "is_open_mask facing bmask (mask_area facing bmask (minus2 s1 (GetStructOffset facing bmask)) b) b"
    and "footprint_free facing bmask s1 b" "mask_area facing bmask (minus2 s1 (GetStructOffset facing bmask)) b = (c1, c2, om)"
    and p: "p \<in> set (cells c1 c2)"
  defines "t \<equiv> mask_type facing bmask c1 om p" and "c \<equiv> bm_grid b ! cell_at p b"
  shows "mark_f False bmask t (mark_f True bmask t c) = c" "mark_d False bmask t (mark_f True bmask t c) \<longleftrightarrow> mark_d True bmask t c"
proof -
  have site: "\<forall>q \<in> set (cells c1 c2). case mask_type facing bmask c1 om q of
      BLOCK \<Rightarrow> \<not> IsStructed q (GetStructMask (bm_structType bmask)) b | STRUCT \<Rightarrow> \<not> IsBlocked q (not_ignore bmask) b | OPEN \<Rightarrow> True"
    using assms(2) by (simp add: is_open_mask_def assms(4) list_all_iff del: set_cells)
  have free: "\<forall>q \<in> set (cells c1 c2). let c = bm_grid b ! cell_at q b; n = bc_blockerCounts c (bm_structType bmask) in
      case mask_type facing bmask c1 om q of BLOCK \<Rightarrow> n \<noteq> 0xFFFF | STRUCT \<Rightarrow> bc_notIgnoreMask c = 0 \<or> BLOCK_VAL \<le> n | OPEN \<Rightarrow> True"
    using assms(3) by (simp add: footprint_free_def assms(4) list_all_iff del: set_cells)
  have "cell_ok c"
    using area_cells(2)[OF assms(1) mask_area_eq(1-4)[OF assms(4)] p] assms(1) by (simp add: map_sound_def c_def)
  moreover have "t = STRUCT \<Longrightarrow> bc_structMask c = 0"
    using bspec[OF site p] by (simp add: t_def c_def IsBlocked_def Let_def)
  moreover have "t = BLOCK \<Longrightarrow> bc_blockerCounts c (bm_structType bmask) \<noteq> 0xFFFF"
      "t = STRUCT \<Longrightarrow> bc_notIgnoreMask c = 0 \<or> BLOCK_VAL \<le> bc_blockerCounts c (bm_structType bmask)"
    using bspec[OF free p] by (simp_all add: t_def c_def Let_def)
  ultimately show "mark_f False bmask t (mark_f True bmask t c) = c" "mark_d False bmask t (mark_f True bmask t c) \<longleftrightarrow> mark_d True bmask t c"
    using mark_unmark[of c t bmask] by simp_all
qed

lemma unat_sum_less:
  assumes "uint x + int n < 65536"
  shows "unat (x :: u16) + n < 65536"
proof -
  have "int (unat x) = uint x" by simp
  with assms show ?thesis by linarith
qed

lemma probe_corner:
  assumes "0 < sq" "0 \<le> fst s1" "0 \<le> snd s1" "0 \<le> fst ssize" "0 \<le> snd ssize"
  shows "struct_corner sq (probe_pos sq s1 (plus2 s1 ssize)) ssize = s1"
proof -
  have "quot ((x + (x + w)) * sq) (sq * 2) - w div 2 = x" if "0 \<le> x" "0 \<le> w" for x w :: int
  proof -
    have "(x + (x + w)) * sq div (sq * 2) = (2 * x + w) div 2"
      using assms(1) by (metis div_mult_mult1 less_irrefl mult.commute mult_2 add.assoc)
    then show ?thesis using that assms(1) by (simp add: quot_def mult_less_0_iff)
  qed
  then show ?thesis using assms by (simp add: struct_corner_def cell_corner_def probe_pos_def)
qed

text \<open>
  C29: removing a building undoes its marks.  Take a sound map and a site that the search found for a building.  Marking the building at
  the position found marks the cells that were tested, and unmarking it afterwards gives back the map as it was, both grids included,
  if no counter overflows and no mark under the structure belongs to something else.
\<close>

theorem mark_unmark_restores:
  assumes "map_sound b" "0 < sq" "0 \<le> fst size2" "0 \<le> snd size2"
    and "fst (FindBuildSiteByMask sort_fn sq engine_ok endr cell facing size2 bmask b table) = Some pos'"
    and "footprint_free facing bmask (struct_corner sq pos' (turned facing size2)) b"
  shows "MarkBlockerByMask sq facing pos' size2 False bmask (MarkBlockerByMask sq facing pos' size2 True bmask b) = b"
proof -
  let ?ss = "turned facing size2"
  obtain s1 where s1: "pos' = probe_pos sq s1 (plus2 s1 ?ss)" "site_ok sq engine_ok facing ?ss bmask b s1"
    using FindBuildSiteByMask_Some[OF assms(5)] by metis
  have "0 \<le> fst ?ss" "0 \<le> snd ?ss" using assms(3,4) by (simp_all add: turned_def)
  with s1 assms(2) have corner: "struct_corner sq pos' ?ss = s1"
    by (simp add: probe_corner site_ok_def IsInBounds_rect_def)
  obtain c1 c2 om where area: "mask_area facing bmask (minus2 s1 (GetStructOffset facing bmask)) b = (c1, c2, om)"
    by (metis prod.exhaust)
  let ?t = "mask_type facing bmask c1 om" and ?ps = "cells c1 c2" and ?st = "bm_structType bmask"
  let ?add = "visits (\<lambda>p. mark_f True bmask (?t p)) (\<lambda>p. mark_d True bmask (?t p)) (low_enter ?st) ?ps"
    and ?del = "visits (\<lambda>p. mark_f False bmask (?t p)) (\<lambda>p. mark_d False bmask (?t p)) (low_leave ?st) ?ps"
  have same: "mask_area facing bmask m1 (?add b) = mask_area facing bmask m1 b" for m1
    by (simp add: mask_area_def Bound_def)
  have "is_open_mask facing bmask (mask_area facing bmask (minus2 s1 (GetStructOffset facing bmask)) b) b"
    using s1(2) by (simp add: site_ok_def)
  note cell = open_footprint_cell[OF assms(1) this assms(6)[unfolded corner] area]
  have "?del (?add b) = b"
  proof (rule visits_undone)
    show "\<forall>l \<in> set (bm_gridLow b). low_ok l \<and> unat (bl_blockerCounts l ?st) + length ?ps < 2 ^ 16"
      using assms(1,6) by (auto simp: map_sound_def footprint_free_def corner area list_all_iff intro!: unat_sum_less)
  qed (use cell area_cells[OF assms(1) mask_area_eq(1-4)[OF area]] in auto)
  then show ?thesis
    by (simp add: MarkBlockerByMask_def corner area same mark_mask_cell_visit Let_def)
qed

text \<open>A map of 32 by 32 squares, a rectangular footprint, and a search around its middle.\<close>

definition sample_map :: SBlockingMap where
  "sample_map = BlockingMap_new 32 32"

definition sample_mask :: IBlockMask where
  "sample_mask = CBlockRectangle (0, 0) (4, 4) (2, 2) ST_DEF_LOW 0"

lemma BlockingMap_new_sound: "map_sound (BlockingMap_new w h)"
  by (auto simp: map_sound_def BlockingMap_new_def Let_def cell_ok_def low_ok_def BLOCK_THRESHOLD_def in_set_replicate)

lemma sort_key_by_distance: "sorts_by_distance (sort_key qdist)"
  using sorted_sort_key[of qdist] by (simp add: sorts_by_distance_def sorted_map)

lemma sample_search:
  "FindBuildSiteByMask (sort_key qdist) 8 (\<lambda>_. True) 1 (8, 8) UNIT_FACING_SOUTH (2, 2) sample_mask sample_map [] =
     (Some (128, 128), [(0, 0), (0, - 1), (- 1, 0), (- 1, - 1)])"
  by code_simp

theorem FindBuildSiteByMask_nearest_witness:
  "\<exists>d. (128, 128) = probe_pos 8 (7 + fst d, 7 + snd d) (7 + fst d + 2, 7 + snd d + 2) \<and>
     site_ok 8 (\<lambda>_. True) UNIT_FACING_SOUTH (2, 2) sample_mask sample_map (7 + fst d, 7 + snd d) \<and> qdist d \<le> 2 \<and>
     (\<forall>e. qdist e < 1 \<longrightarrow> site_ok 8 (\<lambda>_. True) UNIT_FACING_SOUTH (2, 2) sample_mask sample_map (7 + fst e, 7 + snd e) \<longrightarrow> qdist d \<le> qdist e)"
proof -
  have sizes: "cell_corner (8, 8) (2, 2) = (7, 7)" "turned UNIT_FACING_SOUTH (2, 2) = (2, 2)" "offset_table (sort_key qdist) [] = []"
    by code_simp+
  show ?thesis
    using FindBuildSiteByMask_nearest[OF sort_key_by_distance, where endr=1 and radii="[]" and cell="(8, 8)" and facing=UNIT_FACING_SOUTH
        and ?size2.0="(2, 2)" and sq=8 and engine_ok="\<lambda>_. True" and bmask=sample_mask and b=sample_map]
    by (simp add: sizes sample_search Let_def)
qed

theorem mark_unmark_restores_witness:
  "MarkBlockerByMask 8 UNIT_FACING_SOUTH (128, 128) (2, 2) False sample_mask
     (MarkBlockerByMask 8 UNIT_FACING_SOUTH (128, 128) (2, 2) True sample_mask sample_map) = sample_map"
proof -
  have "map_sound sample_map" unfolding sample_map_def by (rule BlockingMap_new_sound)
  moreover have "footprint_free UNIT_FACING_SOUTH sample_mask (struct_corner 8 (128, 128) (turned UNIT_FACING_SOUTH (2, 2))) sample_map"
    by code_simp
  ultimately show ?thesis
    using mark_unmark_restores[of sample_map 8 "(2, 2)" "sort_key qdist" "\<lambda>_. True" 1 "(8, 8)" UNIT_FACING_SOUTH sample_mask "[]" "(128, 128)"]
    by (simp add: sample_search)
qed

section \<open>Buildings that overlap\<close>

text \<open>
  Overlapping marks of one kind corrupt the coarse grid.  When the structure of one building and the margin of another of
  the same kind share a cell, removing both in the order they were placed leaves the cell empty and the coarse counter
  changed: one too many when the structure came first, one too few when the margin did.
\<close>

theorem overlap_corrupts_low_counter:
  assumes "cell_at p b < length (bm_grid b)" "low_at p b < length (bm_gridLow b)" "bc_blockerCounts (bm_grid b ! cell_at p b) st = 0"
  shows "let n = bl_blockerCounts (bm_gridLow b ! low_at p b) st;
      b1 = Grid_DelBlocker st p (Grid_DelStruct st ni p (Grid_AddBlocker st p (Grid_AddStruct st ni p b)));
      b2 = Grid_DelStruct st ni p (Grid_DelBlocker st p (Grid_AddStruct st ni p (Grid_AddBlocker st p b))) in
    bl_blockerCounts (bm_gridLow b1 ! low_at p b) st = n + 1 \<and> bl_blockerCounts (bm_gridLow b2 ! low_at p b) st = n - 1 \<and>
    bc_blockerCounts (bm_grid b1 ! cell_at p b) st = 0 \<and> \<not> IsStruct p b1 \<and>
    bc_blockerCounts (bm_grid b2 ! cell_at p b) st = 0 \<and> \<not> IsStruct p b2"
proof -
  have "bl_blockerCounts (low_enter st l) st = bl_blockerCounts l st + 1" "bl_blockerCounts (low_leave st l) st = bl_blockerCounts l st - 1" for l
    by (auto simp: low_enter_def low_leave_def Let_def)
  then show ?thesis
    unfolding Let_def operations_visit IsStruct_def using assms
    by (simp add: visit_grid visit_low add_struct_def del_struct_def add_blocker_def del_blocker_def StructMask_NONE_def)
qed

theorem overlap_corrupts_low_counter_witness:
  "let b1 = Grid_DelBlocker ST_DEF_LOW (3, 4) (Grid_DelStruct ST_DEF_LOW 0 (3, 4)
       (Grid_AddBlocker ST_DEF_LOW (3, 4) (Grid_AddStruct ST_DEF_LOW 0 (3, 4) sample_map))) in
   bl_blockerCounts (bm_gridLow b1 ! 0) ST_DEF_LOW = 1 \<and> \<not> IsStruct (3, 4) b1"
proof -
  have "cell_at (3, 4) sample_map = 67" "low_at (3, 4) sample_map = 0" "length (bm_grid sample_map) = 256" "length (bm_gridLow sample_map) = 4"
      "bc_blockerCounts (bm_grid sample_map ! 67) ST_DEF_LOW = 0" "bl_blockerCounts (bm_gridLow sample_map ! 0) ST_DEF_LOW = 0"
    by code_simp+
  then show ?thesis
    using overlap_corrupts_low_counter[of "(3, 4)" sample_map ST_DEF_LOW 0] by (simp add: Let_def)
qed

text \<open>
  \<open>MarkBlocker\<close> sets the coarse bit one cell later than the other operations; when the counter passes the threshold without
  setting the bit, they do not set it either.
\<close>

lemma low_mark_power:
  "k \<le> 48 \<Longrightarrow> (low_mark st ^^ k) \<lparr> bl_blockerMask = 0, bl_blockerCounts = (\<lambda>_. 0) \<rparr> =
    \<lparr> bl_blockerMask = 0, bl_blockerCounts = (\<lambda>_. 0)(st := of_nat k) \<rparr>"
proof (induction k)
  case (Suc k)
  then have "(of_nat k :: u16) \<noteq> BLOCK_THRESHOLD"
    by (simp add: BLOCK_THRESHOLD_def word_unat_eq_iff unat_of_nat_lt)
  then have "low_mark st \<lparr> bl_blockerMask = 0, bl_blockerCounts = (\<lambda>_. 0)(st := of_nat k) \<rparr> =
      \<lparr> bl_blockerMask = 0, bl_blockerCounts = (\<lambda>_. 0)(st := of_nat (Suc k)) \<rparr>"
    by (simp add: low_mark_def Let_def add.commute)
  moreover have "(low_mark st ^^ k) \<lparr> bl_blockerMask = 0, bl_blockerCounts = (\<lambda>_. 0) \<rparr> =
      \<lparr> bl_blockerMask = 0, bl_blockerCounts = (\<lambda>_. 0)(st := of_nat k) \<rparr>"
    using Suc.prems by (intro Suc.IH) simp
  ultimately show ?case unfolding funpow.simps comp_apply by (simp add: fun_eq_iff)
qed (simp add: fun_eq_iff)

lemma MarkBlocker_misses_threshold:
  "let l = low_enter st ((low_mark st ^^ 48) \<lparr> bl_blockerMask = 0, bl_blockerCounts = (\<lambda>_. 0) \<rparr>) in
   bl_blockerMask l = 0 \<and> BLOCK_THRESHOLD < bl_blockerCounts l st"
  by (simp add: low_mark_power low_enter_def Let_def BLOCK_THRESHOLD_def)

end
