(* ===== verification/Mask_Handler.thy ===== *)
theory Mask_Handler
  imports Prelude
begin

unbundle bit_operations_syntax

text \<open>
  Names as bits (util/MaskHandler.h, util/MaskHandler.cpp), used for the roles, attributes and sides of units.  The table is an association list; the order in
  which the code's hash table is walked does not matter, since a bit belongs to one name.  A shift of an \<open>int\<close> by its width or more
  is undefined and yields none.  The lemmas show the round trip from names to bits and back while at most 31 names are known, and that the
  handler, which promises 64, fails for the 32nd.
\<close>

section \<open>Model\<close>

record TypeMask =
  tm_type :: int
  tm_mask :: u64

record CMaskHandler =
  mh_masks :: "(string \<times> TypeMask) list"
  mh_firstUnused :: int

definition GetMaxMasks :: int where "GetMaxMasks = 64"

definition MaskHandler_Init :: "CMaskHandler \<Rightarrow> CMaskHandler" where
  "MaskHandler_Init h = h\<lparr>mh_firstUnused := 0\<rparr>"

definition MaskHandler_new :: CMaskHandler where
  "MaskHandler_new = MaskHandler_Init \<lparr> mh_masks = [], mh_firstUnused = 0 \<rparr>"

definition MaskHandler_Release :: "CMaskHandler \<Rightarrow> CMaskHandler" where
  "MaskHandler_Release h = h\<lparr>mh_masks := []\<rparr>"

definition HasType :: "string \<Rightarrow> CMaskHandler \<Rightarrow> bool" where
  "HasType name h \<longleftrightarrow> map_of (mh_masks h) name \<noteq> None"

text \<open>The shift is one of a signed 32-bit number, which is then widened with its sign.\<close>

definition GetMask_type :: "int \<Rightarrow> u64 option" where
  "GetMask_type t = (if 0 \<le> t \<and> t < 32 then Some (scast (push_bit (nat t) 1 :: u32)) else None)"

definition GetName :: "int \<Rightarrow> CMaskHandler \<Rightarrow> string" where
  "GetName t h = (case find (\<lambda>(name, tm). t = tm_type tm) (mh_masks h) of Some (name, tm) \<Rightarrow> name | None \<Rightarrow> [])"

definition GetTypeMask :: "string \<Rightarrow> CMaskHandler \<Rightarrow> (TypeMask \<times> CMaskHandler) option" where
  "GetTypeMask name h =
    (let none = \<lparr> tm_type = -1, tm_mask = 0 \<rparr> in
     if name = [] then Some (none, h)
     else case map_of (mh_masks h) name of
       Some tm \<Rightarrow> Some (tm, h)
     | None \<Rightarrow>
        if mh_firstUnused h \<ge> GetMaxMasks then Some (none, h)
        else case GetMask_type (mh_firstUnused h) of
          None \<Rightarrow> None
        | Some m \<Rightarrow> (let tm = \<lparr> tm_type = mh_firstUnused h, tm_mask = m \<rparr> in
            Some (tm, \<lparr> mh_masks = mh_masks h @ [(name, tm)], mh_firstUnused = mh_firstUnused h + 1 \<rparr>)))"

definition GetType_name :: "string \<Rightarrow> CMaskHandler \<Rightarrow> (int \<times> CMaskHandler) option" where
  "GetType_name name h = map_option (\<lambda>(tm, h'). (tm_type tm, h')) (GetTypeMask name h)"

definition GetMask_name :: "string \<Rightarrow> CMaskHandler \<Rightarrow> (u64 \<times> CMaskHandler) option" where
  "GetMask_name name h = map_option (\<lambda>(tm, h'). (tm_mask tm, h')) (GetTypeMask name h)"

text \<open>The pieces a stream yields when it is read up to each space.\<close>

fun getlines :: "char \<Rightarrow> string \<Rightarrow> string \<Rightarrow> string list" where
  "getlines sep piece [] = (if piece = [] then [] else [piece])"
| "getlines sep piece (c # cs) = (if c = sep then piece # getlines sep [] cs else getlines sep (piece @ [c]) cs)"

fun or_masks :: "string list \<Rightarrow> u64 \<Rightarrow> CMaskHandler \<Rightarrow> (u64 \<times> CMaskHandler) option" where
  "or_masks [] ret h = Some (ret, h)"
| "or_masks (name # names) ret h =
    (if name = [] then or_masks names ret h
     else case GetMask_name name h of None \<Rightarrow> None | Some (m, h') \<Rightarrow> or_masks names (ret OR m) h')"

definition GetMasks :: "string \<Rightarrow> CMaskHandler \<Rightarrow> (u64 \<times> CMaskHandler) option" where
  "GetMasks names h = or_masks (getlines (CHR '' '') [] names) 0 h"

text \<open>The loop runs over the bits of an unsigned 32-bit number until the shift leaves 0.\<close>

definition GetMaskNames :: "u64 \<Rightarrow> CMaskHandler \<Rightarrow> string list" where
  "GetMaskNames bits h = concat (map (\<lambda>i.
     let bit = (ucast (push_bit i 1 :: u32) :: u64) in
     if bit AND bits = 0 then [] else map fst (filter (\<lambda>(name, tm). tm_mask tm = bit) (mh_masks h))) [0..<32])"

section \<open>Invariant\<close>

definition mask_handler_ok :: "CMaskHandler \<Rightarrow> bool" where
  "mask_handler_ok h \<longleftrightarrow> distinct (map fst (mh_masks h)) \<and> distinct (map (tm_type \<circ> snd) (mh_masks h)) \<and>
     0 \<le> mh_firstUnused h \<and> mh_firstUnused h \<le> 31 \<and>
     (\<forall>(name, tm) \<in> set (mh_masks h). name \<noteq> [] \<and> 0 \<le> tm_type tm \<and> tm_type tm < mh_firstUnused h \<and>
        tm_mask tm = push_bit (nat (tm_type tm)) 1)"

lemma small_shift: "i < 31 \<Longrightarrow> scast (push_bit i 1 :: u32) = (push_bit i 1 :: u64)"
  by (rule bit_word_eqI) (auto simp: bit_simps)

lemma small_bit: "i < 32 \<Longrightarrow> ucast (push_bit i 1 :: u32) = (push_bit i 1 :: u64)"
  by (rule bit_word_eqI) (auto simp: bit_simps)

lemma MaskHandler_new_ok: "mask_handler_ok MaskHandler_new"
  by (simp add: mask_handler_ok_def MaskHandler_new_def MaskHandler_Init_def)

lemma MaskHandler_Release_ok: "mask_handler_ok h \<Longrightarrow> mask_handler_ok (MaskHandler_Release h)"
  by (simp add: mask_handler_ok_def MaskHandler_Release_def)

lemma GetTypeMask_ok:
  assumes "mask_handler_ok h" "name \<noteq> []" "mh_firstUnused h < 31"
  obtains tm h' xs where "GetTypeMask name h = Some (tm, h')" "mask_handler_ok h'" "mh_masks h' = mh_masks h @ xs"
    "map_of (mh_masks h') name = Some tm" "mh_firstUnused h' \<le> mh_firstUnused h + 1"
proof (cases "map_of (mh_masks h) name")
  case (Some tm)
  with assms that[of tm h "[]"] show thesis by (simp add: GetTypeMask_def Let_def)
next
  case None
  let ?tm = "\<lparr> tm_type = mh_firstUnused h, tm_mask = push_bit (nat (mh_firstUnused h)) 1 \<rparr>"
  let ?h = "\<lparr> mh_masks = mh_masks h @ [(name, ?tm)], mh_firstUnused = mh_firstUnused h + 1 \<rparr>"
  from None have new: "name \<notin> fst ` set (mh_masks h)" by (simp add: map_of_eq_None_iff)
  have "GetTypeMask name h = Some (?tm, ?h)"
    using None assms by (simp add: GetTypeMask_def Let_def GetMask_type_def GetMaxMasks_def mask_handler_ok_def small_shift[simplified])
  moreover have "mask_handler_ok ?h"
    using assms new by (force simp: mask_handler_ok_def)
  moreover have "map_of (mh_masks ?h) name = Some ?tm"
    using None by (simp add: map_add_def)
  ultimately show thesis using that[of ?tm ?h "[(name, ?tm)]"] by simp
qed

lemma ok_mask_bit:
  assumes "mask_handler_ok h" "(name, tm) \<in> set (mh_masks h)"
  shows "bit (tm_mask tm) i \<longleftrightarrow> i = nat (tm_type tm)" "0 \<le> tm_type tm" "tm_type tm < 31"
proof -
  from assms have "tm_mask tm = push_bit (nat (tm_type tm)) 1" "0 \<le> tm_type tm" "tm_type tm < 31"
    by (auto simp: mask_handler_ok_def)
  then show "bit (tm_mask tm) i \<longleftrightarrow> i = nat (tm_type tm)" "0 \<le> tm_type tm" "tm_type tm < 31"
    by (auto simp: bit_simps)
qed

lemma or_masks_ok:
  assumes "mask_handler_ok h" "[] \<notin> set ws" "mh_firstUnused h + int (length ws) \<le> 31"
  shows "\<exists>m h' xs. or_masks ws ret h = Some (m, h') \<and> mask_handler_ok h' \<and> mh_masks h' = mh_masks h @ xs \<and>
    (\<forall>i. bit m i \<longleftrightarrow> bit ret i \<or> (\<exists>w \<in> set ws. \<exists>tm. (w, tm) \<in> set (mh_masks h') \<and> nat (tm_type tm) = i)) \<and>
    set ws \<subseteq> fst ` set (mh_masks h')"
  using assms
proof (induction ws arbitrary: ret h)
  case (Cons w ws)
  then obtain tm h1 xs where h1: "GetTypeMask w h = Some (tm, h1)" "mask_handler_ok h1" "mh_masks h1 = mh_masks h @ xs"
      "map_of (mh_masks h1) w = Some tm" "mh_firstUnused h1 \<le> mh_firstUnused h + 1"
    by (auto elim: GetTypeMask_ok[of h w])
  with Cons.prems obtain m h' ys where h': "or_masks ws (ret OR tm_mask tm) h1 = Some (m, h')" "mask_handler_ok h'" "mh_masks h' = mh_masks h1 @ ys"
      "\<forall>i. bit m i \<longleftrightarrow> bit (ret OR tm_mask tm) i \<or> (\<exists>w \<in> set ws. \<exists>tm. (w, tm) \<in> set (mh_masks h') \<and> nat (tm_type tm) = i)"
      "set ws \<subseteq> fst ` set (mh_masks h')"
    using Cons.IH[of h1 "ret OR tm_mask tm"] by auto
  from h1(4) h'(3) have mem: "(w, tm) \<in> set (mh_masks h')" by (auto dest: map_of_SomeD)
  have "distinct (map fst (mh_masks h'))" using h'(2) by (simp add: mask_handler_ok_def)
  then have unique: "(w, tm') \<in> set (mh_masks h') \<longleftrightarrow> tm' = tm" for tm'
    using mem by (auto dest: eq_key_imp_eq_value)
  have "or_masks (w # ws) ret h = Some (m, h')"
    using Cons.prems(2) h1(1) h'(1) by (auto simp: GetMask_name_def)
  moreover have "bit m i \<longleftrightarrow> bit ret i \<or> (\<exists>v \<in> set (w # ws). \<exists>tm. (v, tm) \<in> set (mh_masks h') \<and> nat (tm_type tm) = i)" for i
    using h'(4) ok_mask_bit(1)[OF h'(2) mem, of i] by (auto simp: bit_or_iff unique)
  moreover have "w \<in> fst ` set (mh_masks h')" using mem by force
  ultimately show ?case using h1(3) h'(2,3,5) by (intro exI[of _ m] exI[of _ h'] exI[of _ "xs @ ys"]) simp
qed simp

lemma in_GetMaskNames:
  "name \<in> set (GetMaskNames m h) \<longleftrightarrow> (\<exists>i < 32. ucast (push_bit i 1 :: u32) AND m \<noteq> 0 \<and>
     (\<exists>tm. (name, tm) \<in> set (mh_masks h) \<and> tm_mask tm = ucast (push_bit i 1 :: u32)))"
proof -
  have elem: "name \<in> set (if c then [] else map fst (filter (\<lambda>(name, tm). tm_mask tm = b) xs)) \<longleftrightarrow>
      \<not> c \<and> (\<exists>tm. (name, tm) \<in> set xs \<and> tm_mask tm = b)" for c b and xs :: "(string \<times> TypeMask) list"
    by force
  show ?thesis
    by (simp only: GetMaskNames_def Let_def set_concat set_map UN_iff bex_simps(7) elem set_upt) auto
qed

lemma single_bit_and: "push_bit i 1 AND m = (if bit m i then push_bit i 1 else (0 :: u64))"
  by (rule bit_word_eqI) (auto simp: bit_simps)

lemma single_bit_eq:
  assumes "i < 64" "j < 64"
  shows "push_bit i 1 = (push_bit j 1 :: u64) \<longleftrightarrow> i = j"
proof
  assume "push_bit i 1 = (push_bit j 1 :: u64)"
  then have "bit (push_bit i 1 :: u64) j = bit (push_bit j 1 :: u64) j" by simp
  then show "i = j" using assms by (auto simp: bit_simps)
qed simp

lemma set_GetMaskNames:
  assumes "mask_handler_ok h"
  shows "name \<in> set (GetMaskNames m h) \<longleftrightarrow> (\<exists>tm. (name, tm) \<in> set (mh_masks h) \<and> bit m (nat (tm_type tm)))"
proof -
  have test: "ucast (push_bit i 1 :: u32) AND m = 0 \<longleftrightarrow> \<not> bit m i" if "i < 32" for i
    using that single_bit_and[of i m] by (simp only: small_bit) simp
  have mask: "tm_mask tm = (ucast (push_bit i 1 :: u32) :: u64) \<longleftrightarrow> i = nat (tm_type tm)"
    if "i < 32" "(name', tm) \<in> set (mh_masks h)" for i name' tm
  proof -
    from assms that(2) have "tm_mask tm = push_bit (nat (tm_type tm)) 1" "nat (tm_type tm) < 64" by (auto simp: mask_handler_ok_def)
    with that(1) show ?thesis by (simp only: small_bit) (auto simp only: single_bit_eq)
  qed
  show ?thesis
  proof
    assume "name \<in> set (GetMaskNames m h)"
    then obtain i tm where "i < 32" "ucast (push_bit i 1 :: u32) AND m \<noteq> 0" "(name, tm) \<in> set (mh_masks h)" "tm_mask tm = ucast (push_bit i 1 :: u32)"
      unfolding in_GetMaskNames by blast
    with test mask show "\<exists>tm. (name, tm) \<in> set (mh_masks h) \<and> bit m (nat (tm_type tm))" by blast
  next
    assume "\<exists>tm. (name, tm) \<in> set (mh_masks h) \<and> bit m (nat (tm_type tm))"
    then obtain tm where tm: "(name, tm) \<in> set (mh_masks h)" "bit m (nat (tm_type tm))" by blast
    then have "nat (tm_type tm) < 32" using ok_mask_bit[OF assms tm(1)] by simp
    with test mask tm show "name \<in> set (GetMaskNames m h)"
      unfolding in_GetMaskNames by (intro exI[of _ "nat (tm_type tm)"]) blast
  qed
qed

lemma getlines_word: "sep \<notin> set w \<Longrightarrow> getlines sep piece (w @ sep # cs) = (piece @ w) # getlines sep [] cs"
  by (induction w arbitrary: piece) auto

lemma getlines_words: "\<forall>w \<in> set ws. sep \<notin> set w \<Longrightarrow> getlines sep [] (concat (map (\<lambda>w. w @ [sep]) ws)) = ws"
  by (induction ws) (simp_all add: getlines_word)

text \<open>
  C31: names survive the way to bits and back.  As long as the handler knows at most 31 names, asking for the mask of a list of names
  succeeds, and the names described by that mask are exactly those of the list.
\<close>

theorem GetMasks_roundtrip:
  assumes "mask_handler_ok h" "\<forall>w \<in> set ws. w \<noteq> [] \<and> CHR '' '' \<notin> set w" "mh_firstUnused h + int (length ws) \<le> 31"
  shows "\<exists>m h'. GetMasks (concat (map (\<lambda>w. w @ '' '') ws)) h = Some (m, h') \<and> mask_handler_ok h' \<and> set (GetMaskNames m h') = set ws"
proof -
  have "[] \<notin> set ws" using assms(2) by auto
  from or_masks_ok[OF assms(1) this assms(3), of 0] obtain m h' where h': "or_masks ws 0 h = Some (m, h')" "mask_handler_ok h'"
      "\<forall>i. bit m i \<longleftrightarrow> (\<exists>w \<in> set ws. \<exists>tm. (w, tm) \<in> set (mh_masks h') \<and> nat (tm_type tm) = i)" "set ws \<subseteq> fst ` set (mh_masks h')"
    by auto
  have types: "distinct (map (tm_type \<circ> snd) (mh_masks h'))" using h'(2) by (simp add: mask_handler_ok_def)
  have same: "v = w" if "(v, tm) \<in> set (mh_masks h')" "(w, tm') \<in> set (mh_masks h')" "nat (tm_type tm) = nat (tm_type tm')" for v w tm tm'
  proof -
    have "tm_type tm = tm_type tm'" using that ok_mask_bit[OF h'(2)] by (metis nat_eq_iff)
    then show ?thesis using that(1,2) types by (force simp: distinct_map inj_on_def)
  qed
  have "name \<in> set (GetMaskNames m h') \<longleftrightarrow> name \<in> set ws" for name
  proof
    assume "name \<in> set (GetMaskNames m h')"
    then obtain tm w tm' where "(name, tm) \<in> set (mh_masks h')" "w \<in> set ws" "(w, tm') \<in> set (mh_masks h')" "nat (tm_type tm') = nat (tm_type tm)"
      using h'(3) by (auto simp: set_GetMaskNames[OF h'(2)])
    then show "name \<in> set ws" using same by metis
  next
    assume name: "name \<in> set ws"
    with h'(4) obtain tm where "(name, tm) \<in> set (mh_masks h')" by auto
    with name h'(3) show "name \<in> set (GetMaskNames m h')" by (auto simp: set_GetMaskNames[OF h'(2)])
  qed
  moreover have "getlines (CHR '' '') [] (concat (map (\<lambda>w. w @ '' '') ws)) = ws"
    using assms(2) by (intro getlines_words) auto
  ultimately show ?thesis using h'(1,2) by (auto simp: GetMasks_def)
qed

theorem GetMasks_roundtrip_witness:
  "\<exists>m h'. GetMasks ''raider scout '' MaskHandler_new = Some (m, h') \<and> set (GetMaskNames m h') = {''raider'', ''scout''}"
  using GetMasks_roundtrip[OF MaskHandler_new_ok, of "[''raider'', ''scout'']"] by (auto simp: MaskHandler_new_def MaskHandler_Init_def)

text \<open>
  C40: the 32nd name breaks the handler.  With 31 names known the handler still accepts another, but the bit-field it hands
  out has all the upper bits set and describes no name at all; the next name after that makes the program shift a 32-bit number by 32, which is
  undefined, although the handler announces room for 64.
\<close>

theorem GetTypeMask_32nd_name:
  assumes "mask_handler_ok h" "mh_firstUnused h = 31" "name \<noteq> []" "\<not> HasType name h" "other \<noteq> []" "other \<noteq> name" "\<not> HasType other h"
  shows "\<exists>tm h'. GetTypeMask name h = Some (tm, h') \<and> mh_firstUnused h' < GetMaxMasks \<and> tm_mask tm = 0xFFFFFFFF80000000 \<and>
    name \<notin> set (GetMaskNames (tm_mask tm) h') \<and> GetTypeMask other h' = None"
proof -
  let ?tm = "\<lparr> tm_type = 31, tm_mask = 0xFFFFFFFF80000000 \<rparr>"
  let ?h = "\<lparr> mh_masks = mh_masks h @ [(name, ?tm)], mh_firstUnused = 32 \<rparr>"
  have "GetMask_type 31 = Some 0xFFFFFFFF80000000" by code_simp
  then have new: "GetTypeMask name h = Some (?tm, ?h)"
    using assms by (simp add: GetTypeMask_def Let_def HasType_def GetMaxMasks_def)
  have undefined: "GetTypeMask other ?h = None"
    using assms by (simp add: GetTypeMask_def Let_def HasType_def GetMaxMasks_def GetMask_type_def map_add_def)
  have "(0xFFFFFFFF80000000 :: u64) \<noteq> ucast (push_bit i 1 :: u32)" for i
  proof
    assume "(0xFFFFFFFF80000000 :: u64) = ucast (push_bit i 1 :: u32)"
    then have "bit (ucast (push_bit i 1 :: u32) :: u64) 32 = bit (0xFFFFFFFF80000000 :: u64) 32" by simp
    then show False by (simp add: bit_simps)
  qed
  moreover have "name \<notin> fst ` set (mh_masks h)"
    using assms(4) by (simp add: HasType_def map_of_eq_None_iff)
  ultimately have "name \<notin> set (GetMaskNames 0xFFFFFFFF80000000 ?h)"
    by (auto simp only: in_GetMaskNames set_append Un_iff list.simps image_iff) (auto simp: image_iff)
  with new undefined show ?thesis
    by (intro exI[of _ ?tm] exI[of _ ?h]) (simp add: GetMaxMasks_def)
qed

text \<open>A handler that knows 31 names.\<close>

definition full_handler :: CMaskHandler where
  "full_handler = \<lparr> mh_masks = map (\<lambda>i. (replicate (Suc i) (CHR ''a''), \<lparr> tm_type = int i, tm_mask = push_bit i 1 \<rparr>)) [0..<31], mh_firstUnused = 31 \<rparr>"

theorem GetTypeMask_32nd_name_witness:
  "\<exists>tm h'. GetTypeMask ''b'' full_handler = Some (tm, h') \<and> ''b'' \<notin> set (GetMaskNames (tm_mask tm) h') \<and> GetTypeMask ''c'' h' = None"
proof -
  have "mask_handler_ok full_handler"
    by (auto simp: mask_handler_ok_def full_handler_def distinct_map inj_on_def comp_def)
  moreover have "mh_firstUnused full_handler = 31" "\<not> HasType ''b'' full_handler" "\<not> HasType ''c'' full_handler" by code_simp+
  ultimately show ?thesis
    using GetTypeMask_32nd_name[of full_handler "''b''" "''c''"] by auto
qed

end
