(* ===== verification/Avail_List.thy ===== *)
theory Avail_List
  imports Prelude "HOL-Library.Multiset"
begin

text \<open>
  What can be built now, best first (util/AvailList.h).  A definition is identified by its address; sets of them are walked in the order of
  the addresses.  The score function, the answer of \<open>CanBuild\<close> and the library's sort are parameters; of the sort only the order and the contents
  of its result are used.  The lemmas show that the list always holds exactly the available definitions in the order of their scores, so
  that the queries return the best and the worst one.
\<close>

section \<open>Model\<close>

record ('s, 't) SAvailInfo =
  ai_cdef :: nat
  ai_score :: 's
  ai_data :: 't

record ('s, 't) CAvailList =
  al_allInfos :: "nat \<rightharpoonup> ('s, 't) SAvailInfo"
  al_all :: "nat set"
  al_avail :: "nat set"
  al_infos :: "('s, 't) SAvailInfo list"
  al_builderInfos :: "nat \<Rightarrow> nat list"

definition AvailList_new :: "('s, 't) CAvailList" where
  "AvailList_new = \<lparr> al_allInfos = Map.empty, al_all = {}, al_avail = {}, al_infos = [], al_builderInfos = (\<lambda>_. []) \<rparr>"

definition AddDef :: "nat \<Rightarrow> ('s, 't) CAvailList \<Rightarrow> ('s, 't) CAvailList" where
  "AddDef cdef l = l\<lparr>al_all := insert cdef (al_all l)\<rparr>"

definition AvailList_Init ::
    "(('s, 't) SAvailInfo list \<Rightarrow> ('s, 't) SAvailInfo list) \<Rightarrow> (nat \<Rightarrow> nat \<Rightarrow> bool) \<Rightarrow> (nat \<Rightarrow> nat) \<Rightarrow> nat list \<Rightarrow> (nat \<Rightarrow> 's \<times> 't) \<Rightarrow>
     ('s, 't) CAvailList \<Rightarrow> ('s, 't) CAvailList" where
  "AvailList_Init sort_fn can_build id_of builders score_fn l =
    (let infos = map (\<lambda>d. \<lparr> ai_cdef = d, ai_score = fst (score_fn d), ai_data = snd (score_fn d) \<rparr>) (sorted_list_of_set (al_all l));
         sortedInfos = sort_fn infos in
     l\<lparr> al_allInfos := al_allInfos l ++ map_of (map (\<lambda>i. (ai_cdef i, i)) infos),
        al_builderInfos := fold (\<lambda>bdef bi. bi(id_of bdef := bi (id_of bdef) @ filter (can_build bdef) (map ai_cdef sortedInfos))) builders (al_builderInfos l) \<rparr>)"

text \<open>An information that is not there is created empty.\<close>

definition info_of :: "('s, 't) SAvailInfo \<Rightarrow> ('s, 't) CAvailList \<Rightarrow> nat \<Rightarrow> ('s, 't) SAvailInfo" where
  "info_of empty_info l d = (case al_allInfos l d of Some i \<Rightarrow> i | None \<Rightarrow> empty_info)"

definition AddDefs ::
    "(('s, 't) SAvailInfo list \<Rightarrow> ('s, 't) SAvailInfo list) \<Rightarrow> ('s, 't) SAvailInfo \<Rightarrow> nat set \<Rightarrow> ('s, 't) CAvailList \<Rightarrow> ('s, 't) CAvailList" where
  "AddDefs sort_fn empty_info buildDefs l =
    (let newDefs = al_all l \<inter> buildDefs in
     if newDefs = {} then l
     else let diffDefs = newDefs - al_avail l in
     if diffDefs = {} then l
     else let ds = sorted_list_of_set diffDefs in
       l\<lparr> al_avail := al_avail l \<union> diffDefs,
          al_allInfos := (\<lambda>d. if d \<in> diffDefs then Some (info_of empty_info l d) else al_allInfos l d),
          al_infos := sort_fn (al_infos l @ map (info_of empty_info l) ds) \<rparr>)"

text \<open>The loop walks from the end; after an erasure the iterator stands at the same place.\<close>

fun erase_back :: "nat set \<Rightarrow> nat \<Rightarrow> ('s, 't) SAvailInfo list \<Rightarrow> ('s, 't) SAvailInfo list" where
  "erase_back oldDefs 0 xs = xs"
| "erase_back oldDefs (Suc i) xs =
    (if ai_cdef (xs ! i) \<in> oldDefs then erase_back oldDefs i (take i xs @ drop (Suc i) xs) else erase_back oldDefs i xs)"

definition RemoveDefs :: "nat set \<Rightarrow> ('s, 't) CAvailList \<Rightarrow> ('s, 't) CAvailList" where
  "RemoveDefs buildDefs l =
    (let oldDefs = al_all l \<inter> buildDefs in
     if oldDefs = {} then l
     else l\<lparr> al_avail := al_avail l - oldDefs, al_infos := erase_back oldDefs (length (al_infos l)) (al_infos l) \<rparr>)"

definition IsAvail :: "nat \<Rightarrow> ('s, 't) CAvailList \<Rightarrow> bool" where
  "IsAvail d l \<longleftrightarrow> d \<in> al_avail l"

definition HasAvail :: "('s, 't) CAvailList \<Rightarrow> bool" where
  "HasAvail l \<longleftrightarrow> al_infos l \<noteq> []"

definition GetAvailInfo :: "nat \<Rightarrow> ('s, 't) CAvailList \<Rightarrow> 't option" where
  "GetAvailInfo d l = map_option ai_data (al_allInfos l d)"

definition GetBestDef :: "(nat \<Rightarrow> 't \<Rightarrow> bool) \<Rightarrow> ('s, 't) CAvailList \<Rightarrow> nat option" where
  "GetBestDef flt l = map_option ai_cdef (find (\<lambda>i. flt (ai_cdef i) (ai_data i)) (al_infos l))"

definition GetWorstDef :: "(nat \<Rightarrow> 't \<Rightarrow> bool) \<Rightarrow> ('s, 't) CAvailList \<Rightarrow> nat option" where
  "GetWorstDef flt l = map_option ai_cdef (find (\<lambda>i. flt (ai_cdef i) (ai_data i)) (rev (al_infos l)))"

definition GetBuildDefs :: "nat \<Rightarrow> ('s, 't) CAvailList \<Rightarrow> nat list" where
  "GetBuildDefs con_id l = al_builderInfos l con_id"

section \<open>Invariant\<close>

definition sorts_by_score :: "(('s::linorder, 't) SAvailInfo list \<Rightarrow> ('s, 't) SAvailInfo list) \<Rightarrow> bool" where
  "sorts_by_score sort_fn \<longleftrightarrow> (\<forall>xs. mset (sort_fn xs) = mset xs \<and> sorted_wrt (\<lambda>a b. ai_score b \<le> ai_score a) (sort_fn xs))"

text \<open>Every definition has its information, and the list holds those of the available ones, best first.\<close>

definition avail_ok :: "('s::linorder, 't) CAvailList \<Rightarrow> bool" where
  "avail_ok l \<longleftrightarrow> finite (al_all l) \<and> al_avail l \<subseteq> al_all l \<and>
     (\<forall>d \<in> al_all l. \<exists>i. al_allInfos l d = Some i \<and> ai_cdef i = d) \<and>
     mset (al_infos l) = image_mset (\<lambda>d. the (al_allInfos l d)) (mset_set (al_avail l)) \<and>
     sorted_wrt (\<lambda>a b. ai_score b \<le> ai_score a) (al_infos l)"

lemma erase_back_filter:
  "n \<le> length xs \<Longrightarrow> erase_back oldDefs n xs = filter (\<lambda>i. ai_cdef i \<notin> oldDefs) (take n xs) @ drop n xs"
proof (induction n arbitrary: xs)
  case (Suc n)
  have step: "take (Suc n) xs = take n xs @ [xs ! n]" "drop n xs = xs ! n # drop (Suc n) xs"
    using Suc.prems by (simp_all add: take_Suc_conv_app_nth Cons_nth_drop_Suc)
  show ?case
    using Suc.IH[of "take n xs @ drop (Suc n) xs"] Suc.IH[of xs] Suc.prems by (simp add: step)
qed simp

lemma AddDefs_ok:
  assumes "sorts_by_score sort_fn" "avail_ok l"
  shows "avail_ok (AddDefs sort_fn empty_info buildDefs l)" "al_all (AddDefs sort_fn empty_info buildDefs l) = al_all l"
    "al_allInfos (AddDefs sort_fn empty_info buildDefs l) = al_allInfos l"
    "al_avail (AddDefs sort_fn empty_info buildDefs l) = al_avail l \<union> (al_all l \<inter> buildDefs)"
proof -
  let ?D = "al_all l \<inter> buildDefs - al_avail l"
  have D: "finite ?D" "finite (al_avail l)" "al_avail l \<inter> ?D = {}"
    using assms(2) by (auto simp: avail_ok_def intro: finite_subset)
  have infos: "(\<lambda>d. if d \<in> ?D then Some (info_of empty_info l d) else al_allInfos l d) = al_allInfos l"
    using assms(2) by (force simp: avail_ok_def info_of_def)
  have new: "map (info_of empty_info l) (sorted_list_of_set ?D) = map (\<lambda>d. the (al_allInfos l d)) (sorted_list_of_set ?D)"
    using assms(2) D(1) by (force simp: avail_ok_def info_of_def)
  have "mset (sort_fn (al_infos l @ map (info_of empty_info l) (sorted_list_of_set ?D))) =
      image_mset (\<lambda>d. the (al_allInfos l d)) (mset_set (al_avail l \<union> ?D))"
  proof -
    have "mset (sorted_list_of_set ?D) = mset_set ?D"
      using mset_set_set[OF distinct_sorted_list_of_set[of ?D]] D(1) by simp
    moreover have "mset_set (al_avail l \<union> ?D) = mset_set (al_avail l) + mset_set ?D"
      by (rule mset_set_Union[OF D(2,1,3)])
    ultimately show ?thesis
      using assms by (simp add: new sorts_by_score_def avail_ok_def del: Un_Diff_cancel Un_Diff_cancel2)
  qed
  with assms D infos show "avail_ok (AddDefs sort_fn empty_info buildDefs l)"
    by (auto simp: AddDefs_def Let_def avail_ok_def sorts_by_score_def)
  show "al_all (AddDefs sort_fn empty_info buildDefs l) = al_all l" "al_allInfos (AddDefs sort_fn empty_info buildDefs l) = al_allInfos l"
    "al_avail (AddDefs sort_fn empty_info buildDefs l) = al_avail l \<union> (al_all l \<inter> buildDefs)"
    using infos by (auto simp: AddDefs_def Let_def)
qed

lemma RemoveDefs_ok:
  assumes "avail_ok l"
  shows "avail_ok (RemoveDefs buildDefs l)" "al_all (RemoveDefs buildDefs l) = al_all l"
    "al_allInfos (RemoveDefs buildDefs l) = al_allInfos l" "al_avail (RemoveDefs buildDefs l) = al_avail l - al_all l \<inter> buildDefs"
proof -
  let ?O = "al_all l \<inter> buildDefs"
  have fin: "finite (al_avail l)" using assms by (auto simp: avail_ok_def intro: finite_subset)
  have "filter_mset (\<lambda>i. ai_cdef i \<notin> ?O) (mset (al_infos l)) =
      image_mset (\<lambda>d. the (al_allInfos l d)) (filter_mset (\<lambda>d. d \<notin> ?O) (mset_set (al_avail l)))"
  proof -
    have "ai_cdef (the (al_allInfos l d)) = d" if "d \<in> al_avail l" for d
      using assms that by (force simp: avail_ok_def)
    then have "filter_mset (\<lambda>d. ai_cdef (the (al_allInfos l d)) \<notin> ?O) (mset_set (al_avail l)) = filter_mset (\<lambda>d. d \<notin> ?O) (mset_set (al_avail l))"
      using fin by (intro filter_mset_cong) auto
    then show ?thesis using assms by (simp add: avail_ok_def filter_mset_image_mset)
  qed
  also have "filter_mset (\<lambda>d. d \<notin> ?O) (mset_set (al_avail l)) = mset_set (al_avail l - ?O)"
    using fin by (simp add: filter_mset_mset_set set_diff_eq)
  finally have "mset (filter (\<lambda>i. ai_cdef i \<notin> ?O) (al_infos l)) = image_mset (\<lambda>d. the (al_allInfos l d)) (mset_set (al_avail l - ?O))"
    by simp
  with assms show "avail_ok (RemoveDefs buildDefs l)"
    by (auto simp: RemoveDefs_def Let_def avail_ok_def erase_back_filter sorted_wrt_filter)
  show "al_all (RemoveDefs buildDefs l) = al_all l" "al_allInfos (RemoveDefs buildDefs l) = al_allInfos l"
    "al_avail (RemoveDefs buildDefs l) = al_avail l - al_all l \<inter> buildDefs"
    by (auto simp: RemoveDefs_def Let_def)
qed

lemma AvailList_Init_fields:
  "al_all (AvailList_Init sort_fn can_build id_of builders score_fn l) = al_all l"
  "al_avail (AvailList_Init sort_fn can_build id_of builders score_fn l) = al_avail l"
  "al_infos (AvailList_Init sort_fn can_build id_of builders score_fn l) = al_infos l"
  "finite (al_all l) \<Longrightarrow> d \<in> al_all l \<Longrightarrow> al_allInfos (AvailList_Init sort_fn can_build id_of builders score_fn l) d =
     Some \<lparr> ai_cdef = d, ai_score = fst (score_fn d), ai_data = snd (score_fn d) \<rparr>"
  by (simp_all add: AvailList_Init_def Let_def comp_def map_of_map_restrict map_add_def)

lemma AvailList_Init_ok:
  assumes "finite (al_all l)" "al_avail l = {}" "al_infos l = []"
  shows "avail_ok (AvailList_Init sort_fn can_build id_of builders score_fn l)"
  using assms by (simp add: avail_ok_def AvailList_Init_fields)

section \<open>Best and worst\<close>

datatype avail_op = Add_defs "nat set" | Remove_defs "nat set"

fun avail_apply :: "(('s::linorder, 't) SAvailInfo list \<Rightarrow> ('s, 't) SAvailInfo list) \<Rightarrow> ('s, 't) SAvailInfo \<Rightarrow> avail_op \<Rightarrow>
    ('s, 't) CAvailList \<Rightarrow> ('s, 't) CAvailList" where
  "avail_apply sort_fn empty_info (Add_defs ds) l = AddDefs sort_fn empty_info ds l"
| "avail_apply sort_fn empty_info (Remove_defs ds) l = RemoveDefs ds l"

text \<open>What is available after the operations, as a set.\<close>

fun avail_set :: "nat set \<Rightarrow> avail_op \<Rightarrow> nat set \<Rightarrow> nat set" where
  "avail_set defs (Add_defs ds) s = s \<union> defs \<inter> ds"
| "avail_set defs (Remove_defs ds) s = s - defs \<inter> ds"

definition available :: "nat set \<Rightarrow> avail_op list \<Rightarrow> nat set" where
  "available defs ops = fold (avail_set defs) ops {}"

lemma avail_run:
  assumes "sorts_by_score sort_fn" "avail_ok l"
  shows "avail_ok (fold (avail_apply sort_fn empty_info) ops l) \<and> al_allInfos (fold (avail_apply sort_fn empty_info) ops l) = al_allInfos l \<and>
    al_all (fold (avail_apply sort_fn empty_info) ops l) = al_all l \<and>
    al_avail (fold (avail_apply sort_fn empty_info) ops l) = fold (avail_set (al_all l)) ops (al_avail l)"
  using assms(2)
proof (induction ops arbitrary: l)
  case (Cons p ops)
  have "avail_ok (avail_apply sort_fn empty_info p l)" "al_all (avail_apply sort_fn empty_info p l) = al_all l"
    "al_allInfos (avail_apply sort_fn empty_info p l) = al_allInfos l" "al_avail (avail_apply sort_fn empty_info p l) = avail_set (al_all l) p (al_avail l)"
    using AddDefs_ok[OF assms(1) Cons.prems] RemoveDefs_ok[OF Cons.prems] by (cases p; simp)+
  with Cons.IH[of "avail_apply sort_fn empty_info p l"] show ?case by simp
qed simp

lemma find_sorted:
  assumes "sorted_wrt R xs" "find P xs = Some x"
  shows "x \<in> set xs \<and> P x \<and> (\<forall>y \<in> set xs. P y \<longrightarrow> x = y \<or> R x y)"
  using assms by (induction xs) (auto split: if_splits)

lemma find_in_infos:
  assumes "sorted_wrt R xs" "\<And>i. i \<in> set xs \<longleftrightarrow> ai_cdef i \<in> A \<and> i = info (ai_cdef i)" "\<And>d. ai_cdef (info d) = d" "\<And>i. R i i"
  shows "case map_option ai_cdef (find (\<lambda>i. flt (ai_cdef i) (ai_data i)) xs) of
      None \<Rightarrow> {d \<in> A. flt d (ai_data (info d))} = {}
    | Some d \<Rightarrow> d \<in> {d \<in> A. flt d (ai_data (info d))} \<and> (\<forall>e \<in> {d \<in> A. flt d (ai_data (info d))}. R (info d) (info e))"
proof (cases "find (\<lambda>i. flt (ai_cdef i) (ai_data i)) xs")
  case None
  then have "\<not> flt (ai_cdef (info d)) (ai_data (info d))" if "info d \<in> set xs" for d using that by (auto simp: find_None_iff)
  then show ?thesis using None assms(2)[of "info _"] assms(3) by auto
next
  case (Some i)
  from find_sorted[OF assms(1) Some] assms(2)[of i] have i: "ai_cdef i \<in> A" "i = info (ai_cdef i)" "flt (ai_cdef i) (ai_data i)" by auto
  have "R (info (ai_cdef i)) (info e)" if "e \<in> A" "flt e (ai_data (info e))" for e
    using find_sorted[OF assms(1) Some] assms(2)[of "info e"] assms(3,4) that i(2) by auto
  moreover have "ai_cdef i \<in> {d \<in> A. flt d (ai_data (info d))}" using i by auto
  ultimately show ?thesis unfolding Some option.map option.case by blast
qed

lemma avail_infos:
  assumes "avail_ok l"
  shows "i \<in> set (al_infos l) \<longleftrightarrow> ai_cdef i \<in> al_avail l \<and> al_allInfos l (ai_cdef i) = Some i"
proof -
  have fin: "finite (al_avail l)" using assms by (auto simp: avail_ok_def intro: finite_subset)
  have "set (al_infos l) = (\<lambda>d. the (al_allInfos l d)) ` al_avail l"
    using assms fin by (simp add: avail_ok_def flip: set_mset_mset)
  then show ?thesis using assms by (force simp: avail_ok_def)
qed

text \<open>
  The list returns the best available definition.  After any additions and removals, \<open>GetBestDef\<close> finds a definition exactly when
  an available one passes the filter, and the one it returns is available, passes the filter and has the highest score
  of those; \<open>GetWorstDef\<close> likewise returns one with the lowest.
\<close>

theorem GetBestDef_best:
  assumes "sorts_by_score sort_fn" "finite defs"
  shows "let l = fold (avail_apply sort_fn empty_info) ops
        (AvailList_Init sort_fn can_build id_of builders score_fn (AvailList_new\<lparr>al_all := defs\<rparr>));
      good = {d \<in> available defs ops. flt d (snd (score_fn d))} in
    (case GetBestDef flt l of None \<Rightarrow> good = {} | Some d \<Rightarrow> d \<in> good \<and> (\<forall>e \<in> good. fst (score_fn e) \<le> fst (score_fn d))) \<and>
    (case GetWorstDef flt l of None \<Rightarrow> good = {} | Some d \<Rightarrow> d \<in> good \<and> (\<forall>e \<in> good. fst (score_fn d) \<le> fst (score_fn e)))"
proof -
  let ?start = "AvailList_Init sort_fn can_build id_of builders score_fn (AvailList_new\<lparr>al_all := defs\<rparr>)"
  let ?l = "fold (avail_apply sort_fn empty_info) ops ?start"
  let ?info = "\<lambda>d. \<lparr> ai_cdef = d, ai_score = fst (score_fn d), ai_data = snd (score_fn d) \<rparr>"
  let ?good = "{d \<in> available defs ops. flt d (snd (score_fn d))}"
  have ok0: "avail_ok ?start" using assms(2) by (intro AvailList_Init_ok) (simp_all add: AvailList_new_def)
  have l0: "al_all ?start = defs" "al_avail ?start = {}" "d \<in> defs \<Longrightarrow> al_allInfos ?start d = Some (?info d)" for d
    using assms(2) by (simp_all add: AvailList_Init_fields) (simp_all add: AvailList_new_def)
  note run = avail_run[OF assms(1) ok0, of empty_info ops, unfolded l0, folded available_def]
  have sub: "available defs ops \<subseteq> defs" using run unfolding avail_ok_def by auto
  have mem: "i \<in> set (al_infos ?l) \<longleftrightarrow> ai_cdef i \<in> available defs ops \<and> i = ?info (ai_cdef i)" for i
    using run avail_infos[of ?l i] l0(3)[of "ai_cdef i"] sub by auto
  have sorted: "sorted_wrt (\<lambda>a b. ai_score b \<le> ai_score a) (al_infos ?l)" using run by (simp add: avail_ok_def)
  have sorted': "sorted_wrt (\<lambda>a b. ai_score a \<le> ai_score b) (rev (al_infos ?l))" using sorted by (simp add: sorted_wrt_rev)
  have "case GetBestDef flt ?l of None \<Rightarrow> ?good = {} | Some d \<Rightarrow> d \<in> ?good \<and> (\<forall>e \<in> ?good. fst (score_fn e) \<le> fst (score_fn d))"
    using find_in_infos[OF sorted mem SAvailInfo.select_convs(1) order_refl, of flt] unfolding GetBestDef_def SAvailInfo.select_convs .
  moreover have "case GetWorstDef flt ?l of None \<Rightarrow> ?good = {} | Some d \<Rightarrow> d \<in> ?good \<and> (\<forall>e \<in> ?good. fst (score_fn d) \<le> fst (score_fn e))"
    using find_in_infos[OF sorted' mem[folded set_rev[of "al_infos ?l"]] SAvailInfo.select_convs(1) order_refl, of flt]
    unfolding GetWorstDef_def SAvailInfo.select_convs .
  ultimately show ?thesis unfolding Let_def by (rule conjI)
qed

text \<open>Three definitions with scores, of which two become available.\<close>

definition sample_score :: "nat \<Rightarrow> int \<times> unit" where
  "sample_score d = (10 - int d, ())"

lemma sort_key_by_score: "sorts_by_score (rev \<circ> sort_key ai_score)"
  using sorted_sort_key[of ai_score] by (auto simp: sorts_by_score_def sorted_wrt_rev sorted_map)

theorem GetBestDef_best_witness:
  "let l = fold (avail_apply (rev \<circ> sort_key ai_score) \<lparr> ai_cdef = 0, ai_score = 0, ai_data = () \<rparr>) [Add_defs {2, 3, 7}, Remove_defs {2}]
       (AvailList_Init (rev \<circ> sort_key ai_score) (\<lambda>_ _. True) id [] sample_score (AvailList_new\<lparr>al_all := {1, 2, 3, 4, 7}\<rparr>)) in
   GetBestDef (\<lambda>_ _. True) l = Some 3 \<and> GetWorstDef (\<lambda>_ _. True) l = Some 7"
proof -
  have "available {1, 2, 3, 4, 7} [Add_defs {2, 3, 7}, Remove_defs {2}] = {3, 7}" by (auto simp: available_def)
  then have good: "{d \<in> available {1, 2, 3, 4, 7} [Add_defs {2, 3, 7}, Remove_defs {2}]. True} = {3, 7}" by auto
  show ?thesis
    using GetBestDef_best[OF sort_key_by_score, of "{1, 2, 3, 4, 7}" "\<lparr> ai_cdef = 0, ai_score = 0, ai_data = () \<rparr>"
        "[Add_defs {2, 3, 7}, Remove_defs {2}]" "\<lambda>_ _. True" id "[]" sample_score "\<lambda>_ _. True"]
    unfolding Let_def good by (auto simp: sample_score_def split: option.splits)
qed

end
