(* ===== verification/Spec2Isabelle.thy ===== *)
theory Spec2Isabelle
  imports Ring_Buffer Counters Subscriber_Slot Delta_Bus Capability_Provider Command_Queue
    Command_Validator Command_Dispatch Snapshot_Tick Order_State_Tracker Admin_Controller Auth
    Transport_Config Grpc_Log Coordinator_Client
    Gateway_Refinement Gateway_Start Log_Records Admin_Service Snapshot_Builder Multi_Queue Job_Scheduler Worker_Pool
    Block_Mask Blocking_Map Building_Site Mask_Handler Avail_List
begin

text \<open>
  Verification of the HighBar gateway.

  \<^bold>\<open>The program.\<close>  HighBarV3 is a game AI for the Spring engine with a gateway that lets programs outside the engine watch the game and send
  commands.  The engine calls the AI on one thread.  A job of the AI's scheduler runs the gateway module once per frame
  (module/GrpcGatewayModule.cpp).  The module collects events, numbers and serializes a state update, appends it to a history ring and publishes it
  to the subscribers; it drains the commands, callbacks and admin actions that arrived, and it disables the gateway for good when something
  throws.  The service (grpc/HighBarService.cpp) answers RPCs on worker threads: each state stream has a pump thread that sends a snapshot or a replay
  from the ring and then live updates; command streams are validated and queued for the engine thread.  A coordinator client
  (grpc/CoordinatorClient.cpp) pushes the same updates to an outside process and reads commands from it.  Besides the gateway the development covers
  the job scheduler with its worker threads, and from the host AI the placement of buildings, the name masks and the list of available units.

  Paths below are relative to src/src/circuit, those that begin with proto/ to src.  A definition has the name of the function it
  models, with the class in front where names clash; a record has the fields of the class.

  \<^bold>\<open>Shared theories.\<close>  \<open>Prelude\<close>: machine types, exceptions, reachability of step relations, the interface \<open>bounded_fifo\<close> of a bounded
  queue.  \<open>Ring_Store\<close>: the interface \<open>ring_store\<close> of a circular array.  \<open>State_Stream\<close> has the interface \<open>replay_log\<close>
  of a numbered history.  Each is interpreted on the code's model: the queue interface by the command queue and the subscriber slot, the array by the
  history ring and the latency samples, the history by the ring.

  \<^bold>\<open>State distribution.\<close>
  \<^item> \<open>Ring_Buffer\<close> (grpc/RingBuffer): push and replay.  After consecutive pushes a replay returns exactly the retained payloads above a number.
  \<^item> \<open>Counters\<close> (grpc/Counters): gauges and the latency percentile, an order statistic of the last 1024 samples.
  \<^item> \<open>Subscriber_Slot\<close> (grpc/SubscriberSlot): the queue of one stream, as atomic operations and, for its wake-ups, line by line.  A push never
    leaves a consumer asleep; an eviction can.
  \<^item> \<open>Delta_Bus\<close> (grpc/DeltaBus): subscription and publication over a heap of slots.  A publication reaches every live slot with room and
    evicts exactly the full ones.
  \<^item> \<open>State_Stream\<close> (\<open>PumpLoop\<close> in grpc/HighBarService.cpp): pump, engine thread, other streams, mass evictions and exceptions of the pump interleave as steps.
    The numbers a stream has sent are consecutive in every run.
  \<^item> \<open>Snapshot_Tick\<close>, \<open>Snapshot_Builder\<close> (grpc/SnapshotTick, grpc/SnapshotBuilder): the snapshot scheduler with its bounds, and the messages
    of a snapshot; the cache of the static map also as an interleaving of threads.

  \<^bold>\<open>Commands.\<close>
  \<^item> \<open>Commands\<close>, \<open>Command_Batch\<close>, \<open>Capability_Provider\<close>: the messages of proto/highbar/commands.proto and the advertised arms.
  \<^item> \<open>Command_Validator\<close> (grpc/CommandValidator): every check in order; acceptance is characterised completely.
  \<^item> \<open>Command_Queue\<close>, \<open>Order_State_Tracker\<close>: bounded first-in first-out transfer, batches as a whole, and order bookkeeping.
  \<^item> \<open>Command_Dispatch\<close> (grpc/CommandDispatch.cpp): all arms as the engine calls they make.  Cheat calls happen only while cheats are on; cheats
    that a command switched on stay on only if the engine does not switch them off.

  \<^bold>\<open>Service.\<close>
  \<^item> \<open>HighBar_Service\<close>, \<open>Submit_Commands\<close>, \<open>Service_Calls\<close> (grpc/HighBarService): sessions, unary handlers, bind guard, closing; the command stream as
    a state machine; a server as a sequence of completion events, with the limits on observers and on the AI role.
  \<^item> \<open>Admin_Controller\<close>, \<open>Admin_Service\<close>, \<open>Admin_Apply\<close>: validation, leases and audit of admin actions, their RPCs, and their effect on the engine.
  \<^item> \<open>Auth\<close> (grpc/AuthToken.cpp, grpc/AuthInterceptor.cpp): the token, its file and its check.  The interceptor marks a call without the token
    as refused and lets it proceed.
  \<^item> \<open>Transport_Config\<close>, \<open>Grpc_Log\<close>, \<open>Log_Records\<close>: loading of the configuration, member by member; fault records and health file.
  \<^item> \<open>Coordinator_Client\<close>: heartbeats, push queue and worker, command reader.

  \<^bold>\<open>The module.\<close>
  \<^item> \<open>Gateway_Module\<close> (module/GrpcGatewayModule.cpp): hooks, health, emitters, drains and the tick.  A body that throws returns the exception with the
    state it leaves.
  \<^item> \<open>Gateway_Safety\<close>: every operation is a sequence of micro steps; the gateway faults at most once, and numbers without gap.
  \<^item> \<open>Gateway_Refinement\<close>: a healthy run does to ring and bus exactly the engine thread's steps of \<open>State_Stream\<close>, one append and one publication
    per number in this order; keep-alive; every drained command is reported.
  \<^item> \<open>Gateway_Start\<close>: construction and destruction.

  \<^bold>\<open>Scheduler and host AI.\<close>
  \<^item> \<open>Job_Scheduler\<close>, \<open>Multi_Queue\<close>, \<open>Worker_Pool\<close> (scheduler/Scheduler, util/MultiQueue.hpp): a pass over the jobs, the queue, and the worker threads line by
    line with a release that pauses them.
  \<^item> \<open>Block_Mask\<close>, \<open>Blocking_Map\<close>, \<open>Building_Site\<close> (terrain): footprints in four facings, the grids, the search for the nearest site and the marks.
  \<^item> \<open>Mask_Handler\<close>, \<open>Avail_List\<close> (util): names as bits, and the available definitions ordered by score.

  \<^bold>\<open>Parameters.\<close>  Code that is not in the repository is an argument: the engine (\<open>Engine\<close>, \<open>tick_env\<close>, \<open>AdminEngine\<close> and the predicates of the site
  search), the protobuf serializer and parser, of which only that parsing recovers the number is assumed (\<open>wire_faithful\<close>), the JSON reader,
  the results of gRPC calls and of system calls, the library's sort, of which the order and contents of the result are assumed
  (\<open>sorts_by_distance\<close>), and the environment variables.  What a job does is an argument too.

  \<^bold>\<open>Bounds.\<close>  There is no fuel.  Loops over lists that grow while they are walked (\<open>Job_Scheduler\<close>) are partial functions, with theorems that say when
  they return and an example that does not.  Loops over system calls take the list of results and are none when it is too short; a theorem
  says how many results are enough.  Sequence numbers, gauges, counters and masks have the width of the code and wrap.  Statements about
  consecutive numbers need fewer than $2^{64} - 2$ updates.

  \<^bold>\<open>Abstractions.\<close>
  \<^item> A publication on the bus is one step.  In the code other threads may run between the pushes to two slots; the slots of
    different streams do not depend on each other.  An exception of \<open>Publish\<close> comes before the first push.
  \<^item> Lines that hold a mutex are one step.  Memory is sequentially consistent, as the atomics used require.
  \<^item> Frames of the scheduler and coordinates of the terrain are unbounded integers; overflow of a signed \<open>int\<close> is undefined in the code.
    In the scheduler's pass a completion that a worker pushes while the pass runs is seen by the next pass.
  \<^item> The receive limit that \<open>Bind\<close> hands to gRPC is not represented, nor are paths with null characters.
  \<^item> Texts that only inform a human (issue details, status messages) are left out unless a property mentions them.
  \<^item> The fields \<open>gw_trace\<close> and \<open>gw_wire\<close> of the gateway record what it did and are read by no operation; the same holds of
    \<open>wp_completed\<close>, and \<open>sch_ran\<close> only lets what a job does depend on how many ran before it.

  \<^bold>\<open>Not modelled.\<close>  The entry points of the AI (AIExport.cpp, CircuitAI.cpp), which pass engine events on; the strategy of the AI, which is
  floating-point heuristics over the engine's interface; the coarse searches, paths and areas of the terrain manager; script bindings,
  vendored libraries, generated code and the clients in other languages.
\<close>

end
